(* ===== verification/Hermas_Prelude.thy ===== *)
theory Hermas_Prelude
  imports Main "HOL-Library.Word" "HOL-Library.Monad_Syntax"
begin

text \<open>
  What every other theory of the development shares: the machine integers of the C code,
  byte buffers as lists of bytes, sub-buffers (\<open>chunk\<close>), the effect of \<open>memcpy\<close> on a
  buffer (\<open>write_bytes\<close>), the short-circuit connectives of C over computations that may
  fault, and the collections of rewrite rules the components use.
\<close>

unbundle bit_operations_syntax

type_synonym u8 = "8 word"
type_synonym u16 = "16 word"
type_synonym u32 = "32 word"
type_synonym u64 = "64 word"
type_synonym bytes = "u8 list"

named_theorems buffer_simps \<open>reading a buffer through the writes made to it\<close>
named_theorems codec_simps \<open>unfolding an encoder or a decoder to its sequence of field accesses\<close>
named_theorems fault_simps \<open>evaluating a checked read whose bounds are known\<close>

section \<open>Sub-buffers\<close>

definition chunk :: "'a list \<Rightarrow> nat \<Rightarrow> nat \<Rightarrow> 'a list" where
  "chunk xs off n = take n (drop off xs)"

definition write_bytes :: "'a list \<Rightarrow> nat \<Rightarrow> 'a list \<Rightarrow> 'a list" where
  "write_bytes buf off xs = take off buf @ xs @ drop (off + length xs) buf"

lemma length_chunk [simp]: "length (chunk xs off n) = min n (length xs - off)"
  by (simp add: chunk_def)

lemma nth_chunk [simp]: "i < n \<Longrightarrow> off + n \<le> length xs \<Longrightarrow> chunk xs off n ! i = xs ! (off + i)"
  by (simp add: chunk_def)

lemma chunk_all [simp]: "chunk xs 0 (length xs) = xs"
  by (simp add: chunk_def)

lemma chunk_zero [simp]: "chunk xs off 0 = []"
  by (simp add: chunk_def)

lemma chunk_drop [buffer_simps]: "chunk (drop a xs) off n = chunk xs (a + off) n"
  by (simp add: chunk_def add.commute)

lemma chunk_take [buffer_simps]: "off + n \<le> m \<Longrightarrow> chunk (take m xs) off n = chunk xs off n"
  by (simp add: chunk_def take_drop min_absorb1)

lemma chunk_append_left [buffer_simps]:
  "off + n \<le> length xs \<Longrightarrow> chunk (xs @ ys) off n = chunk xs off n"
  by (simp add: chunk_def)

lemma chunk_append_right [buffer_simps]:
  "length xs \<le> off \<Longrightarrow> chunk (xs @ ys) off n = chunk ys (off - length xs) n"
  by (simp add: chunk_def)

lemma length_write_bytes [simp]:
  "off + length xs \<le> length buf \<Longrightarrow> length (write_bytes buf off xs) = length buf"
  by (simp add: write_bytes_def)

lemma chunk_write_same [buffer_simps]:
  "off + length xs \<le> length buf \<Longrightarrow> n = length xs \<Longrightarrow> chunk (write_bytes buf off xs) off n = xs"
  by (simp add: chunk_def write_bytes_def)

lemma chunk_write_before:
  assumes "off + length xs \<le> length buf" and "off' + n \<le> off"
  shows "chunk (write_bytes buf off xs) off' n = chunk buf off' n"
  using assms by (simp add: chunk_def write_bytes_def take_drop min_absorb1)

lemma chunk_write_after:
  assumes "off + length xs \<le> length buf" and "off + length xs \<le> off'"
  shows "chunk (write_bytes buf off xs) off' n = chunk buf off' n"
  using assms by (simp add: chunk_def write_bytes_def)

lemma chunk_write_disjoint [buffer_simps]:
  assumes "off + length xs \<le> length buf"
    and "off' + n \<le> off \<or> off + length xs \<le> off'"
  shows "chunk (write_bytes buf off xs) off' n = chunk buf off' n"
  using assms chunk_write_before chunk_write_after by blast

lemma take_write_bytes [buffer_simps]:
  "n \<le> off \<Longrightarrow> off + length xs \<le> length buf \<Longrightarrow> take n (write_bytes buf off xs) = take n buf"
  by (simp add: write_bytes_def min_absorb1)

lemma drop_write_bytes [buffer_simps]:
  "off + length xs \<le> n \<Longrightarrow> off + length xs \<le> length buf \<Longrightarrow>
   drop n (write_bytes buf off xs) = drop n buf"
  by (simp add: write_bytes_def)

lemma chunk_split: "chunk xs off (m + n) = chunk xs off m @ chunk xs (off + m) n"
  by (simp add: chunk_def take_add add.commute)

lemma chunk_eq_iff:
  assumes "off + n \<le> length xs" and "off' + n \<le> length ys"
  shows "chunk xs off n = chunk ys off' n \<longleftrightarrow> (\<forall>i<n. xs ! (off + i) = ys ! (off' + i))"
  using assms by (auto simp: list_eq_iff_nth_eq)

lemma list_update_as_write:
  "i < length buf \<Longrightarrow> buf[i := x] = write_bytes buf i [x]"
  by (simp add: write_bytes_def upd_conv_take_nth_drop)

lemma write_bytes_append:
  assumes "off + length xs + length ys \<le> length buf"
  shows "write_bytes (write_bytes buf off xs) (off + length xs) ys = write_bytes buf off (xs @ ys)"
  using assms by (simp add: write_bytes_def ac_simps)

lemma write_bytes_nil [simp]: "off \<le> length buf \<Longrightarrow> write_bytes buf off [] = buf"
  by (simp add: write_bytes_def)

section \<open>C's short-circuit connectives over checked reads\<close>

text \<open>
  A computation that reads memory has type \<open>'a option\<close>: \<open>None\<close> is an access outside the
  buffer, which is undefined behaviour in C. In \<open>a && b\<close> the right operand is evaluated
  only when the left one is true, so an access the left operand guards cannot fault.
\<close>

definition c_and :: "bool option \<Rightarrow> bool option \<Rightarrow> bool option" where
  "c_and a b = (case a of None \<Rightarrow> None | Some x \<Rightarrow> if x then b else Some False)"

definition c_or :: "bool option \<Rightarrow> bool option \<Rightarrow> bool option" where
  "c_or a b = (case a of None \<Rightarrow> None | Some x \<Rightarrow> if x then Some True else b)"

lemma c_and_Some [simp]: "c_and (Some x) b = (if x then b else Some False)"
  by (simp add: c_and_def)

lemma c_or_Some [simp]: "c_or (Some x) b = (if x then Some True else b)"
  by (simp add: c_or_def)

lemma c_and_None [simp]: "c_and None b = None"
  by (simp add: c_and_def)

lemma c_or_None [simp]: "c_or None b = None"
  by (simp add: c_or_def)

lemma c_and_eq_True: "c_and a b = Some True \<longleftrightarrow> a = Some True \<and> b = Some True"
  by (cases a) auto

lemma c_or_eq_True: "c_or a b = Some True \<longleftrightarrow> a = Some True \<or> (a = Some False \<and> b = Some True)"
  by (cases a) auto

lemma c_and_defined:
  "a \<noteq> None \<Longrightarrow> (a = Some True \<Longrightarrow> b \<noteq> None) \<Longrightarrow> c_and a b \<noteq> None"
  by (cases a) auto

lemma c_or_defined:
  "a \<noteq> None \<Longrightarrow> (a = Some False \<Longrightarrow> b \<noteq> None) \<Longrightarrow> c_or a b \<noteq> None"
  by (cases a) auto

section \<open>Results as sums: an error code on the left\<close>

lemma map_sum_id_eq_Inr [simp]: "map_sum id f x = Inr y \<longleftrightarrow> (\<exists>z. x = Inr z \<and> y = f z)"
  by (cases x) auto

lemma map_sum_id_eq_Inl [simp]: "map_sum id f x = Inl e \<longleftrightarrow> x = Inl e"
  by (cases x) auto

section \<open>Fixed tables\<close>

text \<open>The first index below \<open>n\<close> that satisfies a condition: the search loops over fixed tables.\<close>

definition first_index :: "(nat \<Rightarrow> bool) \<Rightarrow> nat \<Rightarrow> nat option" where
  "first_index P n = List.find P [0..<n]"

lemma first_index_Some:
  "first_index P n = Some i \<longleftrightarrow> i < n \<and> P i \<and> (\<forall>j<i. \<not> P j)"
  by (auto simp: first_index_def find_Some_iff)

lemma first_index_None: "first_index P n = None \<longleftrightarrow> (\<forall>i<n. \<not> P i)"
  by (auto simp: first_index_def find_None_iff)

lemma first_index_cong:
  "(\<And>i. i < n \<Longrightarrow> P i = Q i) \<Longrightarrow> first_index P n = first_index Q n"
  unfolding first_index_def by (rule find_cong) auto

text \<open>
  Removing entry \<open>i\<close> of the first \<open>n\<close> entries of an array by moving the later ones down, as
  the C loops do: \<open>for (index = i; index < n - 1; ++index) a[index] = a[index + 1]\<close>.
\<close>

definition shift_down :: "nat \<Rightarrow> nat \<Rightarrow> 'a list \<Rightarrow> 'a list" where
  "shift_down i n xs = foldl (\<lambda>a index. a[index := a ! (index + 1)]) xs [i..<n]"

lemma length_shift_down [simp]: "length (shift_down i n xs) = length xs"
proof -
  have "length (foldl (\<lambda>a index. a[index := a ! (index + 1)]) xs is) = length xs" for "is"
    by (induction "is" arbitrary: xs) simp_all
  then show ?thesis by (simp add: shift_down_def)
qed

lemma shift_down_Suc:
  "i \<le> n \<Longrightarrow> shift_down i (Suc n) xs = (shift_down i n xs)[n := shift_down i n xs ! Suc n]"
  by (simp add: shift_down_def)

lemma nth_shift_down:
  assumes "i \<le> n" and "n < length xs" and "j < length xs"
  shows "shift_down i n xs ! j = (if i \<le> j \<and> j < n then xs ! Suc j else xs ! j)"
  using assms
proof (induction n arbitrary: j)
  case 0
  then show ?case by (simp add: shift_down_def)
next
  case (Suc n)
  show ?case
  proof (cases "i \<le> n")
    case True
    then show ?thesis
      using Suc.IH Suc.prems by (auto simp: shift_down_Suc nth_list_update)
  next
    case False
    then show ?thesis using Suc.prems by (auto simp: shift_down_def)
  qed
qed

lemma take_shift_down:
  assumes "i \<le> n" and "n < length xs"
  shows "take n (shift_down i n xs) = take i xs @ drop (Suc i) (take (Suc n) xs)"
  using assms by (intro nth_equalityI) (auto simp: nth_shift_down nth_append)

section \<open>Counters that are checked before they wrap\<close>

lemma unat_plus_one: "(x :: 'a::len word) \<noteq> - 1 \<Longrightarrow> unat (x + 1) = Suc (unat x)"
proof -
  assume "x \<noteq> - 1"
  then have "1 + x \<noteq> 0" by (metis add_eq_0_iff)
  then show ?thesis by (metis add.commute unatSuc)
qed

lemma word_less_plus_one: "(x :: 'a::len word) \<noteq> - 1 \<Longrightarrow> y \<le> x \<Longrightarrow> y < x + 1"
  by (simp add: word_less_nat_alt word_le_nat_alt unat_plus_one)

end
