(* ===== verification/Hermas_Bytes.thy ===== *)
theory Hermas_Bytes
  imports Hermas_Prelude
begin

text \<open>
  The little-endian field accessors that every codec of the program defines for itself
  (\<open>read_u16\<close>/\<open>get_u16\<close>, \<open>write_u16\<close>/\<open>put_u16\<close> and so on), with the same loops, their
  specification (\<open>le_value\<close>, \<open>le_bytes\<close>) and their round trips; the CRC-32 of the durable
  records and the FNV-1a fingerprint of a graph image.
\<close>

section \<open>Specification: little-endian numbers\<close>

fun le_value :: "bytes \<Rightarrow> 'a::len word" where
  "le_value [] = 0"
| "le_value (b # bs) = ucast b OR push_bit 8 (le_value bs)"

definition le_bytes :: "nat \<Rightarrow> 'a::len word \<Rightarrow> bytes" where
  "le_bytes n v = map (\<lambda>i. ucast (drop_bit (8 * i) v)) [0..<n]"

lemma length_le_bytes [simp]: "length (le_bytes n v) = n"
  by (simp add: le_bytes_def)

lemma bit_le_value:
  "bit (le_value bs :: 'a::len word) n \<longleftrightarrow>
     n < LENGTH('a) \<and> n div 8 < length bs \<and> bit (bs ! (n div 8)) (n mod 8)"
proof (induction bs arbitrary: n)
  case Nil
  then show ?case by simp
next
  case (Cons b bs)
  show ?case
  proof (cases "n < 8")
    case True
    then show ?thesis
      by (auto simp: bit_or_iff bit_push_bit_iff bit_ucast_iff)
  next
    case False
    then have "n div 8 = Suc ((n - 8) div 8)" and "n mod 8 = (n - 8) mod 8"
      by (simp_all add: le_div_geq le_mod_geq)
    with False Cons.IH [of "n - 8"] show ?thesis
      by (auto simp: bit_or_iff bit_push_bit_iff bit_ucast_iff dest: bit_imp_le_length)
  qed
qed

lemma le_value_le_bytes:
  assumes "LENGTH('a) = 8 * n"
  shows "le_value (le_bytes n v) = (v :: 'a::len word)"
proof (rule bit_word_eqI)
  fix k
  assume "k < LENGTH('a)"
  then have "k div 8 < n" using assms by (simp add: less_mult_imp_div_less mult.commute)
  then show "bit (le_value (le_bytes n v) :: 'a word) k = bit v k"
    using \<open>k < LENGTH('a)\<close>
    by (simp add: bit_le_value le_bytes_def bit_ucast_iff bit_drop_bit_eq)
qed

lemma le_bytes_le_value:
  assumes "LENGTH('a) = 8 * length bs"
  shows "le_bytes (length bs) (le_value bs :: 'a::len word) = bs"
proof (rule nth_equalityI)
  show "length (le_bytes (length bs) (le_value bs :: 'a word)) = length bs" by simp
next
  fix i
  assume "i < length (le_bytes (length bs) (le_value bs :: 'a word))"
  then have i: "i < length bs" by simp
  show "le_bytes (length bs) (le_value bs :: 'a word) ! i = bs ! i"
  proof (rule bit_word_eqI)
    fix k
    assume "k < LENGTH(8)"
    then have k: "k < 8" by simp
    then have "8 * i + k < LENGTH('a)" using i assms by simp
    then show "bit (le_bytes (length bs) (le_value bs :: 'a word) ! i) k = bit (bs ! i) k"
      using i k by (simp add: le_bytes_def bit_ucast_iff bit_drop_bit_eq bit_le_value)
  qed
qed

section \<open>The accessors of the program\<close>

definition read_u16 :: "bytes \<Rightarrow> nat \<Rightarrow> u16" where
  "read_u16 bs off = ucast (bs ! off) OR push_bit 8 (ucast (bs ! (off + 1)))"

definition read_u32 :: "bytes \<Rightarrow> nat \<Rightarrow> u32" where
  "read_u32 bs off = ucast (bs ! off) OR push_bit 8 (ucast (bs ! (off + 1))) OR
     push_bit 16 (ucast (bs ! (off + 2))) OR push_bit 24 (ucast (bs ! (off + 3)))"

definition read_u64 :: "bytes \<Rightarrow> nat \<Rightarrow> u64" where
  "read_u64 bs off =
     foldl (\<lambda>value index. value OR push_bit (index * 8) (ucast (bs ! (off + index)))) 0 [0..<8]"

definition write_u16 :: "bytes \<Rightarrow> nat \<Rightarrow> u16 \<Rightarrow> bytes" where
  "write_u16 bs off v = bs[off := ucast v, off + 1 := ucast (drop_bit 8 v)]"

definition write_u32 :: "bytes \<Rightarrow> nat \<Rightarrow> u32 \<Rightarrow> bytes" where
  "write_u32 bs off v =
     foldl (\<lambda>bs index. bs[off + index := ucast (drop_bit (index * 8) v)]) bs [0..<4]"

definition write_u64 :: "bytes \<Rightarrow> nat \<Rightarrow> u64 \<Rightarrow> bytes" where
  "write_u64 bs off v =
     foldl (\<lambda>bs index. bs[off + index := ucast (drop_bit (index * 8) v)]) bs [0..<8]"

definition memset_zero :: "bytes \<Rightarrow> nat \<Rightarrow> bytes" where
  "memset_zero buf n = write_bytes buf 0 (replicate n 0)"

lemma upt_4: "[0..<4] = [0, 1, 2, 3::nat]"
  by (simp add: upt_rec)

lemma upt_8: "[0..<8] = [0, 1, 2, 3, 4, 5, 6, 7::nat]"
  by (simp add: upt_rec)

lemma chunk_Cons:
  "off + Suc n \<le> length xs \<Longrightarrow> chunk xs off (Suc n) = xs ! off # chunk xs (Suc off) n"
  by (simp add: chunk_def Cons_nth_drop_Suc [symmetric])

lemma read_u16_chunk: "off + 2 \<le> length bs \<Longrightarrow> read_u16 bs off = le_value (chunk bs off 2)"
  by (simp add: read_u16_def chunk_Cons numeral_2_eq_2)

lemma read_u32_chunk:
  assumes "off + 4 \<le> length bs"
  shows "read_u32 bs off = le_value (chunk bs off 4)"
proof -
  have "chunk bs off 4 = [bs ! off, bs ! (off + 1), bs ! (off + 2), bs ! (off + 3)]"
    using assms by (simp add: chunk_Cons eval_nat_numeral)
  then show ?thesis
    by (simp add: read_u32_def push_bit_or or.assoc)
qed

lemma read_u64_chunk:
  assumes "off + 8 \<le> length bs"
  shows "read_u64 bs off = le_value (chunk bs off 8)"
proof -
  have "chunk bs off 8 = [bs ! off, bs ! (off + 1), bs ! (off + 2), bs ! (off + 3),
          bs ! (off + 4), bs ! (off + 5), bs ! (off + 6), bs ! (off + 7)]"
    using assms by (simp add: chunk_Cons eval_nat_numeral)
  then show ?thesis
    by (simp add: read_u64_def upt_8 push_bit_or or.assoc)
qed

lemma write_u16_bytes:
  assumes "off + 2 \<le> length bs"
  shows "write_u16 bs off v = write_bytes bs off (le_bytes 2 v)"
proof -
  have "write_u16 bs off v = write_bytes (write_bytes bs off [ucast v]) (off + length [ucast v :: u8])
          [ucast (drop_bit 8 v)]"
    using assms by (simp add: write_u16_def list_update_as_write)
  also have "\<dots> = write_bytes bs off ([ucast v] @ [ucast (drop_bit 8 v)])"
    using assms by (intro write_bytes_append) simp
  finally show ?thesis by (simp add: le_bytes_def upt_rec)
qed

lemma foldl_list_update_write:
  "off + n \<le> length bs \<Longrightarrow>
   foldl (\<lambda>bs i. bs[off + i := f i]) bs [0..<n] = write_bytes bs off (map f [0..<n])"
proof (induction n)
  case 0
  then show ?case by simp
next
  case (Suc n)
  then have "foldl (\<lambda>bs i. bs[off + i := f i]) bs [0..<Suc n] =
      write_bytes (write_bytes bs off (map f [0..<n])) (off + length (map f [0..<n])) [f n]"
    by (simp add: list_update_as_write)
  also have "\<dots> = write_bytes bs off (map f [0..<n] @ [f n])"
    using Suc.prems by (intro write_bytes_append) simp
  finally show ?case by simp
qed

lemma write_u32_bytes:
  "off + 4 \<le> length bs \<Longrightarrow> write_u32 bs off v = write_bytes bs off (le_bytes 4 v)"
  by (simp add: write_u32_def foldl_list_update_write le_bytes_def mult.commute)

lemma write_u64_bytes:
  "off + 8 \<le> length bs \<Longrightarrow> write_u64 bs off v = write_bytes bs off (le_bytes 8 v)"
  by (simp add: write_u64_def foldl_list_update_write le_bytes_def mult.commute)

lemmas write_to_bytes = write_u16_bytes write_u32_bytes write_u64_bytes memset_zero_def
lemmas read_from_chunk = read_u16_chunk read_u32_chunk read_u64_chunk

lemma length_foldl_list_update [simp]:
  "length (foldl (\<lambda>bs i. bs[f i := g i]) bs xs) = length bs"
  by (induction xs arbitrary: bs) simp_all

lemma length_write_fields [simp]:
  "length (write_u16 bs off v) = length bs"
  "length (write_u32 bs off w) = length bs"
  "length (write_u64 bs off x) = length bs"
  by (simp_all add: write_u16_def write_u32_def write_u64_def)

lemma chunk_write_field_same [buffer_simps]:
  "off + 2 \<le> length bs \<Longrightarrow> chunk (write_u16 bs off v) off 2 = le_bytes 2 v"
  "off + 4 \<le> length bs \<Longrightarrow> chunk (write_u32 bs off w) off 4 = le_bytes 4 w"
  "off + 8 \<le> length bs \<Longrightarrow> chunk (write_u64 bs off x) off 8 = le_bytes 8 x"
  by (simp_all add: write_to_bytes chunk_write_same)

lemma chunk_write_field_disjoint [buffer_simps]:
  "off' + n \<le> off \<or> off + 2 \<le> off' \<Longrightarrow> off + 2 \<le> length bs \<Longrightarrow>
     chunk (write_u16 bs off v) off' n = chunk bs off' n"
  "off' + n \<le> off \<or> off + 4 \<le> off' \<Longrightarrow> off + 4 \<le> length bs \<Longrightarrow>
     chunk (write_u32 bs off w) off' n = chunk bs off' n"
  "off' + n \<le> off \<or> off + 8 \<le> off' \<Longrightarrow> off + 8 \<le> length bs \<Longrightarrow>
     chunk (write_u64 bs off x) off' n = chunk bs off' n"
  by (auto simp: write_to_bytes chunk_write_disjoint)

lemma take_write_field [buffer_simps]:
  "n \<le> off \<Longrightarrow> take n (write_u16 bs off v) = take n bs"
  "n \<le> off \<Longrightarrow> take n (write_u32 bs off w) = take n bs"
  "n \<le> off \<Longrightarrow> take n (write_u64 bs off x) = take n bs"
  by (simp_all add: write_u16_def write_u32_def write_u64_def upt_4 upt_8)

lemma drop_write_field [buffer_simps]:
  "off + 2 \<le> n \<Longrightarrow> drop n (write_u16 bs off v) = drop n bs"
  "off + 4 \<le> n \<Longrightarrow> drop n (write_u32 bs off w) = drop n bs"
  "off + 8 \<le> n \<Longrightarrow> drop n (write_u64 bs off x) = drop n bs"
  by (simp_all add: write_u16_def write_u32_def write_u64_def upt_4 upt_8)

lemma length_memset_zero [simp]: "n \<le> length bs \<Longrightarrow> length (memset_zero bs n) = length bs"
  by (simp add: memset_zero_def)

lemma chunk_memset_zero [buffer_simps]:
  assumes "off + n \<le> m" and "m \<le> length bs"
  shows "chunk (memset_zero bs m) off n = replicate n 0"
  using assms by (auto simp: memset_zero_def write_bytes_def chunk_def)

lemma drop_memset_zero [buffer_simps]:
  "m \<le> n \<Longrightarrow> m \<le> length bs \<Longrightarrow> drop n (memset_zero bs m) = drop n bs"
  by (simp add: memset_zero_def buffer_simps)

lemma le_value_le_bytes_fields [simp]:
  "le_value (le_bytes 2 v) = (v :: u16)"
  "le_value (le_bytes 4 w) = (w :: u32)"
  "le_value (le_bytes 8 x) = (x :: u64)"
  by (simp_all add: le_value_le_bytes)

lemma le_bytes_read_u16: "off + 2 \<le> length bs \<Longrightarrow> le_bytes 2 (read_u16 bs off) = chunk bs off 2"
  using le_bytes_le_value [where 'a = 16 and bs = "chunk bs off 2"] by (simp add: read_u16_chunk)

lemma le_bytes_read_u32: "off + 4 \<le> length bs \<Longrightarrow> le_bytes 4 (read_u32 bs off) = chunk bs off 4"
  using le_bytes_le_value [where 'a = 32 and bs = "chunk bs off 4"] by (simp add: read_u32_chunk)

lemma le_bytes_read_u64: "off + 8 \<le> length bs \<Longrightarrow> le_bytes 8 (read_u64 bs off) = chunk bs off 8"
  using le_bytes_le_value [where 'a = 64 and bs = "chunk bs off 8"] by (simp add: read_u64_chunk)

lemmas le_bytes_read = le_bytes_read_u16 le_bytes_read_u32 le_bytes_read_u64

text \<open>
  A fixed layout, given by the widths of its fields: a buffer prefix is the concatenation of its
  fields, so two buffers with equal fields have equal prefixes.
\<close>

fun fields_at :: "'a list \<Rightarrow> nat \<Rightarrow> nat list \<Rightarrow> 'a list" where
  "fields_at xs off [] = []"
| "fields_at xs off (n # ns) = chunk xs off n @ fields_at xs (off + n) ns"

lemma chunk_as_fields: "chunk xs off (sum_list ns) = fields_at xs off ns"
  by (induction ns arbitrary: off) (simp_all add: chunk_split)

lemma take_as_fields: "sum_list ns = n \<Longrightarrow> take n xs = fields_at xs 0 ns"
  using chunk_as_fields [of xs 0 ns] by (simp add: chunk_def)

section \<open>CRC-32\<close>

definition crc_bit :: "u32 \<Rightarrow> u32" where
  "crc_bit value =
     (let mask = - (value AND 1) in drop_bit 1 value XOR (0xedb88320 AND mask))"

definition crc_byte :: "u32 \<Rightarrow> u8 \<Rightarrow> u32" where
  "crc_byte value b = (crc_bit ^^ 8) (value XOR ucast b)"

definition checksum :: "bytes \<Rightarrow> u32" where
  "checksum bs = NOT (foldl crc_byte 0xffffffff bs)"

text \<open>
  The last four of a fixed 64-byte record's bytes are the checksum of the first sixty: what such
  a record reads back as.
\<close>

lemma chunk_eq_of_take_eq:
  "take m xs = take m ys \<Longrightarrow> off + n \<le> m \<Longrightarrow> chunk xs off n = chunk ys off n"
  by (metis chunk_take)

lemma sealed_record:
  assumes "64 \<le> length w" and p: "p = take 64 (write_u32 w 60 (checksum (take 60 w)))"
  shows "length p = 64" and "take 60 p = take 60 w"
    and "read_u32 p 60 = checksum (take 60 p)"
    and "off + n \<le> 60 \<Longrightarrow> chunk p off n = chunk w off n"
    and "drop 64 (write_u32 w 60 v) = drop 64 w"
proof -
  show len: "length p = 64" using assms by simp
  show t60: "take 60 p = take 60 w" using assms by (simp add: buffer_simps)
  have "chunk p 60 4 = le_bytes 4 (checksum (take 60 w))"
    using assms by (simp add: buffer_simps)
  with t60 len show "read_u32 p 60 = checksum (take 60 p)" by (simp add: read_u32_chunk)
  show "off + n \<le> 60 \<Longrightarrow> chunk p off n = chunk w off n"
    using t60 by (rule chunk_eq_of_take_eq)
  show "drop 64 (write_u32 w 60 v) = drop 64 w" by (simp add: buffer_simps)
qed

lemma reseal_record:
  assumes "length p = 64" and "64 \<le> length w" and "take 60 w = take 60 p"
    and "read_u32 p 60 = checksum (take 60 p)" and "drop 64 w = drop 64 d"
  shows "write_u32 w 60 (checksum (take 60 w)) = p @ drop 64 d"
proof -
  have "le_bytes 4 (checksum (take 60 w)) = chunk p 60 4"
    using assms le_bytes_read_u32 [of 60 p] by simp
  also have "\<dots> = drop 60 p" using assms(1) by (simp add: chunk_def)
  finally show ?thesis
    using assms by (simp add: write_u32_bytes write_bytes_def flip: append_assoc)
qed

text \<open>Evaluation of a checksum on literal bytes, one bit at a time.\<close>

lemma crc_bit_eval:
  "crc_bit v = (if bit v 0 then drop_bit 1 v XOR 0xedb88320 else drop_bit 1 v)"
  by (cases "bit v 0") (simp_all add: crc_bit_def and_one_eq mod_2_eq_odd bit_0)

lemma crc_byte_eval:
  "crc_byte v b = crc_bit (crc_bit (crc_bit (crc_bit (crc_bit (crc_bit (crc_bit (crc_bit
     (v XOR ucast b))))))))"
  by (simp add: crc_byte_def numeral_eq_Suc)

lemmas checksum_eval = checksum_def crc_byte_eval crc_bit_eval

section \<open>The image fingerprint\<close>

definition fnv_byte :: "u64 \<Rightarrow> u8 \<Rightarrow> u64" where
  "fnv_byte value b = (value XOR ucast b) * 1099511628211"

definition hermas_journal_image_fingerprint :: "bytes option \<Rightarrow> u64" where
  "hermas_journal_image_fingerprint img =
    (case img of
       None \<Rightarrow> 0
     | Some bs \<Rightarrow>
         if bs = [] then 0
         else (let value = foldl fnv_byte 14695981039346656037 bs
               in if value = 0 then - 1 else value))"

lemma fingerprint_nonzero: "bs \<noteq> [] \<Longrightarrow> hermas_journal_image_fingerprint (Some bs) \<noteq> 0"
  by (simp add: hermas_journal_image_fingerprint_def Let_def)

end
