(* ===== verification/Hermas_Protocol.thy ===== *)
theory Hermas_Protocol
  imports Hermas_Bytes
begin

text \<open>
  The packet protocol between the daemon, its callers and the Action processes
  (\<open>src/protocol.c\<close>): the frame, its semantic rules, the encoder and the decoder.
  A pointer argument is an \<open>option\<close> whose \<open>None\<close> is \<open>NULL\<close>; an out-parameter is passed
  with the value it points to before the call and returned with the value after it.
\<close>

definition HERMAS_PROTOCOL_VERSION :: u16 where [simp]: "HERMAS_PROTOCOL_VERSION = 1"
definition HERMAS_PROTOCOL_HEADER_SIZE :: nat where [simp]: "HERMAS_PROTOCOL_HEADER_SIZE = 48"
definition HERMAS_PROTOCOL_MAX_PACKET_SIZE :: nat where
  [simp]: "HERMAS_PROTOCOL_MAX_PACKET_SIZE = 65536"
definition HERMAS_PROTOCOL_MAX_PAYLOAD_SIZE :: nat where
  [simp]: "HERMAS_PROTOCOL_MAX_PAYLOAD_SIZE = 65488"

definition HERMAS_FRAME_REGISTER_APP :: u16 where [simp]: "HERMAS_FRAME_REGISTER_APP = 1"
definition HERMAS_FRAME_REGISTER_OK :: u16 where [simp]: "HERMAS_FRAME_REGISTER_OK = 2"
definition HERMAS_FRAME_INVOKE :: u16 where [simp]: "HERMAS_FRAME_INVOKE = 3"
definition HERMAS_FRAME_RESULT :: u16 where [simp]: "HERMAS_FRAME_RESULT = 4"
definition HERMAS_FRAME_PROTOCOL_ERROR :: u16 where [simp]: "HERMAS_FRAME_PROTOCOL_ERROR = 5"
definition HERMAS_FRAME_EXECUTE :: u16 where [simp]: "HERMAS_FRAME_EXECUTE = 6"
definition HERMAS_FRAME_EXECUTION_RESULT :: u16 where [simp]: "HERMAS_FRAME_EXECUTION_RESULT = 7"

definition HERMAS_OUTCOME_NONE :: u16 where [simp]: "HERMAS_OUTCOME_NONE = 0"
definition HERMAS_OUTCOME_SUCCESS :: u16 where [simp]: "HERMAS_OUTCOME_SUCCESS = 1"
definition HERMAS_OUTCOME_APP_ERROR :: u16 where [simp]: "HERMAS_OUTCOME_APP_ERROR = 2"
definition HERMAS_OUTCOME_NOT_SENT :: u16 where [simp]: "HERMAS_OUTCOME_NOT_SENT = 3"
definition HERMAS_OUTCOME_UNKNOWN :: u16 where [simp]: "HERMAS_OUTCOME_UNKNOWN = 4"
definition HERMAS_OUTCOME_PROTOCOL_ERROR :: u16 where [simp]: "HERMAS_OUTCOME_PROTOCOL_ERROR = 5"

datatype hermas_protocol_result =
    HERMAS_PROTOCOL_OK
  | HERMAS_PROTOCOL_BUFFER_TOO_SMALL
  | HERMAS_PROTOCOL_FRAME_TOO_LARGE
  | HERMAS_PROTOCOL_TRUNCATED
  | HERMAS_PROTOCOL_BAD_MAGIC
  | HERMAS_PROTOCOL_UNSUPPORTED_VERSION
  | HERMAS_PROTOCOL_INVALID_KIND
  | HERMAS_PROTOCOL_INVALID_FLAGS
  | HERMAS_PROTOCOL_NONZERO_RESERVED
  | HERMAS_PROTOCOL_LENGTH_MISMATCH
  | HERMAS_PROTOCOL_INVALID_IDENTIFIER
  | HERMAS_PROTOCOL_INVALID_OUTCOME
  | HERMAS_PROTOCOL_INVALID_PAYLOAD

record hermas_frame =
  fr_kind :: u16
  fr_execution_id :: u64
  fr_request_id :: u64
  fr_app_id :: u16
  fr_action_id :: u16
  fr_source_type :: u16
  fr_destination_type :: u16
  fr_outcome :: u16
  fr_payload :: "bytes option"
  fr_payload_length :: u32

definition known_kind :: "u16 \<Rightarrow> bool" where
  "known_kind kind \<longleftrightarrow> kind \<ge> HERMAS_FRAME_REGISTER_APP \<and> kind \<le> HERMAS_FRAME_EXECUTION_RESULT"

definition valid_outcome :: "u16 \<Rightarrow> bool" where
  "valid_outcome outcome \<longleftrightarrow> outcome \<le> HERMAS_OUTCOME_PROTOCOL_ERROR"

definition validate_semantics :: "hermas_frame \<Rightarrow> hermas_protocol_result" where
  "validate_semantics f =
    (let no_execution_ids = (fr_execution_id f = 0 \<and> fr_request_id f = 0 \<and>
           fr_source_type f = 0 \<and> fr_destination_type f = 0);
         routed = (fr_execution_id f \<noteq> 0 \<and> fr_request_id f \<noteq> 0)
     in if fr_kind f = HERMAS_FRAME_REGISTER_APP then
          (if no_execution_ids \<and> fr_app_id f \<noteq> 0 \<and> fr_action_id f \<noteq> 0 \<and>
              fr_outcome f = HERMAS_OUTCOME_NONE \<and> fr_payload_length f = 32
           then HERMAS_PROTOCOL_OK else HERMAS_PROTOCOL_INVALID_PAYLOAD)
        else if fr_kind f = HERMAS_FRAME_REGISTER_OK then
          (if no_execution_ids \<and> fr_app_id f \<noteq> 0 \<and> fr_action_id f \<noteq> 0 \<and>
              fr_outcome f = HERMAS_OUTCOME_NONE \<and> fr_payload_length f = 0
           then HERMAS_PROTOCOL_OK else HERMAS_PROTOCOL_INVALID_IDENTIFIER)
        else if fr_kind f = HERMAS_FRAME_INVOKE then
          (if routed \<and> fr_app_id f \<noteq> 0 \<and> fr_action_id f \<noteq> 0 \<and>
              fr_source_type f \<noteq> 0 \<and> fr_destination_type f \<noteq> 0 \<and>
              fr_outcome f = HERMAS_OUTCOME_NONE
           then HERMAS_PROTOCOL_OK else HERMAS_PROTOCOL_INVALID_IDENTIFIER)
        else if fr_kind f = HERMAS_FRAME_RESULT then
          (if routed \<and> fr_app_id f \<noteq> 0 \<and> fr_action_id f \<noteq> 0 \<and>
              fr_source_type f \<noteq> 0 \<and> fr_destination_type f \<noteq> 0 \<and>
              (fr_outcome f = HERMAS_OUTCOME_SUCCESS \<or> fr_outcome f = HERMAS_OUTCOME_APP_ERROR)
           then HERMAS_PROTOCOL_OK else HERMAS_PROTOCOL_INVALID_OUTCOME)
        else if fr_kind f = HERMAS_FRAME_PROTOCOL_ERROR then
          (if fr_outcome f = HERMAS_OUTCOME_PROTOCOL_ERROR \<and> fr_payload_length f = 0
           then HERMAS_PROTOCOL_OK else HERMAS_PROTOCOL_INVALID_OUTCOME)
        else if fr_kind f = HERMAS_FRAME_EXECUTE then
          (if fr_execution_id f \<noteq> 0 \<and> fr_request_id f = 0 \<and> fr_app_id f = 0 \<and>
              fr_action_id f = 0 \<and> fr_source_type f \<noteq> 0 \<and> fr_destination_type f = 0 \<and>
              fr_outcome f = HERMAS_OUTCOME_NONE
           then HERMAS_PROTOCOL_OK else HERMAS_PROTOCOL_INVALID_IDENTIFIER)
        else if fr_kind f = HERMAS_FRAME_EXECUTION_RESULT then
          (if fr_execution_id f \<noteq> 0 \<and> fr_request_id f = 0 \<and> fr_app_id f = 0 \<and>
              fr_action_id f = 0 \<and>
              ((fr_outcome f = HERMAS_OUTCOME_SUCCESS \<or> fr_outcome f = HERMAS_OUTCOME_APP_ERROR) \<and>
                 fr_source_type f \<noteq> 0 \<and> fr_destination_type f \<noteq> 0 \<or>
               (fr_outcome f = HERMAS_OUTCOME_NOT_SENT \<or> fr_outcome f = HERMAS_OUTCOME_UNKNOWN) \<and>
                 fr_source_type f = 0 \<and> fr_destination_type f = 0 \<and> fr_payload_length f = 0)
           then HERMAS_PROTOCOL_OK else HERMAS_PROTOCOL_INVALID_OUTCOME)
        else HERMAS_PROTOCOL_INVALID_KIND)"

text \<open>\<open>HRP1\<close>, the packet magic.\<close>

definition protocol_magic :: bytes where
  "protocol_magic = [0x48, 0x52, 0x50, 0x31]"

definition write_header :: "hermas_frame \<Rightarrow> bytes \<Rightarrow> bytes" where
  "write_header f destination =
    (let d = memset_zero destination HERMAS_PROTOCOL_HEADER_SIZE;
         d = write_bytes d 0 protocol_magic;
         d = write_u16 d 4 HERMAS_PROTOCOL_VERSION;
         d = write_u16 d 6 (fr_kind f);
         d = write_u32 d 8 0;
         d = write_u32 d 12 (of_nat HERMAS_PROTOCOL_HEADER_SIZE);
         d = write_u64 d 16 (fr_execution_id f);
         d = write_u64 d 24 (fr_request_id f);
         d = write_u16 d 32 (fr_app_id f);
         d = write_u16 d 34 (fr_action_id f);
         d = write_u16 d 36 (fr_source_type f);
         d = write_u16 d 38 (fr_destination_type f);
         d = write_u16 d 40 (fr_outcome f);
         d = write_u16 d 42 0
     in write_u32 d 44 (fr_payload_length f))"

definition hermas_protocol_encode ::
  "hermas_frame option \<Rightarrow> bytes option \<Rightarrow> nat option \<Rightarrow>
   hermas_protocol_result \<times> bytes option \<times> nat option" where
  "hermas_protocol_encode frame destination encoded_size =
    (case (frame, destination, encoded_size) of
      (Some f, Some d, Some _) \<Rightarrow>
        (let total = HERMAS_PROTOCOL_HEADER_SIZE + unat (fr_payload_length f) in
         if \<not> known_kind (fr_kind f) then (HERMAS_PROTOCOL_INVALID_KIND, Some d, Some 0)
         else if \<not> valid_outcome (fr_outcome f) then
           (HERMAS_PROTOCOL_INVALID_OUTCOME, Some d, Some 0)
         else if unat (fr_payload_length f) > HERMAS_PROTOCOL_MAX_PAYLOAD_SIZE then
           (HERMAS_PROTOCOL_FRAME_TOO_LARGE, Some d, Some 0)
         else if fr_payload_length f \<noteq> 0 \<and> fr_payload f = None then
           (HERMAS_PROTOCOL_INVALID_PAYLOAD, Some d, Some 0)
         else if validate_semantics f \<noteq> HERMAS_PROTOCOL_OK then
           (validate_semantics f, Some d, Some 0)
         else if length d < total then (HERMAS_PROTOCOL_BUFFER_TOO_SMALL, Some d, Some 0)
         else
           (let h = write_header f d;
                d' = (if fr_payload_length f \<noteq> 0
                      then write_bytes h HERMAS_PROTOCOL_HEADER_SIZE
                             (take (unat (fr_payload_length f)) (the (fr_payload f)))
                      else h)
            in (HERMAS_PROTOCOL_OK, Some d', Some total)))
    | _ \<Rightarrow> (HERMAS_PROTOCOL_BUFFER_TOO_SMALL, destination, encoded_size))"

definition hermas_protocol_decode ::
  "bytes option \<Rightarrow> hermas_frame option \<Rightarrow> hermas_protocol_result \<times> hermas_frame option" where
  "hermas_protocol_decode packet frame =
    (case (packet, frame) of
      (Some p, Some _) \<Rightarrow>
        (if length p < HERMAS_PROTOCOL_HEADER_SIZE then (HERMAS_PROTOCOL_TRUNCATED, frame)
         else if length p > HERMAS_PROTOCOL_MAX_PACKET_SIZE then
           (HERMAS_PROTOCOL_FRAME_TOO_LARGE, frame)
         else if chunk p 0 4 \<noteq> protocol_magic then (HERMAS_PROTOCOL_BAD_MAGIC, frame)
         else if read_u16 p 4 \<noteq> HERMAS_PROTOCOL_VERSION then
           (HERMAS_PROTOCOL_UNSUPPORTED_VERSION, frame)
         else if \<not> known_kind (read_u16 p 6) then (HERMAS_PROTOCOL_INVALID_KIND, frame)
         else if read_u32 p 8 \<noteq> 0 then (HERMAS_PROTOCOL_INVALID_FLAGS, frame)
         else if read_u32 p 12 \<noteq> of_nat HERMAS_PROTOCOL_HEADER_SIZE \<or> read_u16 p 42 \<noteq> 0 then
           (HERMAS_PROTOCOL_NONZERO_RESERVED, frame)
         else if unat (read_u32 p 44) \<noteq> length p - HERMAS_PROTOCOL_HEADER_SIZE then
           (HERMAS_PROTOCOL_LENGTH_MISMATCH, frame)
         else if \<not> valid_outcome (read_u16 p 40) then (HERMAS_PROTOCOL_INVALID_OUTCOME, frame)
         else
           (let decoded = \<lparr>fr_kind = read_u16 p 6,
                  fr_execution_id = read_u64 p 16,
                  fr_request_id = read_u64 p 24,
                  fr_app_id = read_u16 p 32,
                  fr_action_id = read_u16 p 34,
                  fr_source_type = read_u16 p 36,
                  fr_destination_type = read_u16 p 38,
                  fr_outcome = read_u16 p 40,
                  fr_payload = Some (drop HERMAS_PROTOCOL_HEADER_SIZE p),
                  fr_payload_length = read_u32 p 44\<rparr>
            in if validate_semantics decoded \<noteq> HERMAS_PROTOCOL_OK
               then (validate_semantics decoded, frame)
               else (HERMAS_PROTOCOL_OK, Some decoded)))
    | _ \<Rightarrow> (HERMAS_PROTOCOL_TRUNCATED, frame))"

section \<open>The header layout\<close>

definition protocol_layout :: "nat list" where
  "protocol_layout = [4, 2, 2, 4, 4, 8, 8, 2, 2, 2, 2, 2, 2, 4]"

lemma length_write_header [simp]: "48 \<le> length d \<Longrightarrow> length (write_header f d) = length d"
  by (simp add: write_header_def protocol_magic_def)

lemma drop_write_header: "48 \<le> n \<Longrightarrow> 48 \<le> length d \<Longrightarrow> drop n (write_header f d) = drop n d"
  by (simp add: write_header_def protocol_magic_def buffer_simps)

lemma write_header_fields:
  assumes "48 \<le> length d"
  shows "chunk (write_header f d) 0 4 = protocol_magic"
    "chunk (write_header f d) 4 2 = le_bytes 2 HERMAS_PROTOCOL_VERSION"
    "chunk (write_header f d) 6 2 = le_bytes 2 (fr_kind f)"
    "chunk (write_header f d) 8 4 = le_bytes 4 (0 :: u32)"
    "chunk (write_header f d) 12 4 = le_bytes 4 (48 :: u32)"
    "chunk (write_header f d) 16 8 = le_bytes 8 (fr_execution_id f)"
    "chunk (write_header f d) 24 8 = le_bytes 8 (fr_request_id f)"
    "chunk (write_header f d) 32 2 = le_bytes 2 (fr_app_id f)"
    "chunk (write_header f d) 34 2 = le_bytes 2 (fr_action_id f)"
    "chunk (write_header f d) 36 2 = le_bytes 2 (fr_source_type f)"
    "chunk (write_header f d) 38 2 = le_bytes 2 (fr_destination_type f)"
    "chunk (write_header f d) 40 2 = le_bytes 2 (fr_outcome f)"
    "chunk (write_header f d) 42 2 = le_bytes 2 (0 :: u16)"
    "chunk (write_header f d) 44 4 = le_bytes 4 (fr_payload_length f)"
  using assms
  by (simp_all add: write_header_def protocol_magic_def buffer_simps)

section \<open>Round trips\<close>

text \<open>The bytes a frame's payload pointer stands for, and when the pointer is good for reading.\<close>

definition frame_payload :: "hermas_frame \<Rightarrow> bytes" where
  "frame_payload f = (case fr_payload f of None \<Rightarrow> [] | Some p \<Rightarrow> take (unat (fr_payload_length f)) p)"

definition payload_readable :: "hermas_frame \<Rightarrow> bool" where
  "payload_readable f \<longleftrightarrow> (case fr_payload f of None \<Rightarrow> True | Some p \<Rightarrow> unat (fr_payload_length f) \<le> length p)"

lemma validate_semantics_payload [simp]:
  "validate_semantics (f\<lparr>fr_payload := x\<rparr>) = validate_semantics f"
  by (simp add: validate_semantics_def cong: if_cong)

lemma encode_OK_packet:
  assumes enc: "hermas_protocol_encode (Some f) (Some d) (Some n) = (HERMAS_PROTOCOL_OK, Some d', Some sz)"
    and readable: "payload_readable f"
  shows "take 48 d' = take 48 (write_header f d)"
    and "drop 48 (take sz d') = frame_payload f"
    and "drop sz d' = drop sz d"
    and "length d' = length d" and "sz \<le> length d"
    and "sz = 48 + unat (fr_payload_length f)"
    and "unat (fr_payload_length f) \<le> HERMAS_PROTOCOL_MAX_PAYLOAD_SIZE"
    and "known_kind (fr_kind f)" and "valid_outcome (fr_outcome f)"
    and "validate_semantics f = HERMAS_PROTOCOL_OK"
proof -
  from enc have sz: "sz = 48 + unat (fr_payload_length f)"
    and small: "unat (fr_payload_length f) \<le> HERMAS_PROTOCOL_MAX_PAYLOAD_SIZE"
    and fits: "sz \<le> length d"
    and kind: "known_kind (fr_kind f)" and outcome: "valid_outcome (fr_outcome f)"
    and sem: "validate_semantics f = HERMAS_PROTOCOL_OK"
    and ptr: "fr_payload_length f \<noteq> 0 \<Longrightarrow> fr_payload f \<noteq> None"
    and d': "d' = (if fr_payload_length f \<noteq> 0
       then write_bytes (write_header f d) 48 (take (unat (fr_payload_length f)) (the (fr_payload f)))
       else write_header f d)"
    by (auto simp: hermas_protocol_encode_def Let_def split: if_splits)
  have len: "48 + length (frame_payload f) = sz"
    using ptr readable sz
    by (cases "fr_payload f"; cases "fr_payload_length f = 0")
       (auto simp: frame_payload_def payload_readable_def)
  have d'_write: "d' = write_bytes (write_header f d) 48 (frame_payload f)"
  proof (cases "fr_payload_length f = 0")
    case True
    then show ?thesis
      using d' fits sz by (simp add: frame_payload_def split: option.splits)
  next
    case False
    with ptr obtain q where "fr_payload f = Some q" by blast
    with False show ?thesis using d' by (simp add: frame_payload_def)
  qed
  show "take 48 d' = take 48 (write_header f d)"
    using d'_write len fits by (simp add: buffer_simps)
  show "drop 48 (take sz d') = frame_payload f"
    using d'_write len fits by (simp add: write_bytes_def drop_take)
  show "drop sz d' = drop sz d"
    using d'_write len fits by (simp add: buffer_simps drop_write_header)
  show "length d' = length d"
    using d'_write len fits by simp
qed (use enc in \<open>auto simp: hermas_protocol_encode_def Let_def split: if_splits\<close>)

lemma encode_packet_fields:
  assumes enc: "hermas_protocol_encode (Some f) (Some d) (Some n) = (HERMAS_PROTOCOL_OK, Some d', Some sz)"
    and readable: "payload_readable f" and bound: "off + m \<le> 48"
  shows "chunk (take sz d') off m = chunk (write_header f d) off m"
proof -
  have "take 48 (take sz d') = take 48 (write_header f d)"
    using encode_OK_packet(1) [OF enc readable] encode_OK_packet(6) [OF enc readable] by simp
  then show ?thesis using bound by (rule chunk_eq_of_take_eq)
qed

text \<open>C25: Whatever the encoder accepts, the decoder returns: the packet that
  \<open>hermas_protocol_encode\<close> writes for a frame decodes to exactly that frame, its payload
  pointer moved into the packet, and no byte of the destination beyond the packet is touched.\<close>

theorem protocol_encode_decode:
  assumes enc: "hermas_protocol_encode (Some f) (Some d) (Some n) = (HERMAS_PROTOCOL_OK, Some d', Some sz)"
    and readable: "payload_readable f"
  shows "hermas_protocol_decode (Some (take sz d')) (Some old) =
      (HERMAS_PROTOCOL_OK, Some (f\<lparr>fr_payload := Some (frame_payload f)\<rparr>)) \<and>
    drop sz d' = drop sz d"
proof -
  note ok = encode_OK_packet [OF enc readable]
  obtain p where p: "p = take sz d'" by simp
  have d48: "48 \<le> length d" and lp: "length p = 48 + unat (fr_payload_length f)"
    and pl: "drop 48 p = frame_payload f"
    using ok p by simp_all
  note field = encode_packet_fields [OF enc readable, folded p] write_header_fields [OF d48]
  have reads: "read_u16 p 4 = 1" "read_u16 p 6 = fr_kind f" "read_u32 p 8 = 0"
    "read_u32 p 12 = 48" "read_u16 p 42 = 0" "read_u32 p 44 = fr_payload_length f"
    "read_u64 p 16 = fr_execution_id f" "read_u64 p 24 = fr_request_id f"
    "read_u16 p 32 = fr_app_id f" "read_u16 p 34 = fr_action_id f"
    "read_u16 p 36 = fr_source_type f" "read_u16 p 38 = fr_destination_type f"
    "read_u16 p 40 = fr_outcome f" "chunk p 0 4 = protocol_magic"
    using lp by (simp_all add: read_from_chunk field)
  let ?f = "f\<lparr>fr_payload := Some (frame_payload f)\<rparr>"
  have "validate_semantics ?f = HERMAS_PROTOCOL_OK"
    using ok(10) by simp
  then have "hermas_protocol_decode (Some p) (Some old) = (HERMAS_PROTOCOL_OK, Some ?f)"
    using ok(7-9) lp by (cases f) (simp add: hermas_protocol_decode_def reads pl Let_def)
  then show ?thesis using ok(3) p by simp
qed

definition sample_frame :: hermas_frame where
  "sample_frame = \<lparr>fr_kind = HERMAS_FRAME_INVOKE, fr_execution_id = 9, fr_request_id = 1, fr_app_id = 3,
     fr_action_id = 4, fr_source_type = 5, fr_destination_type = 6, fr_outcome = HERMAS_OUTCOME_NONE,
     fr_payload = Some [7], fr_payload_length = 1\<rparr>"

lemma sample_frame_encodes:
  "\<exists>d'. hermas_protocol_encode (Some sample_frame) (Some (replicate 64 0)) (Some 0) =
     (HERMAS_PROTOCOL_OK, Some d', Some 49)"
  by (simp add: hermas_protocol_encode_def sample_frame_def known_kind_def valid_outcome_def
      validate_semantics_def Let_def)

theorem protocol_encode_decode_witness:
  "\<exists>d'. hermas_protocol_encode (Some sample_frame) (Some (replicate 64 0)) (Some 0) =
      (HERMAS_PROTOCOL_OK, Some d', Some 49) \<and>
    hermas_protocol_decode (Some (take 49 d')) (Some sample_frame) =
      (HERMAS_PROTOCOL_OK, Some (sample_frame\<lparr>fr_payload := Some [7]\<rparr>))"
proof -
  obtain d' where enc: "hermas_protocol_encode (Some sample_frame) (Some (replicate 64 0)) (Some 0) =
      (HERMAS_PROTOCOL_OK, Some d', Some 49)"
    using sample_frame_encodes by blast
  have "payload_readable sample_frame" "frame_payload sample_frame = [7]"
    by (simp_all add: payload_readable_def frame_payload_def sample_frame_def)
  then show ?thesis using protocol_encode_decode [OF enc] enc by auto
qed

text \<open>C26: The encoding is canonical: a packet that \<open>hermas_protocol_decode\<close> accepts is
  reproduced byte for byte by encoding the decoded frame, so no two different packets
  decode to the same frame.\<close>

theorem protocol_decode_encode:
  assumes dec: "hermas_protocol_decode (Some p) (Some old) = (HERMAS_PROTOCOL_OK, Some f)"
    and room: "length p \<le> length d"
  shows "hermas_protocol_encode (Some f) (Some d) (Some n) =
    (HERMAS_PROTOCOL_OK, Some (p @ drop (length p) d), Some (length p))"
proof -
  let ?h = "write_header f d"
  from dec have len: "48 \<le> length p" "length p \<le> 65536" "unat (read_u32 p 44) = length p - 48"
    and f: "f = \<lparr>fr_kind = read_u16 p 6, fr_execution_id = read_u64 p 16, fr_request_id = read_u64 p 24,
        fr_app_id = read_u16 p 32, fr_action_id = read_u16 p 34, fr_source_type = read_u16 p 36,
        fr_destination_type = read_u16 p 38, fr_outcome = read_u16 p 40,
        fr_payload = Some (drop 48 p), fr_payload_length = read_u32 p 44\<rparr>"
    and ok: "known_kind (fr_kind f)" "valid_outcome (fr_outcome f)" "validate_semantics f = HERMAS_PROTOCOL_OK"
    and fixed: "chunk p 0 4 = protocol_magic" "read_u16 p 4 = 1" "read_u32 p 8 = 0" "read_u32 p 12 = 48"
      "read_u16 p 42 = 0"
    by (auto simp: hermas_protocol_decode_def Let_def split: if_splits)
  have fixed': "chunk p 4 2 = le_bytes 2 (1 :: u16)" "chunk p 8 4 = le_bytes 4 (0 :: u32)"
    "chunk p 12 4 = le_bytes 4 (48 :: u32)" "chunk p 42 2 = le_bytes 2 (0 :: u16)"
    using fixed len by (simp_all flip: le_bytes_read)
  have "take 48 ?h = take 48 p"
    using len room
    by (simp add: take_as_fields [where ns = protocol_layout] protocol_layout_def write_header_fields
        le_bytes_read fixed fixed' f)
  then have packet: "write_bytes ?h 48 (drop 48 p) = p @ drop (length p) d"
    using len room by (simp add: write_bytes_def drop_write_header flip: append_assoc)
  have pl: "fr_payload f = Some (drop 48 p)" and ln: "fr_payload_length f = read_u32 p 44"
    by (simp_all add: f)
  have "write_bytes ?h 48 (drop 48 p) = ?h" if "read_u32 p 44 = 0"
    using that len room by simp
  moreover have "\<not> 65488 < length p - 48" using len by simp
  ultimately show ?thesis using packet ok len room pl ln
    by (simp add: hermas_protocol_encode_def Let_def)
qed

definition sample_packet :: bytes where
  "sample_packet = [0x48, 0x52, 0x50, 0x31, 1, 0, 6, 0, 0, 0, 0, 0, 48, 0, 0, 0,
     9, 0, 0, 0, 0, 0, 0, 0, 0, 0, 0, 0, 0, 0, 0, 0,
     0, 0, 0, 0, 5, 0, 0, 0, 0, 0, 0, 0, 0, 0, 0, 0]"

theorem protocol_decode_encode_witness:
  "\<exists>f. hermas_protocol_decode (Some sample_packet) (Some sample_frame) = (HERMAS_PROTOCOL_OK, Some f) \<and>
    hermas_protocol_encode (Some f) (Some (replicate 48 0)) (Some 0) =
      (HERMAS_PROTOCOL_OK, Some sample_packet, Some 48)"
proof -
  have "\<exists>f. hermas_protocol_decode (Some sample_packet) (Some sample_frame) = (HERMAS_PROTOCOL_OK, Some f)"
    by (simp add: hermas_protocol_decode_def sample_packet_def read_u16_def read_u32_def read_u64_def
        upt_8 chunk_def protocol_magic_def known_kind_def valid_outcome_def validate_semantics_def Let_def)
  then obtain f where f: "hermas_protocol_decode (Some sample_packet) (Some sample_frame) =
      (HERMAS_PROTOCOL_OK, Some f)" by blast
  have "length sample_packet = 48" by (simp add: sample_packet_def)
  then show ?thesis using protocol_decode_encode [OF f, of "replicate 48 0" 0] f by auto
qed

end
