(* ===== verification/Hermas_Journal.thy ===== *)
theory Hermas_Journal
  imports Hermas_Protocol
begin

text \<open>
  The execution journal (\<open>src/journal.c\<close>): its 64-byte records and their codec, the scan
  that validates a whole journal at startup (a table of at most sixteen unfinished
  executions, each with at most eight open deliveries), and the sequenced writer.
\<close>

definition HERMAS_JOURNAL_VERSION :: u16 where [simp]: "HERMAS_JOURNAL_VERSION = 2"
definition HERMAS_JOURNAL_RECORD_SIZE :: nat where [simp]: "HERMAS_JOURNAL_RECORD_SIZE = 64"
definition HERMAS_JOURNAL_MAX_INTERRUPTED :: nat where [simp]: "HERMAS_JOURNAL_MAX_INTERRUPTED = 16"
definition HERMAS_JOURNAL_MAX_OPEN_DELIVERIES :: nat where
  [simp]: "HERMAS_JOURNAL_MAX_OPEN_DELIVERIES = 8"

datatype hermas_journal_result =
    HERMAS_JOURNAL_OK
  | HERMAS_JOURNAL_INVALID_ARGUMENT
  | HERMAS_JOURNAL_BUFFER_TOO_SMALL
  | HERMAS_JOURNAL_INVALID_MAGIC
  | HERMAS_JOURNAL_INVALID_VERSION
  | HERMAS_JOURNAL_INVALID_SIZE
  | HERMAS_JOURNAL_INVALID_KIND
  | HERMAS_JOURNAL_INVALID_OUTCOME
  | HERMAS_JOURNAL_INVALID_FIELD
  | HERMAS_JOURNAL_NONZERO_RESERVED
  | HERMAS_JOURNAL_CHECKSUM_MISMATCH
  | HERMAS_JOURNAL_INVALID_SEQUENCE
  | HERMAS_JOURNAL_INVALID_TRANSITION
  | HERMAS_JOURNAL_CAPACITY_EXHAUSTED
  | HERMAS_JOURNAL_WRITE_ERROR

text \<open>
  The record kinds. \<open>HERMAS_JOURNAL_KIND_OTHER\<close> stands for every value outside the C
  enumeration, which the cast of a decoded \<open>uint16_t\<close> can produce.
\<close>

datatype hermas_journal_kind =
    HERMAS_JOURNAL_EXECUTION_STARTED
  | HERMAS_JOURNAL_DELIVERY_PREPARED
  | HERMAS_JOURNAL_DELIVERY_SENT
  | HERMAS_JOURNAL_ACTION_SUCCEEDED
  | HERMAS_JOURNAL_ACTION_FAILED
  | HERMAS_JOURNAL_ACTION_UNKNOWN
  | HERMAS_JOURNAL_EXECUTION_FINISHED
  | HERMAS_JOURNAL_KIND_OTHER

definition journal_kind_of_u16 :: "u16 \<Rightarrow> hermas_journal_kind" where
  "journal_kind_of_u16 v =
    (if v = 1 then HERMAS_JOURNAL_EXECUTION_STARTED
     else if v = 2 then HERMAS_JOURNAL_DELIVERY_PREPARED
     else if v = 3 then HERMAS_JOURNAL_DELIVERY_SENT
     else if v = 4 then HERMAS_JOURNAL_ACTION_SUCCEEDED
     else if v = 5 then HERMAS_JOURNAL_ACTION_FAILED
     else if v = 6 then HERMAS_JOURNAL_ACTION_UNKNOWN
     else if v = 7 then HERMAS_JOURNAL_EXECUTION_FINISHED
     else HERMAS_JOURNAL_KIND_OTHER)"

fun u16_of_journal_kind :: "hermas_journal_kind \<Rightarrow> u16" where
  "u16_of_journal_kind HERMAS_JOURNAL_EXECUTION_STARTED = 1"
| "u16_of_journal_kind HERMAS_JOURNAL_DELIVERY_PREPARED = 2"
| "u16_of_journal_kind HERMAS_JOURNAL_DELIVERY_SENT = 3"
| "u16_of_journal_kind HERMAS_JOURNAL_ACTION_SUCCEEDED = 4"
| "u16_of_journal_kind HERMAS_JOURNAL_ACTION_FAILED = 5"
| "u16_of_journal_kind HERMAS_JOURNAL_ACTION_UNKNOWN = 6"
| "u16_of_journal_kind HERMAS_JOURNAL_EXECUTION_FINISHED = 7"
| "u16_of_journal_kind HERMAS_JOURNAL_KIND_OTHER = 0"

lemma journal_kind_of_u16_inverse [simp]: "journal_kind_of_u16 (u16_of_journal_kind k) = k"
  by (cases k) (simp_all add: journal_kind_of_u16_def)

lemma u16_of_journal_kind_inverse:
  "journal_kind_of_u16 v \<noteq> HERMAS_JOURNAL_KIND_OTHER \<Longrightarrow> u16_of_journal_kind (journal_kind_of_u16 v) = v"
  by (simp add: journal_kind_of_u16_def split: if_splits)

record hermas_journal_record =
  jr_kind :: hermas_journal_kind
  jr_outcome :: u16
  jr_sequence :: u64
  jr_execution_id :: u64
  jr_workflow_id :: u32
  jr_request_id :: u64
  jr_node_id :: u16
  jr_app_id :: u16
  jr_action_id :: u16
  jr_image_fingerprint :: u64

section \<open>The record codec\<close>

definition is_action_record :: "hermas_journal_kind \<Rightarrow> bool" where
  "is_action_record kind \<longleftrightarrow> kind \<in> {HERMAS_JOURNAL_DELIVERY_PREPARED, HERMAS_JOURNAL_DELIVERY_SENT,
     HERMAS_JOURNAL_ACTION_SUCCEEDED, HERMAS_JOURNAL_ACTION_FAILED, HERMAS_JOURNAL_ACTION_UNKNOWN}"

fun journal_outcome_valid :: "hermas_journal_kind \<Rightarrow> u16 \<Rightarrow> bool" where
  "journal_outcome_valid HERMAS_JOURNAL_EXECUTION_STARTED out \<longleftrightarrow> out = HERMAS_OUTCOME_NONE"
| "journal_outcome_valid HERMAS_JOURNAL_DELIVERY_PREPARED out \<longleftrightarrow> out = HERMAS_OUTCOME_NONE"
| "journal_outcome_valid HERMAS_JOURNAL_DELIVERY_SENT out \<longleftrightarrow> out = HERMAS_OUTCOME_NONE"
| "journal_outcome_valid HERMAS_JOURNAL_ACTION_SUCCEEDED out \<longleftrightarrow> out = HERMAS_OUTCOME_SUCCESS"
| "journal_outcome_valid HERMAS_JOURNAL_ACTION_FAILED out \<longleftrightarrow>
     out = HERMAS_OUTCOME_APP_ERROR \<or> out = HERMAS_OUTCOME_NOT_SENT"
| "journal_outcome_valid HERMAS_JOURNAL_ACTION_UNKNOWN out \<longleftrightarrow> out = HERMAS_OUTCOME_UNKNOWN"
| "journal_outcome_valid HERMAS_JOURNAL_EXECUTION_FINISHED out \<longleftrightarrow>
     out = HERMAS_OUTCOME_SUCCESS \<or> out = HERMAS_OUTCOME_APP_ERROR \<or>
     out = HERMAS_OUTCOME_NOT_SENT \<or> out = HERMAS_OUTCOME_UNKNOWN"
| "journal_outcome_valid HERMAS_JOURNAL_KIND_OTHER out \<longleftrightarrow> False"

definition validate_record :: "hermas_journal_record \<Rightarrow> hermas_journal_result" where
  "validate_record r =
    (let action = is_action_record (jr_kind r) in
     if jr_kind r = HERMAS_JOURNAL_KIND_OTHER then HERMAS_JOURNAL_INVALID_KIND
     else if \<not> journal_outcome_valid (jr_kind r) (jr_outcome r) then HERMAS_JOURNAL_INVALID_OUTCOME
     else if jr_sequence r = 0 \<or> jr_execution_id r = 0 \<or> jr_workflow_id r = 0 \<or>
        jr_image_fingerprint r = 0 then HERMAS_JOURNAL_INVALID_FIELD
     else if action \<and> (jr_request_id r = 0 \<or> jr_node_id r = 0 \<or> jr_app_id r = 0 \<or>
        jr_action_id r = 0) then HERMAS_JOURNAL_INVALID_FIELD
     else if \<not> action \<and> (jr_request_id r \<noteq> 0 \<or> jr_node_id r \<noteq> 0 \<or> jr_app_id r \<noteq> 0 \<or>
        jr_action_id r \<noteq> 0) then HERMAS_JOURNAL_INVALID_FIELD
     else HERMAS_JOURNAL_OK)"

text \<open>\<open>HJR1\<close>\<close>

definition journal_magic :: bytes where
  "journal_magic = [0x48, 0x4a, 0x52, 0x31]"

definition write_journal_fields :: "hermas_journal_record \<Rightarrow> bytes \<Rightarrow> bytes" where
  "write_journal_fields r destination =
    (let d = memset_zero destination HERMAS_JOURNAL_RECORD_SIZE;
         d = write_bytes d 0 journal_magic;
         d = write_u16 d 4 HERMAS_JOURNAL_VERSION;
         d = write_u16 d 6 (of_nat HERMAS_JOURNAL_RECORD_SIZE);
         d = write_u16 d 8 (u16_of_journal_kind (jr_kind r));
         d = write_u16 d 10 (jr_outcome r);
         d = write_u64 d 16 (jr_sequence r);
         d = write_u64 d 24 (jr_execution_id r);
         d = write_u32 d 32 (jr_workflow_id r);
         d = write_u64 d 36 (jr_request_id r);
         d = write_u16 d 44 (jr_node_id r);
         d = write_u16 d 46 (jr_app_id r);
         d = write_u16 d 48 (jr_action_id r)
     in write_u64 d 52 (jr_image_fingerprint r))"

definition journal_encode :: "hermas_journal_record \<Rightarrow> bytes \<Rightarrow> hermas_journal_result \<times> bytes" where
  "journal_encode r destination =
    (if length destination < HERMAS_JOURNAL_RECORD_SIZE then (HERMAS_JOURNAL_BUFFER_TOO_SMALL, destination)
     else if validate_record r \<noteq> HERMAS_JOURNAL_OK then (validate_record r, destination)
     else (let d = write_journal_fields r destination
           in (HERMAS_JOURNAL_OK, write_u32 d 60 (checksum (take 60 d)))))"

definition hermas_journal_encode ::
  "hermas_journal_record option \<Rightarrow> bytes option \<Rightarrow> hermas_journal_result \<times> bytes option" where
  "hermas_journal_encode record destination =
    (case (record, destination) of
       (Some r, Some d) \<Rightarrow> (let (result, d') = journal_encode r d in (result, Some d'))
     | _ \<Rightarrow> (HERMAS_JOURNAL_INVALID_ARGUMENT, destination))"

definition journal_fields_of :: "bytes \<Rightarrow> hermas_journal_record" where
  "journal_fields_of source =
    \<lparr>jr_kind = journal_kind_of_u16 (read_u16 source 8),
     jr_outcome = read_u16 source 10,
     jr_sequence = read_u64 source 16,
     jr_execution_id = read_u64 source 24,
     jr_workflow_id = read_u32 source 32,
     jr_request_id = read_u64 source 36,
     jr_node_id = read_u16 source 44,
     jr_app_id = read_u16 source 46,
     jr_action_id = read_u16 source 48,
     jr_image_fingerprint = read_u64 source 52\<rparr>"

definition journal_decode :: "bytes \<Rightarrow> hermas_journal_result + hermas_journal_record" where
  "journal_decode source =
    (if length source < HERMAS_JOURNAL_RECORD_SIZE then Inl HERMAS_JOURNAL_BUFFER_TOO_SMALL
     else if chunk source 0 4 \<noteq> journal_magic then Inl HERMAS_JOURNAL_INVALID_MAGIC
     else if read_u16 source 4 \<noteq> HERMAS_JOURNAL_VERSION then Inl HERMAS_JOURNAL_INVALID_VERSION
     else if read_u16 source 6 \<noteq> of_nat HERMAS_JOURNAL_RECORD_SIZE then Inl HERMAS_JOURNAL_INVALID_SIZE
     else if read_u32 source 12 \<noteq> 0 \<or> read_u16 source 50 \<noteq> 0 then
       Inl HERMAS_JOURNAL_NONZERO_RESERVED
     else if read_u32 source 60 \<noteq> checksum (take 60 source) then Inl HERMAS_JOURNAL_CHECKSUM_MISMATCH
     else (let decoded = journal_fields_of source
           in if validate_record decoded \<noteq> HERMAS_JOURNAL_OK then Inl (validate_record decoded)
              else Inr decoded))"

definition hermas_journal_decode ::
  "bytes option \<Rightarrow> hermas_journal_record option \<Rightarrow> hermas_journal_result \<times> hermas_journal_record option" where
  "hermas_journal_decode source record =
    (case (source, record) of
       (Some s, Some _) \<Rightarrow>
         (case journal_decode s of
            Inl e \<Rightarrow> (e, record)
          | Inr r \<Rightarrow> (HERMAS_JOURNAL_OK, Some r))
     | _ \<Rightarrow> (HERMAS_JOURNAL_INVALID_ARGUMENT, record))"

lemma length_write_journal_fields [simp]:
  "64 \<le> length d \<Longrightarrow> length (write_journal_fields r d) = length d"
  by (simp add: write_journal_fields_def journal_magic_def)

lemma write_journal_fields_fields:
  assumes "64 \<le> length d"
  shows "chunk (write_journal_fields r d) 0 4 = journal_magic"
    "chunk (write_journal_fields r d) 4 2 = le_bytes 2 (2 :: u16)"
    "chunk (write_journal_fields r d) 6 2 = le_bytes 2 (64 :: u16)"
    "chunk (write_journal_fields r d) 8 2 = le_bytes 2 (u16_of_journal_kind (jr_kind r))"
    "chunk (write_journal_fields r d) 10 2 = le_bytes 2 (jr_outcome r)"
    "chunk (write_journal_fields r d) 12 4 = replicate 4 0"
    "chunk (write_journal_fields r d) 16 8 = le_bytes 8 (jr_sequence r)"
    "chunk (write_journal_fields r d) 24 8 = le_bytes 8 (jr_execution_id r)"
    "chunk (write_journal_fields r d) 32 4 = le_bytes 4 (jr_workflow_id r)"
    "chunk (write_journal_fields r d) 36 8 = le_bytes 8 (jr_request_id r)"
    "chunk (write_journal_fields r d) 44 2 = le_bytes 2 (jr_node_id r)"
    "chunk (write_journal_fields r d) 46 2 = le_bytes 2 (jr_app_id r)"
    "chunk (write_journal_fields r d) 48 2 = le_bytes 2 (jr_action_id r)"
    "chunk (write_journal_fields r d) 50 2 = replicate 2 0"
    "chunk (write_journal_fields r d) 52 8 = le_bytes 8 (jr_image_fingerprint r)"
    "drop 64 (write_journal_fields r d) = drop 64 d"
  using assms
  by (simp_all add: write_journal_fields_def journal_magic_def buffer_simps)

lemma journal_sealed_reads:
  assumes "64 \<le> length d"
    and p: "p = take 64 (write_u32 (write_journal_fields r d) 60
                          (checksum (take 60 (write_journal_fields r d))))"
  shows "journal_fields_of p = r" "chunk p 0 4 = journal_magic" "read_u16 p 4 = 2" "read_u16 p 6 = 64"
    "read_u32 p 12 = 0" "read_u16 p 50 = 0" "read_u32 p 60 = checksum (take 60 p)" "length p = 64"
proof -
  have w: "64 \<le> length (write_journal_fields r d)" using assms by simp
  note sealed = sealed_record [OF w p]
  note fields = sealed(4) write_journal_fields_fields [OF assms(1)]
  have z: "le_value (replicate 4 0) = (0 :: u32)" "le_value (replicate 2 0) = (0 :: u16)"
    by (simp_all add: numeral_eq_Suc)
  show "journal_fields_of p = r"
    using sealed(1) by (simp add: journal_fields_of_def read_from_chunk fields)
  show "chunk p 0 4 = journal_magic" "read_u16 p 4 = 2" "read_u16 p 6 = 64"
    "read_u32 p 12 = 0" "read_u16 p 50 = 0"
    using sealed(1) by (simp_all add: read_from_chunk fields z)
  show "read_u32 p 60 = checksum (take 60 p)" "length p = 64"
    by (fact sealed)+
qed

lemma journal_encode_OK_iff:
  "journal_encode r d = (HERMAS_JOURNAL_OK, d') \<longleftrightarrow>
     64 \<le> length d \<and> validate_record r = HERMAS_JOURNAL_OK \<and>
     d' = write_u32 (write_journal_fields r d) 60 (checksum (take 60 (write_journal_fields r d)))"
  by (auto simp: journal_encode_def Let_def)

lemma journal_encode_decode:
  assumes "journal_encode r d = (HERMAS_JOURNAL_OK, d')"
  shows "journal_decode (take 64 d') = Inr r" and "drop 64 d' = drop 64 d" and "length d' = length d"
proof -
  from assms have len: "64 \<le> length d" and ok: "validate_record r = HERMAS_JOURNAL_OK"
    and d': "d' = write_u32 (write_journal_fields r d) 60 (checksum (take 60 (write_journal_fields r d)))"
    by (auto simp: journal_encode_OK_iff)
  obtain p where p: "p = take 64 d'" by simp
  note reads = journal_sealed_reads [OF len, of p r, OF p [unfolded d']]
  show "journal_decode (take 64 d') = Inr r"
    using reads ok by (simp add: journal_decode_def flip: p)
  show "drop 64 d' = drop 64 d"
    using len by (simp add: d' buffer_simps write_journal_fields_fields)
  show "length d' = length d" using len by (simp add: d')
qed

lemma journal_decode_OK_reads:
  assumes "journal_decode s = Inr r"
  shows "64 \<le> length s" "chunk s 0 4 = journal_magic" "read_u16 s 4 = 2" "read_u16 s 6 = 64"
    "read_u32 s 12 = 0" "read_u16 s 50 = 0" "read_u32 s 60 = checksum (take 60 s)"
    "r = journal_fields_of s" "validate_record r = HERMAS_JOURNAL_OK"
  using assms by (auto simp: journal_decode_def Let_def split: if_splits)

definition journal_layout :: "nat list" where
  "journal_layout = [4, 2, 2, 2, 2, 4, 8, 8, 4, 8, 2, 2, 2, 2, 8]"

lemma journal_decode_encode:
  assumes dec: "journal_decode s = Inr r" and len: "length s = 64" and room: "64 \<le> length d"
  shows "journal_encode r d = (HERMAS_JOURNAL_OK, s @ drop 64 d)"
proof -
  note reads = journal_decode_OK_reads [OF dec]
  let ?w = "write_journal_fields r d"
  have kind: "u16_of_journal_kind (journal_kind_of_u16 (read_u16 s 8)) = read_u16 s 8"
    using reads(8,9) by (auto simp: journal_fields_of_def validate_record_def Let_def
        u16_of_journal_kind_inverse split: if_splits)
  have fixed: "chunk s 4 2 = le_bytes 2 (2 :: u16)" "chunk s 6 2 = le_bytes 2 (64 :: u16)"
    "chunk s 12 4 = le_bytes 4 (0 :: u32)" "chunk s 50 2 = le_bytes 2 (0 :: u16)"
    using reads len by (simp_all flip: le_bytes_read)
  have zero: "le_bytes 4 (0 :: u32) = replicate 4 0" "le_bytes 2 (0 :: u16) = replicate 2 0"
    by (simp_all add: le_bytes_def map_replicate_const)
  have "take 60 ?w = take 60 s"
    using len room
    by (simp add: take_as_fields [where ns = journal_layout] journal_layout_def fixed zero kind
        write_journal_fields_fields le_bytes_read reads(2) reads(8) [unfolded journal_fields_of_def])
  then have "write_u32 ?w 60 (checksum (take 60 ?w)) = s @ drop 64 d"
    using len room reads(7) by (intro reseal_record) (simp_all add: write_journal_fields_fields)
  then show ?thesis using room reads(9) by (simp add: journal_encode_def)
qed

text \<open>C29: A journal record that \<open>hermas_journal_encode\<close> accepts is what
  \<open>hermas_journal_decode\<close> reads back, and no byte of the destination past the 64-byte record
  changes.\<close>

theorem journal_round_trip:
  assumes "hermas_journal_encode (Some r) (Some d) = (HERMAS_JOURNAL_OK, Some d')"
  shows "hermas_journal_decode (Some (take 64 d')) (Some old) = (HERMAS_JOURNAL_OK, Some r) \<and>
    drop 64 d' = drop 64 d"
proof -
  have enc: "journal_encode r d = (HERMAS_JOURNAL_OK, d')"
    using assms by (auto simp: hermas_journal_encode_def split: prod.splits)
  show ?thesis
    using journal_encode_decode [OF enc] by (simp add: hermas_journal_decode_def)
qed

text \<open>C30: The journal encoding is canonical: re-encoding the record decoded from a 64-byte record
  gives the same 64 bytes, so a durable record has no second spelling.\<close>

theorem journal_canonical:
  assumes "hermas_journal_decode (Some s) (Some old) = (HERMAS_JOURNAL_OK, Some r)"
    and "length s = 64" and "64 \<le> length d"
  shows "hermas_journal_encode (Some r) (Some d) = (HERMAS_JOURNAL_OK, Some (s @ drop 64 d))"
proof -
  have "journal_decode s \<noteq> Inl HERMAS_JOURNAL_OK" by (auto simp: journal_decode_def Let_def)
  then have "journal_decode s = Inr r"
    using assms(1) by (auto simp: hermas_journal_decode_def split: sum.splits)
  then show ?thesis
    using journal_decode_encode [OF _ assms(2,3)] by (simp add: hermas_journal_encode_def)
qed

definition sample_journal_record :: hermas_journal_record where
  "sample_journal_record = \<lparr>jr_kind = HERMAS_JOURNAL_ACTION_FAILED, jr_outcome = HERMAS_OUTCOME_APP_ERROR,
     jr_sequence = 5, jr_execution_id = 41, jr_workflow_id = 7, jr_request_id = 1, jr_node_id = 2,
     jr_app_id = 3, jr_action_id = 4, jr_image_fingerprint = 99\<rparr>"

lemma sample_journal_record_valid: "validate_record sample_journal_record = HERMAS_JOURNAL_OK"
  by (simp add: sample_journal_record_def validate_record_def is_action_record_def)

theorem journal_round_trip_witness:
  "\<exists>d'. hermas_journal_encode (Some sample_journal_record) (Some (replicate 80 1)) = (HERMAS_JOURNAL_OK, Some d') \<and>
    hermas_journal_decode (Some (take 64 d')) (Some sample_journal_record) =
      (HERMAS_JOURNAL_OK, Some sample_journal_record)"
proof -
  obtain d' where "hermas_journal_encode (Some sample_journal_record) (Some (replicate 80 1)) =
      (HERMAS_JOURNAL_OK, Some d')"
    using sample_journal_record_valid by (simp add: hermas_journal_encode_def journal_encode_def Let_def)
  then show ?thesis using journal_round_trip by blast
qed

theorem journal_canonical_witness:
  "\<exists>s. length s = 64 \<and>
    hermas_journal_decode (Some s) (Some sample_journal_record) = (HERMAS_JOURNAL_OK, Some sample_journal_record) \<and>
    hermas_journal_encode (Some sample_journal_record) (Some (replicate 64 0)) = (HERMAS_JOURNAL_OK, Some s)"
proof -
  obtain s where enc: "journal_encode sample_journal_record (replicate 64 0) = (HERMAS_JOURNAL_OK, s)"
    using sample_journal_record_valid by (simp add: journal_encode_def Let_def)
  have len: "length s = 64" using journal_encode_decode(3) [OF enc] by simp
  have "hermas_journal_decode (Some s) (Some sample_journal_record) =
      (HERMAS_JOURNAL_OK, Some sample_journal_record)"
    using journal_encode_decode(1) [OF enc] len by (simp add: hermas_journal_decode_def)
  then show ?thesis using journal_canonical [OF _ len, of _ _ "replicate 64 0"] len by auto
qed

end
