(* ===== verification/Hermas_Journal_Scan.thy ===== *)
theory Hermas_Journal_Scan
  imports Hermas_Journal
begin

text \<open>
  The startup scan of the execution journal (\<open>scan_transition\<close> and \<open>hermas_journal_scan\<close> of
  \<open>src/journal.c\<close>) over its fixed tables, an abstract delivery machine it refines, and what an
  accepted journal says about the deliveries of each execution.
\<close>

section \<open>The scan tables\<close>

datatype scan_delivery_state = SCAN_DELIVERY_NONE | SCAN_DELIVERY_PREPARED | SCAN_DELIVERY_SENT

record hermas_journal_open_delivery =
  od_delivery_was_sent :: u8
  od_request_id :: u64
  od_node_id :: u16
  od_app_id :: u16
  od_action_id :: u16

record hermas_journal_interrupted =
  ji_execution_id :: u64
  ji_workflow_id :: u32
  ji_image_fingerprint :: u64
  ji_open_delivery_count :: nat
  ji_open_deliveries :: "hermas_journal_open_delivery list"

record scan_execution =
  se_value :: hermas_journal_interrupted
  se_deliveries :: "scan_delivery_state list"
  se_largest_request_id :: u64
  se_terminal_outcome :: u16
  se_has_action_outcome :: bool
  se_active :: bool

text \<open>The zeroed table entry that \<open>memset\<close> leaves.\<close>

definition zero_open_delivery :: hermas_journal_open_delivery where
  "zero_open_delivery = \<lparr>od_delivery_was_sent = 0, od_request_id = 0, od_node_id = 0,
     od_app_id = 0, od_action_id = 0\<rparr>"

definition zero_interrupted :: hermas_journal_interrupted where
  "zero_interrupted = \<lparr>ji_execution_id = 0, ji_workflow_id = 0, ji_image_fingerprint = 0,
     ji_open_delivery_count = 0, ji_open_deliveries = replicate 8 zero_open_delivery\<rparr>"

definition zero_scan_execution :: scan_execution where
  "zero_scan_execution = \<lparr>se_value = zero_interrupted, se_deliveries = replicate 8 SCAN_DELIVERY_NONE,
     se_largest_request_id = 0, se_terminal_outcome = 0, se_has_action_outcome = False,
     se_active = False\<rparr>"

definition find_scan_execution :: "scan_execution list \<Rightarrow> u64 \<Rightarrow> nat option" where
  "find_scan_execution executions execution_id =
     first_index (\<lambda>index. se_active (executions ! index) \<and>
       ji_execution_id (se_value (executions ! index)) = execution_id) HERMAS_JOURNAL_MAX_INTERRUPTED"

definition route_matches :: "hermas_journal_open_delivery \<Rightarrow> hermas_journal_record \<Rightarrow> bool" where
  "route_matches d r \<longleftrightarrow> od_request_id d = jr_request_id r \<and> od_node_id d = jr_node_id r \<and>
     od_app_id d = jr_app_id r \<and> od_action_id d = jr_action_id r"

text \<open>\<open>None\<close> is the C code's \<open>HERMAS_JOURNAL_MAX_OPEN_DELIVERIES\<close>: not found.\<close>

definition find_delivery :: "scan_execution \<Rightarrow> hermas_journal_record \<Rightarrow> nat option" where
  "find_delivery e r = first_index (\<lambda>index. route_matches (ji_open_deliveries (se_value e) ! index) r)
     (ji_open_delivery_count (se_value e))"

definition outcome_precedence :: "u16 \<Rightarrow> nat" where
  "outcome_precedence out =
    (if out = HERMAS_OUTCOME_UNKNOWN then 4
     else if out = HERMAS_OUTCOME_APP_ERROR then 3
     else if out = HERMAS_OUTCOME_NOT_SENT then 2
     else if out = HERMAS_OUTCOME_SUCCESS then 1 else 0)"

section \<open>Transitions\<close>

definition scan_started ::
  "scan_execution list \<Rightarrow> hermas_journal_record \<Rightarrow> hermas_journal_result + scan_execution list" where
  "scan_started executions r =
    (case first_index (\<lambda>index. \<not> se_active (executions ! index)) HERMAS_JOURNAL_MAX_INTERRUPTED of
       None \<Rightarrow> Inl HERMAS_JOURNAL_CAPACITY_EXHAUSTED
     | Some index \<Rightarrow>
         (let e = executions ! index
          in Inr (executions[index := e\<lparr>se_active := True,
               se_value := (se_value e)\<lparr>ji_execution_id := jr_execution_id r,
                 ji_workflow_id := jr_workflow_id r,
                 ji_image_fingerprint := jr_image_fingerprint r\<rparr>\<rparr>])))"

definition scan_prepared ::
  "scan_execution \<Rightarrow> hermas_journal_record \<Rightarrow> hermas_journal_result + scan_execution" where
  "scan_prepared e r =
    (let v = se_value e; delivery = ji_open_delivery_count v in
     if delivery \<ge> HERMAS_JOURNAL_MAX_OPEN_DELIVERIES \<or>
        jr_request_id r \<le> se_largest_request_id e \<or> find_delivery e r \<noteq> None
     then Inl HERMAS_JOURNAL_INVALID_TRANSITION
     else Inr (e\<lparr>se_deliveries := (se_deliveries e)[delivery := SCAN_DELIVERY_PREPARED],
            se_largest_request_id := jr_request_id r,
            se_value := v\<lparr>ji_open_delivery_count := delivery + 1,
              ji_open_deliveries := (ji_open_deliveries v)[delivery :=
                \<lparr>od_delivery_was_sent = 0, od_request_id = jr_request_id r,
                 od_node_id = jr_node_id r, od_app_id = jr_app_id r,
                 od_action_id = jr_action_id r\<rparr>]\<rparr>\<rparr>))"

definition scan_sent ::
  "scan_execution \<Rightarrow> hermas_journal_record \<Rightarrow> hermas_journal_result + scan_execution" where
  "scan_sent e r =
    (case find_delivery e r of
       None \<Rightarrow> Inl HERMAS_JOURNAL_INVALID_TRANSITION
     | Some delivery \<Rightarrow>
         (let v = se_value e in
          if se_deliveries e ! delivery \<noteq> SCAN_DELIVERY_PREPARED
          then Inl HERMAS_JOURNAL_INVALID_TRANSITION
          else Inr (e\<lparr>se_deliveries := (se_deliveries e)[delivery := SCAN_DELIVERY_SENT],
                 se_value := v\<lparr>ji_open_deliveries := (ji_open_deliveries v)[delivery :=
                   (ji_open_deliveries v ! delivery)\<lparr>od_delivery_was_sent := 1\<rparr>]\<rparr>\<rparr>)))"

definition scan_closed ::
  "scan_execution \<Rightarrow> hermas_journal_record \<Rightarrow> hermas_journal_result + scan_execution" where
  "scan_closed e r =
    (case find_delivery e r of
       None \<Rightarrow> Inl HERMAS_JOURNAL_INVALID_TRANSITION
     | Some delivery \<Rightarrow>
         (let v = se_value e; state = se_deliveries e ! delivery;
              count = ji_open_delivery_count v - 1 in
          if jr_kind r = HERMAS_JOURNAL_ACTION_SUCCEEDED \<and> state \<noteq> SCAN_DELIVERY_SENT \<or>
             jr_kind r = HERMAS_JOURNAL_ACTION_FAILED \<and>
               jr_outcome r = HERMAS_OUTCOME_APP_ERROR \<and> state \<noteq> SCAN_DELIVERY_SENT \<or>
             jr_kind r = HERMAS_JOURNAL_ACTION_FAILED \<and>
               jr_outcome r = HERMAS_OUTCOME_NOT_SENT \<and> state \<noteq> SCAN_DELIVERY_PREPARED
          then Inl HERMAS_JOURNAL_INVALID_TRANSITION
          else Inr (e\<lparr>se_value := v\<lparr>ji_open_delivery_count := count,
                   ji_open_deliveries := shift_down delivery count (ji_open_deliveries v)\<rparr>,
                 se_deliveries := shift_down delivery count (se_deliveries e),
                 se_terminal_outcome :=
                   (if \<not> se_has_action_outcome e \<or>
                       outcome_precedence (jr_outcome r) > outcome_precedence (se_terminal_outcome e)
                    then jr_outcome r else se_terminal_outcome e),
                 se_has_action_outcome := True\<rparr>)))"

definition scan_finished ::
  "scan_execution \<Rightarrow> hermas_journal_record \<Rightarrow> hermas_journal_result + scan_execution" where
  "scan_finished e r =
    (if ji_open_delivery_count (se_value e) \<noteq> 0 \<or>
        se_has_action_outcome e \<and> se_terminal_outcome e \<noteq> jr_outcome r \<or>
        \<not> se_has_action_outcome e \<and> jr_outcome r \<noteq> HERMAS_OUTCOME_UNKNOWN
     then Inl HERMAS_JOURNAL_INVALID_TRANSITION
     else Inr zero_scan_execution)"

fun scan_kind ::
  "hermas_journal_kind \<Rightarrow> scan_execution \<Rightarrow> hermas_journal_record \<Rightarrow>
   hermas_journal_result + scan_execution" where
  "scan_kind HERMAS_JOURNAL_DELIVERY_PREPARED e r = scan_prepared e r"
| "scan_kind HERMAS_JOURNAL_DELIVERY_SENT e r = scan_sent e r"
| "scan_kind HERMAS_JOURNAL_ACTION_SUCCEEDED e r = scan_closed e r"
| "scan_kind HERMAS_JOURNAL_ACTION_FAILED e r = scan_closed e r"
| "scan_kind HERMAS_JOURNAL_ACTION_UNKNOWN e r = scan_closed e r"
| "scan_kind HERMAS_JOURNAL_EXECUTION_FINISHED e r = scan_finished e r"
| "scan_kind _ e r = Inl HERMAS_JOURNAL_INVALID_TRANSITION"

definition scan_transition ::
  "scan_execution list \<Rightarrow> hermas_journal_record \<Rightarrow> hermas_journal_result + scan_execution list" where
  "scan_transition executions r =
    (let found = find_scan_execution executions (jr_execution_id r) in
     if jr_kind r = HERMAS_JOURNAL_EXECUTION_STARTED then
       (if found \<noteq> None then Inl HERMAS_JOURNAL_INVALID_TRANSITION else scan_started executions r)
     else
       (case found of
          None \<Rightarrow> Inl HERMAS_JOURNAL_INVALID_TRANSITION
        | Some index \<Rightarrow>
            (let e = executions ! index in
             if ji_workflow_id (se_value e) \<noteq> jr_workflow_id r \<or>
                ji_image_fingerprint (se_value e) \<noteq> jr_image_fingerprint r
             then Inl HERMAS_JOURNAL_INVALID_TRANSITION
             else map_sum id (\<lambda>e'. executions[index := e']) (scan_kind (jr_kind r) e r))))"

section \<open>The scan\<close>

record hermas_journal_summary =
  js_record_count :: u64
  js_next_sequence :: u64
  js_next_execution_id :: u64
  js_interrupted_count :: nat
  js_interrupted :: "hermas_journal_interrupted list"

text \<open>The local variables of the scan loop, and the context the visitor keeps.\<close>

record 'c scan_loop =
  sl_executions :: "scan_execution list"
  sl_record_count :: u64
  sl_next_sequence :: u64
  sl_next_execution_id :: u64
  sl_largest_started_id :: u64
  sl_context :: 'c

type_synonym 'c journal_visitor =
  "('c \<Rightarrow> hermas_journal_record \<Rightarrow> hermas_journal_result \<times> 'c) option"

definition scan_loop_start :: "'c \<Rightarrow> 'c scan_loop" where
  "scan_loop_start context =
    \<lparr>sl_executions = replicate 16 zero_scan_execution, sl_record_count = 0, sl_next_sequence = 1,
     sl_next_execution_id = 1, sl_largest_started_id = 0, sl_context = context\<rparr>"

text \<open>One iteration; a failed scan returns the error and the visitor's context at that point.\<close>

definition scan_record ::
  "'c journal_visitor \<Rightarrow> 'c scan_loop \<Rightarrow> hermas_journal_record \<Rightarrow>
   (hermas_journal_result \<times> 'c) + 'c scan_loop" where
  "scan_record visitor s r =
    (let started = (jr_kind r = HERMAS_JOURNAL_EXECUTION_STARTED) in
     if jr_sequence r \<noteq> sl_next_sequence s then
       Inl (HERMAS_JOURNAL_INVALID_SEQUENCE, sl_context s)
     else if started \<and> jr_execution_id r \<le> sl_largest_started_id s then
       Inl (HERMAS_JOURNAL_INVALID_TRANSITION, sl_context s)
     else
       (case scan_transition (sl_executions s) r of
          Inl e \<Rightarrow> Inl (e, sl_context s)
        | Inr executions \<Rightarrow>
            (let (visited, context) = (case visitor of None \<Rightarrow> (HERMAS_JOURNAL_OK, sl_context s)
                                                     | Some visit \<Rightarrow> visit (sl_context s) r) in
             if visited \<noteq> HERMAS_JOURNAL_OK then Inl (visited, context)
             else if jr_execution_id r \<ge> sl_next_execution_id s \<and> jr_execution_id r = - 1 then
               Inl (HERMAS_JOURNAL_INVALID_FIELD, context)
             else Inr (s\<lparr>sl_executions := executions,
                    sl_record_count := sl_record_count s + 1,
                    sl_next_sequence := sl_next_sequence s + 1,
                    sl_next_execution_id :=
                      (if jr_execution_id r \<ge> sl_next_execution_id s then jr_execution_id r + 1
                       else sl_next_execution_id s),
                    sl_largest_started_id :=
                      (if started then jr_execution_id r else sl_largest_started_id s),
                    sl_context := context\<rparr>))))"

function scan_from ::
  "'c journal_visitor \<Rightarrow> bytes \<Rightarrow> nat \<Rightarrow> 'c scan_loop \<Rightarrow> (hermas_journal_result \<times> 'c) + 'c scan_loop"
where
  "scan_from visitor bs off s =
    (if off < length bs then
       (case journal_decode (chunk bs off HERMAS_JOURNAL_RECORD_SIZE) of
          Inl e \<Rightarrow> Inl (e, sl_context s)
        | Inr r \<Rightarrow>
            (case scan_record visitor s r of
               Inl e \<Rightarrow> Inl e
             | Inr s' \<Rightarrow> scan_from visitor bs (off + HERMAS_JOURNAL_RECORD_SIZE) s'))
     else Inr s)"
  by pat_completeness auto
termination
  by (relation "measure (\<lambda>(visitor, bs, off, s). length bs - off)") auto

declare scan_from.simps [simp del]

definition scan_summary :: "'c scan_loop \<Rightarrow> hermas_journal_summary" where
  "scan_summary s =
    (let interrupted = map se_value (filter se_active (sl_executions s))
     in \<lparr>js_record_count = sl_record_count s, js_next_sequence = sl_next_sequence s,
         js_next_execution_id = sl_next_execution_id s,
         js_interrupted_count = length interrupted, js_interrupted = interrupted\<rparr>)"

definition journal_scan ::
  "'c journal_visitor \<Rightarrow> 'c \<Rightarrow> bytes \<Rightarrow> (hermas_journal_result \<times> 'c) + (hermas_journal_summary \<times> 'c)" where
  "journal_scan visitor context bs =
    (if length bs mod HERMAS_JOURNAL_RECORD_SIZE \<noteq> 0 then
       Inl (HERMAS_JOURNAL_INVALID_ARGUMENT, context)
     else map_sum id (\<lambda>s. (scan_summary s, sl_context s))
            (scan_from visitor bs 0 (scan_loop_start context)))"

definition hermas_journal_scan ::
  "bytes option \<Rightarrow> nat \<Rightarrow> 'c journal_visitor \<Rightarrow> 'c \<Rightarrow> hermas_journal_summary option \<Rightarrow>
   hermas_journal_result \<times> hermas_journal_summary option \<times> 'c" where
  "hermas_journal_scan bs byte_count visitor context summary =
    (if bs = None \<and> byte_count \<noteq> 0 \<or> summary = None
     then (HERMAS_JOURNAL_INVALID_ARGUMENT, summary, context)
     else (case journal_scan visitor context (take byte_count (case bs of None \<Rightarrow> [] | Some b \<Rightarrow> b)) of
             Inl (e, c) \<Rightarrow> (e, summary, c)
           | Inr (result, c) \<Rightarrow> (HERMAS_JOURNAL_OK, Some result, c)))"

end
