(* ===== verification/Hermas_Journal_Spec.thy ===== *)
theory Hermas_Journal_Spec
  imports Hermas_Journal_Scan
begin

text \<open>
  The abstract delivery machine of the journal: per execution, a finite map from open request
  IDs to their route and whether they were sent. The table scan refines it, and the properties
  of accepted journals are proved on it.
\<close>

section \<open>The abstract machine\<close>

type_synonym route = "u16 \<times> u16 \<times> u16"

record spec_execution =
  sp_workflow_id :: u32
  sp_image_fingerprint :: u64
  sp_open :: "u64 \<rightharpoonup> route \<times> bool"
  sp_largest_request_id :: u64
  sp_outcome :: "u16 option"

type_synonym spec_state = "u64 \<rightharpoonup> spec_execution"

definition record_route :: "hermas_journal_record \<Rightarrow> route" where
  "record_route r = (jr_node_id r, jr_app_id r, jr_action_id r)"

definition spec_fresh :: "hermas_journal_record \<Rightarrow> spec_execution" where
  "spec_fresh r = \<lparr>sp_workflow_id = jr_workflow_id r, sp_image_fingerprint = jr_image_fingerprint r,
     sp_open = Map.empty, sp_largest_request_id = 0, sp_outcome = None\<rparr>"

definition may_close :: "hermas_journal_record \<Rightarrow> bool \<Rightarrow> bool" where
  "may_close r sent \<longleftrightarrow>
    (jr_kind r = HERMAS_JOURNAL_ACTION_SUCCEEDED \<longrightarrow> sent) \<and>
    (jr_kind r = HERMAS_JOURNAL_ACTION_FAILED \<longrightarrow>
       (jr_outcome r = HERMAS_OUTCOME_APP_ERROR \<longrightarrow> sent) \<and>
       (jr_outcome r = HERMAS_OUTCOME_NOT_SENT \<longrightarrow> \<not> sent))"

definition worst_outcome :: "u16 option \<Rightarrow> u16 \<Rightarrow> u16" where
  "worst_outcome old new =
    (case old of None \<Rightarrow> new
     | Some out \<Rightarrow> if outcome_precedence new > outcome_precedence out then new else out)"

definition spec_close :: "spec_execution \<Rightarrow> hermas_journal_record \<Rightarrow> spec_execution option" where
  "spec_close e r =
    (case sp_open e (jr_request_id r) of
       Some (route, sent) \<Rightarrow>
         if route = record_route r \<and> may_close r sent
         then Some (e\<lparr>sp_open := (sp_open e)(jr_request_id r := None),
                      sp_outcome := Some (worst_outcome (sp_outcome e) (jr_outcome r))\<rparr>)
         else None
     | None \<Rightarrow> None)"

fun spec_kind :: "hermas_journal_kind \<Rightarrow> spec_execution \<Rightarrow> hermas_journal_record \<Rightarrow> spec_execution option" where
  "spec_kind HERMAS_JOURNAL_DELIVERY_PREPARED e r =
    (if jr_request_id r > sp_largest_request_id e
     then Some (e\<lparr>sp_open := (sp_open e)(jr_request_id r \<mapsto> (record_route r, False)),
                  sp_largest_request_id := jr_request_id r\<rparr>)
     else None)"
| "spec_kind HERMAS_JOURNAL_DELIVERY_SENT e r =
    (if sp_open e (jr_request_id r) = Some (record_route r, False)
     then Some (e\<lparr>sp_open := (sp_open e)(jr_request_id r \<mapsto> (record_route r, True))\<rparr>)
     else None)"
| "spec_kind HERMAS_JOURNAL_ACTION_SUCCEEDED e r = spec_close e r"
| "spec_kind HERMAS_JOURNAL_ACTION_FAILED e r = spec_close e r"
| "spec_kind HERMAS_JOURNAL_ACTION_UNKNOWN e r = spec_close e r"
| "spec_kind _ e r = None"

definition spec_finishes :: "spec_execution \<Rightarrow> u16 \<Rightarrow> bool" where
  "spec_finishes e out \<longleftrightarrow> sp_open e = Map.empty \<and>
     out = (case sp_outcome e of None \<Rightarrow> HERMAS_OUTCOME_UNKNOWN | Some worst \<Rightarrow> worst)"

definition spec_step :: "spec_state \<Rightarrow> hermas_journal_record \<Rightarrow> spec_state option" where
  "spec_step \<sigma> r =
    (if jr_kind r = HERMAS_JOURNAL_EXECUTION_STARTED then
       (if \<sigma> (jr_execution_id r) = None then Some (\<sigma>(jr_execution_id r \<mapsto> spec_fresh r)) else None)
     else
       (case \<sigma> (jr_execution_id r) of
          None \<Rightarrow> None
        | Some e \<Rightarrow>
            if sp_workflow_id e \<noteq> jr_workflow_id r \<or> sp_image_fingerprint e \<noteq> jr_image_fingerprint r
            then None
            else if jr_kind r = HERMAS_JOURNAL_EXECUTION_FINISHED then
              (if spec_finishes e (jr_outcome r) then Some (\<sigma>(jr_execution_id r := None)) else None)
            else map_option (\<lambda>e'. \<sigma>(jr_execution_id r \<mapsto> e')) (spec_kind (jr_kind r) e r)))"

section \<open>The table as an abstract state\<close>

definition delivery_entry :: "scan_execution \<Rightarrow> nat \<Rightarrow> u64 \<times> route \<times> bool" where
  "delivery_entry e i =
    (let d = ji_open_deliveries (se_value e) ! i
     in (od_request_id d, (od_node_id d, od_app_id d, od_action_id d),
         se_deliveries e ! i = SCAN_DELIVERY_SENT))"

definition live_deliveries :: "scan_execution \<Rightarrow> (u64 \<times> route \<times> bool) list" where
  "live_deliveries e = map (delivery_entry e) [0..<ji_open_delivery_count (se_value e)]"

definition abs_execution :: "scan_execution \<Rightarrow> spec_execution" where
  "abs_execution e = \<lparr>sp_workflow_id = ji_workflow_id (se_value e),
     sp_image_fingerprint = ji_image_fingerprint (se_value e),
     sp_open = map_of (live_deliveries e),
     sp_largest_request_id = se_largest_request_id e,
     sp_outcome = (if se_has_action_outcome e then Some (se_terminal_outcome e) else None)\<rparr>"

definition abs_table :: "scan_execution list \<Rightarrow> spec_state" where
  "abs_table executions execution_id =
     map_option (\<lambda>index. abs_execution (executions ! index)) (find_scan_execution executions execution_id)"

text \<open>The invariant of one entry and of the table.\<close>

definition entry_ok :: "scan_execution \<Rightarrow> bool" where
  "entry_ok e \<longleftrightarrow>
     length (se_deliveries e) = 8 \<and> length (ji_open_deliveries (se_value e)) = 8 \<and>
     ji_open_delivery_count (se_value e) \<le> 8 \<and>
     distinct (map fst (live_deliveries e)) \<and>
     (\<forall>q \<in> fst ` set (live_deliveries e). q \<le> se_largest_request_id e) \<and>
     (\<forall>i < ji_open_delivery_count (se_value e).
        se_deliveries e ! i \<noteq> SCAN_DELIVERY_NONE \<and>
        od_delivery_was_sent (ji_open_deliveries (se_value e) ! i) =
          (if se_deliveries e ! i = SCAN_DELIVERY_SENT then 1 else 0)) \<and>
     (\<not> se_active e \<longrightarrow> e = zero_scan_execution)"

definition table_ok :: "scan_execution list \<Rightarrow> bool" where
  "table_ok executions \<longleftrightarrow> length executions = 16 \<and> (\<forall>e \<in> set executions. entry_ok e) \<and>
     (\<forall>i < 16. \<forall>j < 16. se_active (executions ! i) \<longrightarrow> se_active (executions ! j) \<longrightarrow>
        ji_execution_id (se_value (executions ! i)) = ji_execution_id (se_value (executions ! j)) \<longrightarrow> i = j)"

lemma entry_ok_zero [simp]: "entry_ok zero_scan_execution"
  by (simp add: entry_ok_def zero_scan_execution_def zero_interrupted_def live_deliveries_def)

lemma table_ok_start: "table_ok (replicate 16 zero_scan_execution)"
  by (simp add: table_ok_def) (simp add: zero_scan_execution_def)

lemma abs_table_start: "abs_table (replicate 16 zero_scan_execution) = Map.empty"
proof
  fix x
  have "find_scan_execution (replicate 16 zero_scan_execution) x = None"
    by (simp add: find_scan_execution_def first_index_None zero_scan_execution_def)
  then show "abs_table (replicate 16 zero_scan_execution) x = None"
    by (simp add: abs_table_def)
qed

lemma find_scan_execution_SomeD:
  "find_scan_execution executions x = Some i \<Longrightarrow>
     i < 16 \<and> se_active (executions ! i) \<and> ji_execution_id (se_value (executions ! i)) = x"
  by (simp add: find_scan_execution_def first_index_Some)

lemma find_scan_execution_iff:
  assumes "table_ok executions"
  shows "find_scan_execution executions x = Some i \<longleftrightarrow>
     i < 16 \<and> se_active (executions ! i) \<and> ji_execution_id (se_value (executions ! i)) = x"
proof
  assume i: "i < 16 \<and> se_active (executions ! i) \<and> ji_execution_id (se_value (executions ! i)) = x"
  then have "find_scan_execution executions x \<noteq> None"
    by (auto simp: find_scan_execution_def first_index_None)
  then obtain j where j: "find_scan_execution executions x = Some j" by blast
  then have "j = i"
    using assms i find_scan_execution_SomeD [OF j] unfolding table_ok_def by blast
  with j show "find_scan_execution executions x = Some i" by simp
qed (rule find_scan_execution_SomeD)

lemma table_ok_entry: "table_ok executions \<Longrightarrow> i < 16 \<Longrightarrow> entry_ok (executions ! i)"
  by (auto simp: table_ok_def)

text \<open>
  Replacing one entry of a good table by a good entry with the same execution ID (or by an
  inactive one) keeps the table good and updates the abstract state at that ID only.
\<close>

lemma table_update:
  assumes ok: "table_ok executions" and i: "i < 16" and e': "entry_ok e'"
    and id: "se_active e' \<Longrightarrow> ji_execution_id (se_value e') = x"
    and fresh: "\<And>j. j < 16 \<Longrightarrow> j \<noteq> i \<Longrightarrow> se_active (executions ! j) \<Longrightarrow>
                  ji_execution_id (se_value (executions ! j)) \<noteq> x"
    and old: "se_active (executions ! i) \<Longrightarrow> ji_execution_id (se_value (executions ! i)) = x"
  shows "table_ok (executions[i := e'])"
    and "abs_table (executions[i := e']) =
           (abs_table executions)(x := if se_active e' then Some (abs_execution e') else None)"
proof -
  have len: "length executions = 16" using ok by (simp add: table_ok_def)
  show ok': "table_ok (executions[i := e'])"
    using ok i e' id fresh len unfolding table_ok_def
    by (auto simp: nth_list_update set_conv_nth)
  show "abs_table (executions[i := e']) =
           (abs_table executions)(x := if se_active e' then Some (abs_execution e') else None)"
  proof
    fix y
    show "abs_table (executions[i := e']) y =
           ((abs_table executions)(x := if se_active e' then Some (abs_execution e') else None)) y"
    proof (cases "y = x")
      case True
      show ?thesis
      proof (cases "se_active e'")
        case active: True
        then have "find_scan_execution (executions[i := e']) x = Some i"
          using i len id by (simp add: find_scan_execution_iff [OF ok'])
        then show ?thesis using True active i len by (simp add: abs_table_def)
      next
        case False
        have "find_scan_execution (executions[i := e']) x = None"
          unfolding find_scan_execution_def first_index_None
          using False fresh len i by (auto simp: nth_list_update)
        then show ?thesis using True False by (simp add: abs_table_def)
      qed
    next
      case False
      have "find_scan_execution (executions[i := e']) y = find_scan_execution executions y"
        unfolding find_scan_execution_def
        using False id old len i by (intro first_index_cong) (auto simp: nth_list_update)
      moreover have "find_scan_execution executions y \<noteq> Some i"
        using False old by (auto dest: find_scan_execution_SomeD)
      ultimately show ?thesis
        using False by (auto simp: abs_table_def map_option_case split: option.split)
    qed
  qed
qed

section \<open>The scan refines the machine\<close>

lemma live_deliveries_length [simp]: "length (live_deliveries e) = ji_open_delivery_count (se_value e)"
  by (simp add: live_deliveries_def)

lemma live_deliveries_nth:
  "i < ji_open_delivery_count (se_value e) \<Longrightarrow> live_deliveries e ! i = delivery_entry e i"
  by (simp add: live_deliveries_def)

lemma find_delivery_SomeD:
  assumes "find_delivery e r = Some i"
  shows "i < ji_open_delivery_count (se_value e)"
    and "delivery_entry e i = (jr_request_id r, record_route r, se_deliveries e ! i = SCAN_DELIVERY_SENT)"
  using assms
  by (auto simp: find_delivery_def first_index_Some route_matches_def delivery_entry_def
      record_route_def Let_def)

lemma sp_open_found:
  assumes "entry_ok e" and "find_delivery e r = Some i"
  shows "sp_open (abs_execution e) (jr_request_id r) =
     Some (record_route r, se_deliveries e ! i = SCAN_DELIVERY_SENT)"
proof -
  have "live_deliveries e ! i \<in> set (live_deliveries e)"
    using find_delivery_SomeD(1) [OF assms(2)] by simp
  then show ?thesis
    using assms(1) find_delivery_SomeD [OF assms(2)]
    by (simp add: abs_execution_def entry_ok_def live_deliveries_nth)
qed

lemma scan_prepared_refines:
  assumes ok: "entry_ok e" and active: "se_active e" and step: "scan_prepared e r = Inr e'"
  shows "entry_ok e'" and "se_active e'"
    and "ji_execution_id (se_value e') = ji_execution_id (se_value e)"
    and "spec_kind HERMAS_JOURNAL_DELIVERY_PREPARED (abs_execution e) r = Some (abs_execution e')"
proof -
  let ?n = "ji_open_delivery_count (se_value e)"
  from step have n: "?n < 8" and large: "se_largest_request_id e < jr_request_id r"
    and e': "e' = e\<lparr>se_deliveries := (se_deliveries e)[?n := SCAN_DELIVERY_PREPARED],
        se_largest_request_id := jr_request_id r,
        se_value := (se_value e)\<lparr>ji_open_delivery_count := Suc ?n,
          ji_open_deliveries := (ji_open_deliveries (se_value e))[?n :=
            \<lparr>od_delivery_was_sent = 0, od_request_id = jr_request_id r, od_node_id = jr_node_id r,
             od_app_id = jr_app_id r, od_action_id = jr_action_id r\<rparr>]\<rparr>\<rparr>"
    by (auto simp: scan_prepared_def Let_def split: if_splits)
  have len: "length (se_deliveries e) = 8" "length (ji_open_deliveries (se_value e)) = 8"
    using ok by (simp_all add: entry_ok_def)
  have live: "live_deliveries e' = live_deliveries e @ [(jr_request_id r, record_route r, False)]"
    using n len
    by (intro nth_equalityI)
       (auto simp: live_deliveries_def delivery_entry_def nth_append e' Let_def record_route_def less_Suc_eq)
  have fresh: "jr_request_id r \<notin> fst ` set (live_deliveries e)"
    using ok large by (fastforce simp: entry_ok_def)
  have small: "\<forall>q \<in> fst ` set (live_deliveries e). q \<le> jr_request_id r"
    using ok large by (fastforce simp: entry_ok_def)
  show "entry_ok e'"
    unfolding entry_ok_def live
    using ok n len fresh small active by (auto simp: entry_ok_def e' nth_list_update less_Suc_eq)
  show "se_active e'" "ji_execution_id (se_value e') = ji_execution_id (se_value e)"
    using active by (simp_all add: e')
  have "map_of (live_deliveries e) (jr_request_id r) = None"
    using fresh by (simp add: map_of_eq_None_iff)
  then have "map_of (live_deliveries e') = (map_of (live_deliveries e))(jr_request_id r \<mapsto> (record_route r, False))"
    by (auto simp: live map_add_def split: option.split)
  then show "spec_kind HERMAS_JOURNAL_DELIVERY_PREPARED (abs_execution e) r = Some (abs_execution e')"
    using large by (simp add: abs_execution_def) (simp add: e')
qed

lemma map_of_list_update_distinct:
  "distinct (map fst xs) \<Longrightarrow> i < length xs \<Longrightarrow> fst (xs ! i) = k \<Longrightarrow>
   map_of (xs[i := (k, v)]) = (map_of xs)(k \<mapsto> v)"
proof (induction xs arbitrary: i)
  case Nil
  then show ?case by simp
next
  case (Cons x xs)
  show ?case
  proof (cases i)
    case 0
    with Cons.prems show ?thesis by (cases x) (auto simp: fun_eq_iff)
  next
    case (Suc j)
    with Cons.prems have "fst x \<noteq> k" by (auto dest: nth_mem)
    with Cons Suc show ?thesis by (cases x) (auto simp: fun_eq_iff)
  qed
qed

lemma map_of_remove_distinct:
  "distinct (map fst xs) \<Longrightarrow> i < length xs \<Longrightarrow> fst (xs ! i) = k \<Longrightarrow>
   map_of (take i xs @ drop (Suc i) xs) = (map_of xs)(k := None)"
proof (induction xs arbitrary: i)
  case Nil
  then show ?case by simp
next
  case (Cons x xs)
  show ?case
  proof (cases i)
    case 0
    with Cons.prems have "map_of xs k = None" by (auto simp: map_of_eq_None_iff)
    with 0 Cons.prems show ?thesis by (cases x) (auto simp: fun_eq_iff)
  next
    case (Suc j)
    with Cons.prems have "fst x \<noteq> k" by (auto dest: nth_mem)
    with Cons Suc show ?thesis by (cases x) (auto simp: fun_eq_iff)
  qed
qed

lemma scan_sent_refines:
  assumes ok: "entry_ok e" and active: "se_active e" and step: "scan_sent e r = Inr e'"
  shows "entry_ok e'" and "se_active e'"
    and "ji_execution_id (se_value e') = ji_execution_id (se_value e)"
    and "spec_kind HERMAS_JOURNAL_DELIVERY_SENT (abs_execution e) r = Some (abs_execution e')"
proof -
  from step obtain i where found: "find_delivery e r = Some i"
    and prep: "se_deliveries e ! i = SCAN_DELIVERY_PREPARED"
    and e': "e' = e\<lparr>se_deliveries := (se_deliveries e)[i := SCAN_DELIVERY_SENT],
        se_value := (se_value e)\<lparr>ji_open_deliveries := (ji_open_deliveries (se_value e))[i :=
          (ji_open_deliveries (se_value e) ! i)\<lparr>od_delivery_was_sent := 1\<rparr>]\<rparr>\<rparr>"
    by (auto simp: scan_sent_def Let_def split: option.splits if_splits)
  have i: "i < ji_open_delivery_count (se_value e)" and entry: "delivery_entry e i = (jr_request_id r, record_route r, False)"
    using find_delivery_SomeD [OF found] prep by simp_all
  have len: "length (se_deliveries e) = 8" "length (ji_open_deliveries (se_value e)) = 8"
    "ji_open_delivery_count (se_value e) \<le> 8"
    using ok by (simp_all add: entry_ok_def)
  have live: "live_deliveries e' = (live_deliveries e)[i := (jr_request_id r, record_route r, True)]"
    using i len entry
    by (intro nth_equalityI)
       (auto simp: live_deliveries_def delivery_entry_def e' Let_def nth_list_update)
  have keys: "map fst (live_deliveries e') = map fst (live_deliveries e)"
    using i entry by (simp add: live map_update list_update_same_conv live_deliveries_nth)
  then have "fst ` set (live_deliveries e') = fst ` set (live_deliveries e)"
    by (metis set_map)
  with keys show "entry_ok e'"
    using ok i len active unfolding entry_ok_def by (auto simp: e' nth_list_update)
  show "se_active e'" "ji_execution_id (se_value e') = ji_execution_id (se_value e)"
    using active by (simp_all add: e')
  have "map_of (live_deliveries e') = (map_of (live_deliveries e))(jr_request_id r \<mapsto> (record_route r, True))"
    unfolding live using ok i entry
    by (intro map_of_list_update_distinct) (auto simp: entry_ok_def live_deliveries_nth)
  then show "spec_kind HERMAS_JOURNAL_DELIVERY_SENT (abs_execution e) r = Some (abs_execution e')"
    using sp_open_found [OF ok found] prep by (simp add: abs_execution_def) (simp add: e')
qed

lemma scan_closed_refines:
  assumes ok: "entry_ok e" and active: "se_active e" and step: "scan_closed e r = Inr e'"
  shows "entry_ok e'" and "se_active e'"
    and "ji_execution_id (se_value e') = ji_execution_id (se_value e)"
    and "spec_close (abs_execution e) r = Some (abs_execution e')"
proof -
  let ?n = "ji_open_delivery_count (se_value e)"
  from step obtain i where found: "find_delivery e r = Some i"
    and may: "may_close r (se_deliveries e ! i = SCAN_DELIVERY_SENT)"
    and e': "e' = e\<lparr>se_value := (se_value e)\<lparr>ji_open_delivery_count := ?n - 1,
          ji_open_deliveries := shift_down i (?n - 1) (ji_open_deliveries (se_value e))\<rparr>,
        se_deliveries := shift_down i (?n - 1) (se_deliveries e),
        se_terminal_outcome := (if \<not> se_has_action_outcome e \<or>
             outcome_precedence (jr_outcome r) > outcome_precedence (se_terminal_outcome e)
           then jr_outcome r else se_terminal_outcome e),
        se_has_action_outcome := True\<rparr>"
    using ok find_delivery_SomeD(1) [of e r]
    by (fastforce simp: scan_closed_def may_close_def entry_ok_def Let_def
        split: option.splits if_splits)
  have i: "i < ?n" and entry: "delivery_entry e i = (jr_request_id r, record_route r, se_deliveries e ! i = SCAN_DELIVERY_SENT)"
    using find_delivery_SomeD [OF found] by simp_all
  have len: "length (se_deliveries e) = 8" "length (ji_open_deliveries (se_value e)) = 8" "?n \<le> 8"
    using ok by (simp_all add: entry_ok_def)
  have live: "live_deliveries e' = take i (live_deliveries e) @ drop (Suc i) (live_deliveries e)"
    using i len
    by (intro nth_equalityI)
       (auto simp: live_deliveries_def delivery_entry_def e' Let_def nth_shift_down nth_append)
  have sub: "set (live_deliveries e') \<subseteq> set (live_deliveries e)"
    by (auto simp: live dest: in_set_takeD in_set_dropD)
  have "distinct (map fst (take i (live_deliveries e) @ drop (Suc i) (live_deliveries e)))"
    using ok unfolding entry_ok_def map_append take_map [symmetric] drop_map [symmetric]
    by (auto simp: set_take_disj_set_drop_if_distinct)
  moreover have "\<forall>j < ?n - 1. se_deliveries e' ! j \<noteq> SCAN_DELIVERY_NONE \<and>
        od_delivery_was_sent (ji_open_deliveries (se_value e') ! j) =
          (if se_deliveries e' ! j = SCAN_DELIVERY_SENT then 1 else 0)"
    using ok i len by (auto simp: e' nth_shift_down entry_ok_def)
  ultimately show "entry_ok e'"
    using ok len active sub unfolding entry_ok_def live [symmetric] by (auto simp: e')
  show "se_active e'" "ji_execution_id (se_value e') = ji_execution_id (se_value e)"
    using active by (simp_all add: e')
  have "map_of (live_deliveries e') = (map_of (live_deliveries e))(jr_request_id r := None)"
    unfolding live using ok i entry
    by (intro map_of_remove_distinct) (auto simp: entry_ok_def live_deliveries_nth)
  then show "spec_close (abs_execution e) r = Some (abs_execution e')"
    using sp_open_found [OF ok found] may
    by (simp add: spec_close_def abs_execution_def) (simp add: e' worst_outcome_def)
qed

lemma scan_finished_refines:
  assumes ok: "entry_ok e" and step: "scan_finished e r = Inr e'"
  shows "e' = zero_scan_execution" and "spec_finishes (abs_execution e) (jr_outcome r)"
  using assms
  by (auto simp: scan_finished_def spec_finishes_def abs_execution_def live_deliveries_def split: if_splits)

lemma scan_started_refines:
  assumes ok: "table_ok executions" and free: "find_scan_execution executions (jr_execution_id r) = None"
    and step: "scan_started executions r = Inr executions'"
  shows "table_ok executions'"
    and "abs_table executions' = (abs_table executions)(jr_execution_id r \<mapsto> spec_fresh r)"
proof -
  from step obtain i where i: "i < 16" "\<not> se_active (executions ! i)"
    and ex: "executions' = executions[i := (executions ! i)\<lparr>se_active := True,
        se_value := (se_value (executions ! i))\<lparr>ji_execution_id := jr_execution_id r,
          ji_workflow_id := jr_workflow_id r, ji_image_fingerprint := jr_image_fingerprint r\<rparr>\<rparr>]"
    by (auto simp: scan_started_def first_index_Some Let_def split: option.splits)
  have zero: "executions ! i = zero_scan_execution"
    using table_ok_entry [OF ok i(1)] i(2) by (simp add: entry_ok_def)
  let ?e = "zero_scan_execution\<lparr>se_active := True, se_value := zero_interrupted
     \<lparr>ji_execution_id := jr_execution_id r, ji_workflow_id := jr_workflow_id r,
      ji_image_fingerprint := jr_image_fingerprint r\<rparr>\<rparr>"
  have ex': "executions' = executions[i := ?e]"
    by (simp add: ex zero) (simp add: zero_scan_execution_def)
  have good: "entry_ok ?e"
    by (simp add: entry_ok_def zero_scan_execution_def zero_interrupted_def live_deliveries_def)
  have other: "ji_execution_id (se_value (executions ! j)) \<noteq> jr_execution_id r"
    if "j < 16" "se_active (executions ! j)" for j
    using free that by (auto simp: find_scan_execution_def first_index_None)
  note upd = table_update [OF ok i(1) good, of "jr_execution_id r"]
  show "table_ok executions'"
    unfolding ex' by (rule upd(1)) (use other i in simp_all)
  have "abs_execution ?e = spec_fresh r"
    by (simp add: abs_execution_def spec_fresh_def live_deliveries_def zero_scan_execution_def zero_interrupted_def)
  moreover have "abs_table executions' = (abs_table executions)(jr_execution_id r :=
      if se_active ?e then Some (abs_execution ?e) else None)"
    unfolding ex' by (rule upd(2)) (use other i in simp_all)
  ultimately show "abs_table executions' = (abs_table executions)(jr_execution_id r \<mapsto> spec_fresh r)"
    by simp
qed

lemma scan_kind_refines:
  assumes ok: "entry_ok e" and active: "se_active e" and step: "scan_kind (jr_kind r) e r = Inr e'"
  shows "entry_ok e' \<and>
    (if jr_kind r = HERMAS_JOURNAL_EXECUTION_FINISHED
     then e' = zero_scan_execution \<and> spec_finishes (abs_execution e) (jr_outcome r)
     else se_active e' \<and> ji_execution_id (se_value e') = ji_execution_id (se_value e) \<and>
          spec_kind (jr_kind r) (abs_execution e) r = Some (abs_execution e'))"
proof (cases "jr_kind r")
  case HERMAS_JOURNAL_DELIVERY_PREPARED
  then show ?thesis using scan_prepared_refines [OF ok active] step by simp
next
  case HERMAS_JOURNAL_DELIVERY_SENT
  then show ?thesis using scan_sent_refines [OF ok active] step by simp
next
  case HERMAS_JOURNAL_EXECUTION_FINISHED
  then show ?thesis using scan_finished_refines [OF ok, of r e'] step by simp
qed (use scan_closed_refines [OF ok active] step in simp_all)

lemma scan_transition_step:
  assumes ok: "table_ok executions" and step: "scan_transition executions r = Inr executions'"
  shows "table_ok executions' \<and> spec_step (abs_table executions) r = Some (abs_table executions')"
proof (cases "jr_kind r = HERMAS_JOURNAL_EXECUTION_STARTED")
  case True
  with step have free: "find_scan_execution executions (jr_execution_id r) = None"
    and started: "scan_started executions r = Inr executions'"
    by (auto simp: scan_transition_def Let_def split: if_splits)
  then show ?thesis
    using scan_started_refines [OF ok free started] True by (simp add: spec_step_def abs_table_def)
next
  case False
  obtain i where found: "find_scan_execution executions (jr_execution_id r) = Some i"
    using step False by (auto simp: scan_transition_def Let_def split: option.splits)
  obtain e' where same: "ji_workflow_id (se_value (executions ! i)) = jr_workflow_id r"
      "ji_image_fingerprint (se_value (executions ! i)) = jr_image_fingerprint r"
    and kind: "scan_kind (jr_kind r) (executions ! i) r = Inr e'"
    and ex: "executions' = executions[i := e']"
    using step False found by (auto simp: scan_transition_def Let_def split: if_splits)
  have i: "i < 16" and active: "se_active (executions ! i)"
    and eid: "ji_execution_id (se_value (executions ! i)) = jr_execution_id r"
    using find_scan_execution_SomeD [OF found] by simp_all
  note refines = scan_kind_refines [OF table_ok_entry [OF ok i] active kind]
  have good: "entry_ok e'" using refines by blast
  have id: "ji_execution_id (se_value e') = jr_execution_id r" if "se_active e'"
    using refines that eid by (simp add: zero_scan_execution_def split: if_splits)
  have other: "ji_execution_id (se_value (executions ! j)) \<noteq> jr_execution_id r"
    if "j < 16" "j \<noteq> i" "se_active (executions ! j)" for j
    using ok i active eid that unfolding table_ok_def by metis
  note upd = table_update [OF ok i good id other eid]
  have abs: "abs_table executions (jr_execution_id r) = Some (abs_execution (executions ! i))"
    by (simp add: abs_table_def found)
  have same': "sp_workflow_id (abs_execution (executions ! i)) = jr_workflow_id r"
    "sp_image_fingerprint (abs_execution (executions ! i)) = jr_image_fingerprint r"
    using same by (simp_all add: abs_execution_def)
  show ?thesis
  proof (cases "jr_kind r = HERMAS_JOURNAL_EXECUTION_FINISHED")
    case True
    then have "\<not> se_active e'" and "spec_finishes (abs_execution (executions ! i)) (jr_outcome r)"
      using refines by (simp_all add: zero_scan_execution_def)
    then show ?thesis
      using upd True by (simp add: ex spec_step_def abs same')
  next
    case fin: False
    then have "se_active e'" and "spec_kind (jr_kind r) (abs_execution (executions ! i)) r = Some (abs_execution e')"
      using refines by simp_all
    then show ?thesis
      using upd fin False by (simp add: ex spec_step_def abs same')
  qed
qed

text \<open>C9: The table scan refines the abstract delivery machine: whenever
  \<open>scan_transition\<close> accepts a record on a good table, the resulting table is good and
  represents exactly the state the abstract machine steps to.\<close>

theorem scan_transition_refines:
  assumes "table_ok executions" and "scan_transition executions r = Inr executions'"
  shows "table_ok executions' \<and> spec_step (abs_table executions) r = Some (abs_table executions')"
  using assms by (rule scan_transition_step)

end
