(* ===== verification/Hermas_Record_Log.thy ===== *)
theory Hermas_Record_Log
  imports Hermas_Bytes
begin

text \<open>
  The shape that the program's four durable logs share (execution journal, saga log, action
  result log, compensation token log): a scan that reads one record after the other from the
  start of the file and feeds each to a state transition. The interface \<open>record_log\<close> states what
  such a log relies on; each log interprets it with its own record parser and transition.
\<close>

section \<open>Framing\<close>

text \<open>\<open>framed parse bs rs\<close>: the file \<open>bs\<close> is exactly the concatenation of the records \<open>rs\<close>.\<close>

inductive framed :: "(bytes \<Rightarrow> 'd + 'r \<times> nat) \<Rightarrow> bytes \<Rightarrow> 'r list \<Rightarrow> bool" for parse where
  framed_nil: "framed parse [] []"
| framed_cons: "bs \<noteq> [] \<Longrightarrow> parse bs = Inr (r, n) \<Longrightarrow> framed parse (drop n bs) rs \<Longrightarrow> framed parse bs (r # rs)"

inductive_simps framed_nil_iff [simp]: "framed parse [] rs"
inductive_simps framed_cons_iff: "framed parse bs (r # rs)"
inductive_cases framed_emptyE: "framed parse bs []"

text \<open>Feeding a list of records to a transition.\<close>

fun run_records :: "('s \<Rightarrow> 'r \<Rightarrow> 'e + 's) \<Rightarrow> 's \<Rightarrow> 'r list \<Rightarrow> 'e + 's" where
  "run_records step s [] = Inr s"
| "run_records step s (r # rs) =
    (case step s r of Inl e \<Rightarrow> Inl e | Inr s' \<Rightarrow> run_records step s' rs)"

lemma run_records_append:
  "run_records step s (rs @ ts) =
     (case run_records step s rs of Inl e \<Rightarrow> Inl e | Inr s' \<Rightarrow> run_records step s' ts)"
  by (induction rs arbitrary: s) (auto split: sum.split)

lemma run_records_snoc_Inr:
  "run_records step s (rs @ [r]) = Inr s'' \<longleftrightarrow>
     (\<exists>s'. run_records step s rs = Inr s' \<and> step s' r = Inr s'')"
  by (auto simp: run_records_append split: sum.splits)

text \<open>An invariant of the transition over the records seen so far.\<close>

lemma run_records_invariant:
  assumes "run_records step s0 rs = Inr s"
    and "I [] s0"
    and "\<And>rs s r s'. I rs s \<Longrightarrow> step s r = Inr s' \<Longrightarrow> I (rs @ [r]) s'"
  shows "I rs s"
  using assms(1)
proof (induction rs arbitrary: s rule: rev_induct)
  case Nil
  then show ?case using assms(2) by simp
next
  case (snoc r rs)
  then show ?case using assms(3) by (auto simp: run_records_snoc_Inr)
qed

section \<open>The interface\<close>

locale record_log =
  fixes parse :: "bytes \<Rightarrow> 'd + 'r \<times> nat"
    and step :: "'s \<Rightarrow> 'r \<Rightarrow> 'e + 's"
    and refuse :: "'s \<Rightarrow> 'd \<Rightarrow> 'e"
    and scan :: "bytes \<Rightarrow> 's \<Rightarrow> 'e + 's"
  assumes scan_nil: "scan [] s = Inr s"
    and scan_cons: "bs \<noteq> [] \<Longrightarrow> scan bs s =
      (case parse bs of
         Inl d \<Rightarrow> Inl (refuse s d)
       | Inr (r, n) \<Rightarrow> (case step s r of Inl e \<Rightarrow> Inl e | Inr s' \<Rightarrow> scan (drop n bs) s'))"
    and parse_size: "parse bs = Inr (r, n) \<Longrightarrow> 0 < n \<and> n \<le> length bs"
    and parse_local: "parse bs = Inr (r, n) \<Longrightarrow> parse (take n bs @ cs) = Inr (r, n)"
begin

lemma scan_induct [case_names nil bad good]:
  assumes "\<And>s. P [] s"
    and "\<And>bs s d. bs \<noteq> [] \<Longrightarrow> parse bs = Inl d \<Longrightarrow> P bs s"
    and "\<And>bs s r n. bs \<noteq> [] \<Longrightarrow> parse bs = Inr (r, n) \<Longrightarrow> (\<And>s'. P (drop n bs) s') \<Longrightarrow> P bs s"
  shows "P bs s"
proof (induction "length bs" arbitrary: bs s rule: less_induct)
  case less
  show ?case
  proof (cases "bs = []")
    case True
    then show ?thesis using assms(1) by simp
  next
    case False
    show ?thesis
    proof (cases "parse bs")
      case (Inl d)
      with False show ?thesis by (rule assms(2))
    next
      case (Inr rn)
      obtain r n where rn: "rn = (r, n)" by fastforce
      have "length (drop n bs) < length bs"
        using False Inr rn parse_size [of bs r n] by simp
      then show ?thesis
        using assms(3) [OF False, of r n] less Inr rn by blast
    qed
  qed
qed

text \<open>The scan succeeds exactly on the framed files whose records the transition accepts.\<close>

lemma scan_iff: "scan bs s = Inr s' \<longleftrightarrow> (\<exists>rs. framed parse bs rs \<and> run_records step s rs = Inr s')"
proof (induction bs s rule: scan_induct)
  case (nil s)
  then show ?case by (simp add: scan_nil)
next
  case (bad bs s d)
  then show ?case by (auto simp: scan_cons elim: framed.cases)
next
  case (good bs s r n)
  show ?case
  proof
    assume "scan bs s = Inr s'"
    with good obtain s1 where "step s r = Inr s1" "scan (drop n bs) s1 = Inr s'"
      by (auto simp: scan_cons split: sum.splits)
    with good show "\<exists>rs. framed parse bs rs \<and> run_records step s rs = Inr s'"
      by (metis framed_cons run_records.simps(2) sum.simps(6))
  next
    assume "\<exists>rs. framed parse bs rs \<and> run_records step s rs = Inr s'"
    then obtain rs where "framed parse bs rs" and run: "run_records step s rs = Inr s'" by blast
    then obtain rs' where "rs = r # rs'" "framed parse (drop n bs) rs'"
      using good by (auto elim!: framed.cases [of parse bs rs])
    with run good show "scan bs s = Inr s'"
      by (auto simp: scan_cons split: sum.splits)
  qed
qed

text \<open>On a framed file the scan is the transition run over its records, errors included.\<close>

lemma framed_scan: "framed parse bs rs \<Longrightarrow> scan bs s = run_records step s rs"
  by (induction arbitrary: s rule: framed.induct) (auto simp: scan_nil scan_cons split: sum.split)

lemma framed_unique: "framed parse bs rs \<Longrightarrow> framed parse bs ts \<Longrightarrow> rs = ts"
proof (induction arbitrary: ts rule: framed.induct)
  case framed_nil
  then show ?case by simp
next
  case (framed_cons bs r n rs)
  from framed_cons.prems framed_cons.hyps show ?case
    by (cases rule: framed.cases) (auto intro: framed_cons.IH)
qed

text \<open>Scanning a log that was extended continues from where the scan of the old log ended.\<close>

lemma scan_append: "scan bs s = Inr s' \<Longrightarrow> scan (bs @ cs) s = scan cs s'"
proof (induction bs s rule: scan_induct)
  case (nil s)
  then show ?case by (simp add: scan_nil)
next
  case (bad bs s d)
  then show ?case by (simp add: scan_cons)
next
  case (good bs s r n)
  have n: "n \<le> length bs" using parse_size [OF good(2)] by simp
  have "parse (bs @ cs) = Inr (r, n)"
    using parse_local [OF good(2), of "drop n bs @ cs"] by (simp flip: append_assoc)
  with good n show ?case by (auto simp: scan_cons split: sum.splits)
qed

lemma scan_extend:
  assumes "scan bs s = Inr s'" and "parse p = Inr (r, length p)" and "step s' r = Inr s''"
  shows "scan (bs @ p) s = Inr s''"
proof -
  have "p \<noteq> []" using parse_size [OF assms(2)] by auto
  then have "scan p s' = Inr s''" using assms by (simp add: scan_cons scan_nil)
  then show ?thesis using scan_append [OF assms(1)] by simp
qed

lemma framed_append:
  assumes "framed parse bs rs" and "parse p = Inr (r, length p)"
  shows "framed parse (bs @ p) (rs @ [r])"
  using assms
proof (induction rule: framed.induct)
  case framed_nil
  then have "p \<noteq> []" using parse_size by fastforce
  with framed_nil show ?case by (auto intro: framed.intros)
next
  case (framed_cons bs a n rs)
  have n: "n \<le> length bs" using parse_size [OF framed_cons(2)] by simp
  have "parse (bs @ p) = Inr (a, n)"
    using parse_local [OF framed_cons(2), of "drop n bs @ p"] by (simp flip: append_assoc)
  then show ?case
    using framed_cons n by (auto intro: framed.framed_cons)
qed

end

end
