(* ===== verification/Hermas_Journal_Trace.thy ===== *)
theory Hermas_Journal_Trace
  imports Hermas_Journal_Spec Hermas_Record_Log
begin

text \<open>
  What an accepted journal says: the history of every delivery is a path of the delivery life
  cycle, every final outcome is the worst one reported, and the interrupted executions of the
  summary are the ones that started and did not finish.
\<close>

section \<open>The journal as a record log\<close>

definition journal_parse :: "bytes \<Rightarrow> hermas_journal_result + hermas_journal_record \<times> nat" where
  "journal_parse bs = map_sum id (\<lambda>r. (r, HERMAS_JOURNAL_RECORD_SIZE))
     (journal_decode (take HERMAS_JOURNAL_RECORD_SIZE bs))"

lemma journal_parse_Inr:
  "journal_parse bs = Inr (r, n) \<longleftrightarrow> journal_decode (take 64 bs) = Inr r \<and> n = 64"
  by (auto simp: journal_parse_def)

lemma scan_from_shift: "scan_from visitor (drop k bs) off s = scan_from visitor bs (k + off) s"
proof (induction "length bs - (k + off)" arbitrary: off s rule: less_induct)
  case less
  have inside: "off < length (drop k bs) \<longleftrightarrow> k + off < length bs" by auto
  show ?case
  proof (cases "k + off < length bs")
    case True
    then have "scan_from visitor (drop k bs) (off + 64) s' = scan_from visitor bs (k + off + 64) s'" for s'
      using less [of "off + 64"] by (simp add: add.assoc)
    with True show ?thesis
      by (subst (1 2) scan_from.simps, unfold inside) (simp add: chunk_drop add.assoc split: sum.split)
  next
    case False
    then show ?thesis by (subst (1 2) scan_from.simps, unfold inside) simp
  qed
qed

interpretation journal_log: record_log journal_parse "scan_record visitor"
  "\<lambda>s e. (e, sl_context s)" "\<lambda>bs. scan_from visitor bs 0"
  for visitor :: "'c journal_visitor"
proof unfold_locales
  fix bs :: bytes and s :: "'c scan_loop"
  show "scan_from visitor [] 0 s = Inr s" by (subst scan_from.simps) simp
  show "scan_from visitor bs 0 s =
      (case journal_parse bs of Inl d \<Rightarrow> Inl (d, sl_context s)
       | Inr (r, n) \<Rightarrow> (case scan_record visitor s r of Inl e \<Rightarrow> Inl e
           | Inr s' \<Rightarrow> scan_from visitor (drop n bs) 0 s'))" if "bs \<noteq> []"
    using that scan_from_shift [of visitor 64 bs 0]
    by (subst scan_from.simps) (simp add: journal_parse_def chunk_def split: sum.split)
next
  fix bs cs :: bytes and r n
  assume "journal_parse bs = Inr (r, n)"
  moreover from this have "64 \<le> length bs"
    using journal_decode_OK_reads(1) [of "take 64 bs" r] by (simp add: journal_parse_Inr)
  ultimately show "0 < n \<and> n \<le> length bs" "journal_parse (take n bs @ cs) = Inr (r, n)"
    by (simp_all add: journal_parse_Inr)
qed

section \<open>The life cycle of a delivery\<close>

datatype delivery_phase = Unprepared | Open route bool | Closed

definition is_closing :: "hermas_journal_kind \<Rightarrow> bool" where
  "is_closing k \<longleftrightarrow> k \<in> {HERMAS_JOURNAL_ACTION_SUCCEEDED, HERMAS_JOURNAL_ACTION_FAILED,
     HERMAS_JOURNAL_ACTION_UNKNOWN}"

fun advance :: "delivery_phase \<Rightarrow> hermas_journal_record \<Rightarrow> delivery_phase option" where
  "advance Unprepared r =
    (if jr_kind r = HERMAS_JOURNAL_DELIVERY_PREPARED then Some (Open (record_route r) False) else None)"
| "advance (Open route sent) r =
    (if record_route r \<noteq> route then None
     else if jr_kind r = HERMAS_JOURNAL_DELIVERY_SENT \<and> \<not> sent then Some (Open route True)
     else if is_closing (jr_kind r) \<and> may_close r sent then Some Closed
     else None)"
| "advance Closed r = None"

fun phase_from :: "delivery_phase \<Rightarrow> hermas_journal_record list \<Rightarrow> delivery_phase option" where
  "phase_from ph [] = Some ph"
| "phase_from ph (r # rs) = (case advance ph r of None \<Rightarrow> None | Some ph' \<Rightarrow> phase_from ph' rs)"

text \<open>The records of a journal about one delivery, and the phase they leave it in.\<close>

definition delivery_history ::
  "hermas_journal_record list \<Rightarrow> u64 \<Rightarrow> u64 \<Rightarrow> hermas_journal_record list" where
  "delivery_history rs execution_id request_id =
     filter (\<lambda>r. is_action_record (jr_kind r) \<and> jr_execution_id r = execution_id \<and>
                 jr_request_id r = request_id) rs"

definition delivery_phase_of ::
  "hermas_journal_record list \<Rightarrow> u64 \<Rightarrow> u64 \<Rightarrow> delivery_phase option" where
  "delivery_phase_of rs execution_id request_id =
     phase_from Unprepared (delivery_history rs execution_id request_id)"

text \<open>The worst outcome that the closing records of an execution report.\<close>

definition reported_outcome :: "hermas_journal_record list \<Rightarrow> u64 \<Rightarrow> u16 option" where
  "reported_outcome rs execution_id =
     foldl (\<lambda>worst r. Some (worst_outcome worst (jr_outcome r))) None
       (filter (\<lambda>r. is_closing (jr_kind r) \<and> jr_execution_id r = execution_id) rs)"

definition started_in :: "hermas_journal_record list \<Rightarrow> u64 \<Rightarrow> bool" where
  "started_in rs x \<longleftrightarrow> (\<exists>r \<in> set rs. jr_kind r = HERMAS_JOURNAL_EXECUTION_STARTED \<and> jr_execution_id r = x)"

definition finished_in :: "hermas_journal_record list \<Rightarrow> u64 \<Rightarrow> bool" where
  "finished_in rs x \<longleftrightarrow> (\<exists>r \<in> set rs. jr_kind r = HERMAS_JOURNAL_EXECUTION_FINISHED \<and> jr_execution_id r = x)"

lemma phase_from_append:
  "phase_from ph (rs @ ts) = (case phase_from ph rs of None \<Rightarrow> None | Some ph' \<Rightarrow> phase_from ph' ts)"
  by (induction rs arbitrary: ph) (auto split: option.split)

lemma delivery_phase_snoc:
  "delivery_phase_of (rs @ [r]) x q =
    (if is_action_record (jr_kind r) \<and> jr_execution_id r = x \<and> jr_request_id r = q
     then Option.bind (delivery_phase_of rs x q) (\<lambda>ph. advance ph r) else delivery_phase_of rs x q)"
  by (auto simp: delivery_phase_of_def delivery_history_def phase_from_append split: option.split)

lemma reported_outcome_snoc:
  "reported_outcome (rs @ [r]) x =
    (if is_closing (jr_kind r) \<and> jr_execution_id r = x
     then Some (worst_outcome (reported_outcome rs x) (jr_outcome r)) else reported_outcome rs x)"
  by (simp add: reported_outcome_def)

lemma started_in_snoc [simp]:
  "started_in [] x = False"
  "started_in (rs @ [r]) x \<longleftrightarrow>
     started_in rs x \<or> jr_kind r = HERMAS_JOURNAL_EXECUTION_STARTED \<and> jr_execution_id r = x"
  by (auto simp: started_in_def)

lemma finished_in_snoc [simp]:
  "finished_in [] x = False"
  "finished_in (rs @ [r]) x \<longleftrightarrow>
     finished_in rs x \<or> jr_kind r = HERMAS_JOURNAL_EXECUTION_FINISHED \<and> jr_execution_id r = x"
  by (auto simp: finished_in_def)

section \<open>The invariant of the abstract machine\<close>

text \<open>How the abstract state of one execution reflects the records about it.\<close>

fun open_of :: "delivery_phase option \<Rightarrow> (route \<times> bool) option" where
  "open_of (Some (Open route sent)) = Some (route, sent)"
| "open_of _ = None"

lemma open_of_Some: "open_of ph = Some (route, sent) \<longleftrightarrow> ph = Some (Open route sent)"
  by (cases ph rule: open_of.cases) auto

definition execution_inv :: "hermas_journal_record list \<Rightarrow> u64 \<Rightarrow> spec_execution \<Rightarrow> bool" where
  "execution_inv rs x e \<longleftrightarrow>
     started_in rs x \<and> \<not> finished_in rs x \<and> sp_outcome e = reported_outcome rs x \<and>
     (\<forall>q. sp_open e q = open_of (delivery_phase_of rs x q)) \<and>
     (\<forall>q. delivery_phase_of rs x q \<noteq> None) \<and>
     (\<forall>q. sp_largest_request_id e < q \<longrightarrow> delivery_phase_of rs x q = Some Unprepared)"

definition idle_inv :: "hermas_journal_record list \<Rightarrow> u64 \<Rightarrow> bool" where
  "idle_inv rs x \<longleftrightarrow> (started_in rs x \<longleftrightarrow> finished_in rs x) \<and>
     (\<forall>q. delivery_phase_of rs x q \<noteq> None \<and> open_of (delivery_phase_of rs x q) = None) \<and>
     (\<not> started_in rs x \<longrightarrow> reported_outcome rs x = None \<and> (\<forall>q. delivery_phase_of rs x q = Some Unprepared))"

definition state_inv :: "hermas_journal_record list \<Rightarrow> spec_state \<Rightarrow> bool" where
  "state_inv rs \<sigma> \<longleftrightarrow> (\<forall>x. case \<sigma> x of None \<Rightarrow> idle_inv rs x | Some e \<Rightarrow> execution_inv rs x e)"

lemma state_inv_nil: "state_inv [] Map.empty"
  by (simp add: state_inv_def idle_inv_def delivery_phase_of_def delivery_history_def reported_outcome_def)

lemmas history_snoc = delivery_phase_snoc reported_outcome_snoc is_action_record_def is_closing_def

text \<open>A record about one execution leaves the histories of the others alone.\<close>

lemma execution_inv_other:
  "jr_execution_id r \<noteq> x \<Longrightarrow> execution_inv (rs @ [r]) x e = execution_inv rs x e"
  "jr_execution_id r \<noteq> x \<Longrightarrow> idle_inv (rs @ [r]) x = idle_inv rs x"
  by (simp_all add: execution_inv_def idle_inv_def history_snoc)

lemma state_invI:
  assumes "state_inv rs \<sigma>"
    and "\<And>y. y \<noteq> jr_execution_id r \<Longrightarrow> \<sigma>' y = \<sigma> y"
    and "case \<sigma>' (jr_execution_id r) of None \<Rightarrow> idle_inv (rs @ [r]) (jr_execution_id r)
         | Some e \<Rightarrow> execution_inv (rs @ [r]) (jr_execution_id r) e"
  shows "state_inv (rs @ [r]) \<sigma>'"
  unfolding state_inv_def
proof
  fix y
  show "case \<sigma>' y of None \<Rightarrow> idle_inv (rs @ [r]) y | Some e \<Rightarrow> execution_inv (rs @ [r]) y e"
  proof (cases "y = jr_execution_id r")
    case True
    then show ?thesis using assms(3) by (simp only: True)
  next
    case False
    then have "case \<sigma> y of None \<Rightarrow> idle_inv rs y | Some e \<Rightarrow> execution_inv rs y e"
      using assms(1) by (simp add: state_inv_def)
    then show ?thesis using False assms(2) by (auto simp: execution_inv_other split: option.splits)
  qed
qed

lemma execution_inv_close:
  assumes inv: "execution_inv rs (jr_execution_id r) e"
    and kind: "is_closing (jr_kind r)" and step: "spec_close e r = Some e'"
  shows "execution_inv (rs @ [r]) (jr_execution_id r) e'"
proof -
  from step obtain sent where opened: "sp_open e (jr_request_id r) = Some (record_route r, sent)"
    and may: "may_close r sent"
    and e': "e' = e\<lparr>sp_open := (sp_open e)(jr_request_id r := None),
                sp_outcome := Some (worst_outcome (sp_outcome e) (jr_outcome r))\<rparr>"
    by (auto simp: spec_close_def split: option.splits if_splits)
  have ph: "delivery_phase_of rs (jr_execution_id r) (jr_request_id r) = Some (Open (record_route r) sent)"
    using inv opened by (metis execution_inv_def open_of_Some)
  have bound: "\<not> sp_largest_request_id e < jr_request_id r"
    using inv ph by (auto simp: execution_inv_def)
  have kinds: "is_action_record (jr_kind r)" "jr_kind r \<noteq> HERMAS_JOURNAL_DELIVERY_SENT"
    "jr_kind r \<noteq> HERMAS_JOURNAL_EXECUTION_FINISHED"
    using kind by (auto simp: is_closing_def is_action_record_def)
  have "delivery_phase_of (rs @ [r]) (jr_execution_id r) (jr_request_id r) = Some Closed"
    using ph may kind kinds by (simp add: delivery_phase_snoc)
  moreover have "delivery_phase_of (rs @ [r]) (jr_execution_id r) q = delivery_phase_of rs (jr_execution_id r) q"
    if "q \<noteq> jr_request_id r" for q
    using that by (simp add: delivery_phase_snoc)
  moreover have "delivery_phase_of (rs @ [r]) (jr_execution_id r) q \<noteq> None" for q
    using inv calculation by (cases "q = jr_request_id r") (simp_all add: execution_inv_def)
  ultimately show ?thesis
    using inv kind kinds bound
    by (auto simp: execution_inv_def e' reported_outcome_snoc)
qed

lemma execution_inv_kind:
  assumes inv: "execution_inv rs (jr_execution_id r) e"
    and step: "spec_kind (jr_kind r) e r = Some e'"
  shows "execution_inv (rs @ [r]) (jr_execution_id r) e'"
proof (cases "jr_kind r")
  case HERMAS_JOURNAL_DELIVERY_PREPARED
  then show ?thesis
    using inv step by (auto simp: execution_inv_def history_snoc split: if_splits)
next
  case HERMAS_JOURNAL_DELIVERY_SENT
  then have e': "e' = e\<lparr>sp_open := (sp_open e)(jr_request_id r \<mapsto> (record_route r, True))\<rparr>"
    and opened: "sp_open e (jr_request_id r) = Some (record_route r, False)"
    using step by (auto split: if_splits)
  have "delivery_phase_of rs (jr_execution_id r) (jr_request_id r) = Some (Open (record_route r) False)"
    using inv opened by (metis execution_inv_def open_of_Some)
  then show ?thesis
    using inv HERMAS_JOURNAL_DELIVERY_SENT
    by (auto simp: execution_inv_def history_snoc e')
next
  case HERMAS_JOURNAL_EXECUTION_STARTED
  then show ?thesis using step by simp
next
  case HERMAS_JOURNAL_EXECUTION_FINISHED
  then show ?thesis using step by simp
next
  case HERMAS_JOURNAL_KIND_OTHER
  then show ?thesis using step by simp
qed (use execution_inv_close [OF inv] step in \<open>simp_all add: is_closing_def\<close>)

lemma state_inv_step:
  assumes inv: "state_inv rs \<sigma>" and step: "spec_step \<sigma> r = Some \<sigma>'"
    and fresh: "jr_kind r = HERMAS_JOURNAL_EXECUTION_STARTED \<Longrightarrow> \<not> started_in rs (jr_execution_id r)"
  shows "state_inv (rs @ [r]) \<sigma>'"
proof (cases "jr_kind r = HERMAS_JOURNAL_EXECUTION_STARTED")
  case True
  let ?x = "jr_execution_id r"
  have \<sigma>': "\<sigma>' = \<sigma>(?x \<mapsto> spec_fresh r)" and none: "\<sigma> ?x = None"
    using step True by (auto simp: spec_step_def split: if_splits)
  have idle: "idle_inv rs ?x" using inv none unfolding state_inv_def by (metis option.simps(4))
  have "execution_inv (rs @ [r]) ?x (spec_fresh r)"
    using idle fresh True
    by (simp add: execution_inv_def idle_inv_def history_snoc spec_fresh_def)
  then show ?thesis using \<sigma>' by (intro state_invI [OF inv]) simp_all
next
  case False
  let ?x = "jr_execution_id r"
  from step False obtain e where e: "\<sigma> ?x = Some e"
    by (auto simp: spec_step_def split: option.splits)
  have inv_e: "execution_inv rs ?x e" using inv e unfolding state_inv_def by (metis option.simps(5))
  show ?thesis
  proof (cases "jr_kind r = HERMAS_JOURNAL_EXECUTION_FINISHED")
    case True
    then have \<sigma>': "\<sigma>' = \<sigma>(?x := None)" and fin: "spec_finishes e (jr_outcome r)"
      using step False e by (auto simp: spec_step_def split: if_splits)
    have "idle_inv (rs @ [r]) ?x"
      using inv_e fin True
      by (auto simp: idle_inv_def execution_inv_def spec_finishes_def history_snoc fun_eq_iff)
    then show ?thesis using \<sigma>' by (intro state_invI [OF inv]) simp_all
  next
    case fin: False
    then obtain e' where kind: "spec_kind (jr_kind r) e r = Some e'" and \<sigma>': "\<sigma>' = \<sigma>(?x \<mapsto> e')"
      using step False e by (auto simp: spec_step_def split: if_splits)
    then show ?thesis
      using execution_inv_kind [OF inv_e kind] by (intro state_invI [OF inv]) simp_all
  qed
qed

section \<open>The invariant of the scan\<close>

definition scan_inv :: "hermas_journal_record list \<Rightarrow> 'c scan_loop \<Rightarrow> bool" where
  "scan_inv rs s \<longleftrightarrow>
     table_ok (sl_executions s) \<and> state_inv rs (abs_table (sl_executions s)) \<and>
     sl_record_count s = of_nat (length rs) \<and> sl_next_sequence s = of_nat (length rs) + 1 \<and>
     (\<forall>r \<in> set rs. jr_execution_id r < sl_next_execution_id s) \<and> 1 \<le> sl_next_execution_id s \<and>
     (\<forall>x. started_in rs x \<longrightarrow> x \<le> sl_largest_started_id s) \<and>
     sorted_wrt (<) (map jr_execution_id
       (filter (\<lambda>r. jr_kind r = HERMAS_JOURNAL_EXECUTION_STARTED) rs)) \<and>
     (\<forall>i < length rs. jr_sequence (rs ! i) = of_nat (i + 1))"

lemma scan_inv_start: "scan_inv [] (scan_loop_start c)"
  by (simp add: scan_inv_def scan_loop_start_def table_ok_start abs_table_start state_inv_nil)

lemma scan_record_InrD:
  assumes "scan_record visitor s r = Inr s'"
  shows "jr_sequence r = sl_next_sequence s"
    and "jr_kind r = HERMAS_JOURNAL_EXECUTION_STARTED \<Longrightarrow> sl_largest_started_id s < jr_execution_id r"
    and "scan_transition (sl_executions s) r = Inr (sl_executions s')"
    and "sl_record_count s' = sl_record_count s + 1" "sl_next_sequence s' = sl_next_sequence s + 1"
    and "sl_next_execution_id s' = (if jr_execution_id r \<ge> sl_next_execution_id s
           then jr_execution_id r + 1 else sl_next_execution_id s)"
    and "jr_execution_id r \<ge> sl_next_execution_id s \<Longrightarrow> jr_execution_id r \<noteq> - 1"
    and "sl_largest_started_id s' = (if jr_kind r = HERMAS_JOURNAL_EXECUTION_STARTED
           then jr_execution_id r else sl_largest_started_id s)"
  using assms
  by (auto simp: scan_record_def Let_def split: if_splits sum.splits prod.splits)

lemma scan_inv_step:
  assumes inv: "scan_inv rs s" and step: "scan_record visitor s r = Inr s'"
  shows "scan_inv (rs @ [r]) s'"
proof -
  note d = scan_record_InrD [OF step]
  have ok: "table_ok (sl_executions s)" using inv by (simp add: scan_inv_def)
  have refines: "table_ok (sl_executions s')"
    "spec_step (abs_table (sl_executions s)) r = Some (abs_table (sl_executions s'))"
    using scan_transition_step [OF ok d(3)] by simp_all
  have fresh: "\<not> started_in rs (jr_execution_id r)" if "jr_kind r = HERMAS_JOURNAL_EXECUTION_STARTED"
    using inv d(2) that by (auto simp: scan_inv_def)
  have st: "state_inv (rs @ [r]) (abs_table (sl_executions s'))"
    using inv refines fresh by (intro state_inv_step) (simp_all add: scan_inv_def)
  have next_id: "jr_execution_id a < sl_next_execution_id s'" if "a \<in> set (rs @ [r])" for a
    using that inv d(6,7) word_less_plus_one [of "jr_execution_id r" "jr_execution_id a"]
    by (auto simp: scan_inv_def)
  have one: "1 \<le> sl_next_execution_id s'"
    using next_id [of r] by (simp add: word_le_nat_alt word_less_nat_alt)
  show ?thesis
    unfolding scan_inv_def
  proof (intro conjI)
    show "\<forall>a \<in> set (rs @ [r]). jr_execution_id a < sl_next_execution_id s'" using next_id by blast
    show "\<forall>x. started_in (rs @ [r]) x \<longrightarrow> x \<le> sl_largest_started_id s'"
      using inv d(2,8) by (auto simp: scan_inv_def)
    show "sorted_wrt (<) (map jr_execution_id
       (filter (\<lambda>r. jr_kind r = HERMAS_JOURNAL_EXECUTION_STARTED) (rs @ [r])))"
      using inv d(2) by (auto simp: scan_inv_def sorted_wrt_append started_in_def)
    show "\<forall>i < length (rs @ [r]). jr_sequence ((rs @ [r]) ! i) = of_nat (i + 1)"
      using inv d(1) by (auto simp: scan_inv_def nth_append less_Suc_eq)
  qed (use inv refines st d(4,5) one in \<open>simp_all add: scan_inv_def\<close>)
qed

text \<open>A failed scan never reports success.\<close>

lemma scan_errors:
  "journal_decode p \<noteq> Inl HERMAS_JOURNAL_OK"
  "scan_transition executions r \<noteq> Inl HERMAS_JOURNAL_OK"
proof -
  show "journal_decode p \<noteq> Inl HERMAS_JOURNAL_OK"
    by (auto simp: journal_decode_def Let_def)
  have "scan_kind k e r \<noteq> Inl HERMAS_JOURNAL_OK" for k e
    by (cases k) (auto simp: scan_prepared_def scan_sent_def scan_closed_def scan_finished_def Let_def
        split: option.split)
  then show "scan_transition executions r \<noteq> Inl HERMAS_JOURNAL_OK"
    by (auto simp: scan_transition_def scan_started_def Let_def split: option.split)
qed

lemma scan_record_error: "scan_record visitor s r \<noteq> Inl (HERMAS_JOURNAL_OK, c)"
  using scan_errors(2) [of "sl_executions s" r]
  by (auto simp: scan_record_def Let_def split: sum.split option.split prod.split)

lemma scan_from_error: "scan_from visitor bs off s \<noteq> Inl (HERMAS_JOURNAL_OK, c)"
proof (induction visitor bs off s rule: scan_from.induct)
  case (1 visitor bs off s)
  then show ?case
    using scan_errors(1) [of "chunk bs off 64"] scan_record_error [of visitor s]
    by (subst scan_from.simps) (auto split: sum.split)
qed

text \<open>The scan of a whole journal, as records.\<close>

lemma journal_scan_records:
  assumes "hermas_journal_scan (Some bs) (length bs) visitor c summary = (HERMAS_JOURNAL_OK, Some js, c')"
  obtains rs s where "framed journal_parse bs rs"
    and "run_records (scan_record visitor) (scan_loop_start c) rs = Inr s"
    and "scan_inv rs s" and "js = scan_summary s"
proof -
  from assms obtain s where scan: "scan_from visitor bs 0 (scan_loop_start c) = Inr s"
    and js: "js = scan_summary s"
    by (auto simp: hermas_journal_scan_def journal_scan_def scan_from_error split: if_splits sum.splits)
  from scan obtain rs where rs: "framed journal_parse bs rs"
    and run: "run_records (scan_record visitor) (scan_loop_start c) rs = Inr s"
    by (auto simp: journal_log.scan_iff)
  from run have "scan_inv rs s"
    by (rule run_records_invariant) (auto intro: scan_inv_start scan_inv_step)
  with rs run js that show thesis by blast
qed

text \<open>The loop state before and after each record of an accepted journal.\<close>

lemma scan_inv_at:
  assumes run: "run_records (scan_record visitor) (scan_loop_start c) rs = Inr s" and i: "i < length rs"
  obtains si si' where "scan_inv (take i rs) si" and "scan_record visitor si (rs ! i) = Inr si'"
proof -
  have "rs = take i rs @ rs ! i # drop (Suc i) rs" using i by (simp add: id_take_nth_drop)
  then have "run_records (scan_record visitor) (scan_loop_start c) (take i rs @ rs ! i # drop (Suc i) rs) = Inr s"
    using run by simp
  then obtain si si' where si: "run_records (scan_record visitor) (scan_loop_start c) (take i rs) = Inr si"
    "scan_record visitor si (rs ! i) = Inr si'"
    by (auto simp: run_records_append split: sum.splits)
  from si(1) have "scan_inv (take i rs) si"
    by (rule run_records_invariant) (auto intro: scan_inv_start scan_inv_step)
  with si that show thesis by blast
qed

lemma state_invD:
  "state_inv rs \<sigma> \<Longrightarrow> \<sigma> x = Some e \<Longrightarrow> execution_inv rs x e"
  "state_inv rs \<sigma> \<Longrightarrow> \<sigma> x = None \<Longrightarrow> idle_inv rs x"
  unfolding state_inv_def by (metis option.simps(5)) (metis option.simps(4))

lemma state_inv_phase: "state_inv rs \<sigma> \<Longrightarrow> delivery_phase_of rs x q \<noteq> None"
  by (cases "\<sigma> x") (auto dest: state_invD simp: execution_inv_def idle_inv_def)

lemma abs_table_active:
  assumes ok: "table_ok executions" and e: "e \<in> set (filter se_active executions)"
  shows "abs_table executions (ji_execution_id (se_value e)) = Some (abs_execution e)"
proof -
  obtain i where i: "i < 16" "executions ! i = e" "se_active e"
    using ok e by (auto simp: table_ok_def in_set_conv_nth)
  then have "find_scan_execution executions (ji_execution_id (se_value e)) = Some i"
    by (simp add: find_scan_execution_iff [OF ok])
  with i show ?thesis by (simp add: abs_table_def)
qed

lemma abs_table_dom:
  assumes ok: "table_ok executions"
  shows "abs_table executions x \<noteq> None \<longleftrightarrow> x \<in> (ji_execution_id \<circ> se_value) ` set (filter se_active executions)"
proof
  assume "abs_table executions x \<noteq> None"
  then obtain i where "find_scan_execution executions x = Some i" by (auto simp: abs_table_def)
  then have "i < length executions" "se_active (executions ! i)" "ji_execution_id (se_value (executions ! i)) = x"
    using ok find_scan_execution_SomeD [of executions x i] by (simp_all add: table_ok_def)
  then show "x \<in> (ji_execution_id \<circ> se_value) ` set (filter se_active executions)"
    by (auto simp: image_iff intro: nth_mem)
next
  assume "x \<in> (ji_execution_id \<circ> se_value) ` set (filter se_active executions)"
  then show "abs_table executions x \<noteq> None" using abs_table_active [OF ok] by auto
qed

lemma state_inv_active:
  assumes inv: "state_inv rs \<sigma>"
  shows "\<sigma> x \<noteq> None \<longleftrightarrow> started_in rs x \<and> \<not> finished_in rs x"
  using state_invD [OF inv, of x] by (cases "\<sigma> x") (auto simp: execution_inv_def idle_inv_def)

lemma live_set:
  assumes "entry_ok e"
  shows "set (map (\<lambda>d. (od_request_id d, (od_node_id d, od_app_id d, od_action_id d), od_delivery_was_sent d = 1))
      (take (ji_open_delivery_count (se_value e)) (ji_open_deliveries (se_value e)))) = set (live_deliveries e)"
proof -
  have "map (\<lambda>d. (od_request_id d, (od_node_id d, od_app_id d, od_action_id d), od_delivery_was_sent d = 1))
      (take (ji_open_delivery_count (se_value e)) (ji_open_deliveries (se_value e))) = live_deliveries e"
    using assms by (intro nth_equalityI) (auto simp: entry_ok_def live_deliveries_nth delivery_entry_def Let_def)
  then show ?thesis by simp
qed

section \<open>Properties of accepted journals\<close>

text \<open>C1: In every journal that \<open>hermas_journal_scan\<close> accepts, the records about each
  delivery (execution and request) follow the delivery life cycle: one \<open>DeliveryPrepared\<close>, then
  at most one \<open>DeliverySent\<close>, then at most one closing record, all on the same route; a
  success or an application error needs the delivery to have been sent, and \<open>NotSent\<close> needs
  it not to have been sent.\<close>

theorem accepted_journal_life_cycle:
  assumes "hermas_journal_scan (Some bs) (length bs) visitor c summary = (HERMAS_JOURNAL_OK, Some js, c')"
  shows "\<exists>rs. framed journal_parse bs rs \<and>
    (\<forall>execution_id request_id. delivery_phase_of rs execution_id request_id \<noteq> None)"
proof -
  from assms obtain rs s where "framed journal_parse bs rs"
    and "run_records (scan_record visitor) (scan_loop_start c) rs = Inr s" and "scan_inv rs s"
    by (rule journal_scan_records)
  then show ?thesis by (auto simp: scan_inv_def dest: state_inv_phase)
qed

text \<open>C2: The summary of an accepted journal names exactly the executions that started and
  did not finish, and for each of them exactly its open deliveries, with the route and
  whether the delivery had been sent.\<close>

theorem accepted_journal_interrupted:
  assumes "hermas_journal_scan (Some bs) (length bs) visitor c summary = (HERMAS_JOURNAL_OK, Some js, c')"
  shows "\<exists>rs. framed journal_parse bs rs \<and>
    ji_execution_id ` set (js_interrupted js) = {x. started_in rs x \<and> \<not> finished_in rs x} \<and>
    (\<forall>v \<in> set (js_interrupted js).
       (\<lambda>d. (od_request_id d, (od_node_id d, od_app_id d, od_action_id d), od_delivery_was_sent d = 1)) `
         set (take (ji_open_delivery_count v) (ji_open_deliveries v)) =
       {(q, route, sent). delivery_phase_of rs (ji_execution_id v) q = Some (Open route sent)})"
proof -
  from assms obtain rs s where rs: "framed journal_parse bs rs"
    and "run_records (scan_record visitor) (scan_loop_start c) rs = Inr s"
    and inv: "scan_inv rs s" and js: "js = scan_summary s"
    by (rule journal_scan_records)
  let ?ex = "sl_executions s"
  have ok: "table_ok ?ex" and st: "state_inv rs (abs_table ?ex)" using inv by (simp_all add: scan_inv_def)
  have list: "js_interrupted js = map se_value (filter se_active ?ex)"
    by (simp add: js scan_summary_def Let_def)
  have "ji_execution_id ` set (js_interrupted js) = {x. started_in rs x \<and> \<not> finished_in rs x}"
    using abs_table_dom [OF ok] state_inv_active [OF st] unfolding list by (auto simp: image_iff)
  moreover have "(\<lambda>d. (od_request_id d, (od_node_id d, od_app_id d, od_action_id d), od_delivery_was_sent d = 1)) `
         set (take (ji_open_delivery_count v) (ji_open_deliveries v)) =
       {(q, route, sent). delivery_phase_of rs (ji_execution_id v) q = Some (Open route sent)}"
    if v: "v \<in> set (js_interrupted js)" for v
  proof -
    obtain e where e: "e \<in> set (filter se_active ?ex)" "v = se_value e" using v list by auto
    have entry: "entry_ok e" using ok e by (auto simp: table_ok_def)
    have exec: "execution_inv rs (ji_execution_id v) (abs_execution e)"
      using state_invD(1) [OF st abs_table_active [OF ok e(1)]] e(2) by simp
    have "set (live_deliveries e) = {(q, d). map_of (live_deliveries e) q = Some d}"
      using entry by (auto simp: entry_ok_def)
    also have "\<dots> = {(q, route, sent). delivery_phase_of rs (ji_execution_id v) q = Some (Open route sent)}"
      using exec by (auto simp: execution_inv_def abs_execution_def open_of_Some)
    finally show ?thesis using live_set [OF entry] e(2) by simp
  qed
  ultimately show ?thesis using rs by blast
qed

text \<open>C3: An execution that an accepted journal finishes has no open delivery left, and its
  final outcome is the worst outcome its closed deliveries reported (unknown, then known
  application failure, then not sent, then success), or unknown when none reported.\<close>

theorem accepted_journal_outcome:
  assumes "hermas_journal_scan (Some bs) (length bs) visitor c summary = (HERMAS_JOURNAL_OK, Some js, c')"
  shows "\<exists>rs. framed journal_parse bs rs \<and>
    (\<forall>i < length rs. jr_kind (rs ! i) = HERMAS_JOURNAL_EXECUTION_FINISHED \<longrightarrow>
       jr_outcome (rs ! i) = (case reported_outcome (take i rs) (jr_execution_id (rs ! i)) of
           None \<Rightarrow> HERMAS_OUTCOME_UNKNOWN | Some worst \<Rightarrow> worst) \<and>
       (\<forall>q. open_of (delivery_phase_of (take i rs) (jr_execution_id (rs ! i)) q) = None))"
proof -
  from assms obtain rs s where rs: "framed journal_parse bs rs"
    and run: "run_records (scan_record visitor) (scan_loop_start c) rs = Inr s"
    by (rule journal_scan_records)
  have "jr_outcome (rs ! i) = (case reported_outcome (take i rs) (jr_execution_id (rs ! i)) of
           None \<Rightarrow> HERMAS_OUTCOME_UNKNOWN | Some worst \<Rightarrow> worst) \<and>
       (\<forall>q. open_of (delivery_phase_of (take i rs) (jr_execution_id (rs ! i)) q) = None)"
    if i: "i < length rs" and fin: "jr_kind (rs ! i) = HERMAS_JOURNAL_EXECUTION_FINISHED" for i
  proof -
    obtain si si' where inv: "scan_inv (take i rs) si" and step: "scan_record visitor si (rs ! i) = Inr si'"
      using scan_inv_at [OF run i] .
    have ok: "table_ok (sl_executions si)" and st: "state_inv (take i rs) (abs_table (sl_executions si))"
      using inv by (simp_all add: scan_inv_def)
    have "spec_step (abs_table (sl_executions si)) (rs ! i) = Some (abs_table (sl_executions si'))"
      using scan_transition_step [OF ok scan_record_InrD(3) [OF step]] by simp
    then obtain e where e: "abs_table (sl_executions si) (jr_execution_id (rs ! i)) = Some e"
      and fine: "spec_finishes e (jr_outcome (rs ! i))"
      using fin by (auto simp: spec_step_def split: option.splits if_splits)
    show ?thesis
      using fine state_invD(1) [OF st e]
      by (auto simp: execution_inv_def spec_finishes_def fun_eq_iff split: option.splits)
  qed
  with rs show ?thesis by blast
qed

text \<open>C10: Identifiers of an accepted journal: sequence numbers run from one without a gap and
  the next one is the summary's, the executions start in strictly increasing order of their
  IDs, and the next execution ID is above every ID in the journal.\<close>

theorem accepted_journal_identifiers:
  assumes "hermas_journal_scan (Some bs) (length bs) visitor c summary = (HERMAS_JOURNAL_OK, Some js, c')"
  shows "\<exists>rs. framed journal_parse bs rs \<and>
    (\<forall>i < length rs. jr_sequence (rs ! i) = of_nat (i + 1)) \<and>
    js_next_sequence js = of_nat (length rs) + 1 \<and>
    sorted_wrt (<) (map jr_execution_id (filter (\<lambda>r. jr_kind r = HERMAS_JOURNAL_EXECUTION_STARTED) rs)) \<and>
    (\<forall>r \<in> set rs. jr_execution_id r < js_next_execution_id js)"
proof -
  from assms obtain rs s where "framed journal_parse bs rs"
    and "run_records (scan_record visitor) (scan_loop_start c) rs = Inr s"
    and "scan_inv rs s" and "js = scan_summary s"
    by (rule journal_scan_records)
  then show ?thesis by (intro exI [of _ rs]) (auto simp: scan_inv_def scan_summary_def Let_def)
qed

end
