(* ===== verification/Hermas_Journal_Writer.thy ===== *)
theory Hermas_Journal_Writer
  imports Hermas_Journal_Trace
begin

text \<open>
  The sequenced journal writer of \<open>src/journal.c\<close> over an arbitrary write callback, and the
  startup recovery \<open>hermas_journal_file_close_interrupted\<close> of \<open>src/journal_linux.c\<close> that closes
  what a crash left open. What the callback does to the file is a parameter of the model.
\<close>

section \<open>The writer\<close>

type_synonym 'c journal_write = "'c \<Rightarrow> bytes \<Rightarrow> hermas_journal_result \<times> 'c"

record 'c hermas_journal_writer =
  jw_write :: "'c journal_write option"
  jw_context :: 'c
  jw_next_sequence :: u64

definition hermas_journal_writer_init ::
  "'c hermas_journal_writer option \<Rightarrow> 'c journal_write option \<Rightarrow> 'c \<Rightarrow> u64 \<Rightarrow>
   hermas_journal_result \<times> 'c hermas_journal_writer option" where
  "hermas_journal_writer_init writer write context next_sequence =
    (if writer = None \<or> write = None \<or> next_sequence = 0
     then (HERMAS_JOURNAL_INVALID_ARGUMENT, writer)
     else (HERMAS_JOURNAL_OK, Some \<lparr>jw_write = write, jw_context = context,
             jw_next_sequence = next_sequence\<rparr>))"

text \<open>The body of the append, for a writer that is there; the stack buffer is overwritten whole.\<close>

definition journal_writer_append ::
  "'c hermas_journal_writer \<Rightarrow> hermas_journal_record \<Rightarrow> hermas_journal_result \<times> 'c hermas_journal_writer" where
  "journal_writer_append w r =
    (case jw_write w of
       None \<Rightarrow> (HERMAS_JOURNAL_INVALID_ARGUMENT, w)
     | Some write \<Rightarrow>
        (if jw_next_sequence w = 0 \<or> jw_next_sequence w = - 1 then (HERMAS_JOURNAL_INVALID_ARGUMENT, w)
         else
           (case journal_encode (r\<lparr>jr_sequence := jw_next_sequence w\<rparr>)
                   (replicate HERMAS_JOURNAL_RECORD_SIZE 0) of
              (result, encoded) \<Rightarrow>
                (if result \<noteq> HERMAS_JOURNAL_OK then (result, w)
                 else
                   (case write (jw_context w) encoded of
                      (written, context) \<Rightarrow>
                        (if written \<noteq> HERMAS_JOURNAL_OK then (written, w\<lparr>jw_context := context\<rparr>)
                         else (HERMAS_JOURNAL_OK, w\<lparr>jw_context := context,
                                 jw_next_sequence := jw_next_sequence w + 1\<rparr>)))))))"

definition hermas_journal_writer_append ::
  "'c hermas_journal_writer option \<Rightarrow> hermas_journal_record \<Rightarrow>
   hermas_journal_result \<times> 'c hermas_journal_writer option" where
  "hermas_journal_writer_append writer r =
    (case writer of
       None \<Rightarrow> (HERMAS_JOURNAL_INVALID_ARGUMENT, None)
     | Some w \<Rightarrow> (let (result, w') = journal_writer_append w r in (result, Some w')))"

text \<open>A callback that, when it reports success, has appended exactly the bytes it was given.\<close>

definition appends :: "'c journal_write \<Rightarrow> ('c \<Rightarrow> bytes) \<Rightarrow> bool" where
  "appends write contents \<longleftrightarrow>
     (\<forall>c p c'. write c p = (HERMAS_JOURNAL_OK, c') \<longrightarrow> contents c' = contents c @ p)"

text \<open>
  A writer is in step with the journal when the file holds the records scanned so far and the
  writer's next sequence is the one the scan expects.
\<close>

definition in_step :: "('c \<Rightarrow> bytes) \<Rightarrow> 'c hermas_journal_writer \<Rightarrow> unit scan_loop \<Rightarrow> bool" where
  "in_step contents w s \<longleftrightarrow>
     (\<exists>write. jw_write w = Some write \<and> appends write contents) \<and>
     jw_next_sequence w = sl_next_sequence s \<and>
     scan_from None (contents (jw_context w)) 0 (scan_loop_start ()) = Inr s"

lemma journal_writer_append_OK:
  assumes "journal_writer_append w r = (HERMAS_JOURNAL_OK, w')" and "in_step contents w s"
  obtains p where "contents (jw_context w') = contents (jw_context w) @ p" and "length p = 64"
    and "journal_parse p = Inr (r\<lparr>jr_sequence := jw_next_sequence w\<rparr>, length p)"
    and "jw_write w' = jw_write w" and "jw_next_sequence w' = jw_next_sequence w + 1"
proof -
  from assms(1) obtain wr p c' where w: "jw_write w = Some wr"
    and enc: "journal_encode (r\<lparr>jr_sequence := jw_next_sequence w\<rparr>) (replicate 64 0) = (HERMAS_JOURNAL_OK, p)"
    and out: "wr (jw_context w) p = (HERMAS_JOURNAL_OK, c')"
    and w': "w' = w\<lparr>jw_context := c', jw_next_sequence := jw_next_sequence w + 1\<rparr>"
    by (auto simp: journal_writer_append_def split: option.splits if_splits prod.splits)
  have len: "length p = 64" using journal_encode_decode(3) [OF enc] by simp
  have "journal_parse p = Inr (r\<lparr>jr_sequence := jw_next_sequence w\<rparr>, length p)"
    using journal_encode_decode(1) [OF enc] len by (simp add: journal_parse_Inr)
  moreover have "contents c' = contents (jw_context w) @ p"
    using assms(2) w out by (auto simp: in_step_def appends_def)
  ultimately show thesis using that [of p] len w' by simp
qed

lemma scan_transition_sequence [simp]:
  "scan_transition executions (r\<lparr>jr_sequence := n\<rparr>) = scan_transition executions r"
proof -
  have find: "find_delivery e (r\<lparr>jr_sequence := n\<rparr>) = find_delivery e r" for e
    by (simp add: find_delivery_def route_matches_def)
  have "scan_kind k e (r\<lparr>jr_sequence := n\<rparr>) = scan_kind k e r" for k e
    by (cases k) (auto simp: scan_prepared_def scan_sent_def scan_closed_def scan_finished_def find Let_def
        split: option.split)
  moreover have "scan_started executions (r\<lparr>jr_sequence := n\<rparr>) = scan_started executions r"
    by (simp add: scan_started_def Let_def split: option.split)
  ultimately show ?thesis by (auto simp: scan_transition_def Let_def split: option.split)
qed

text \<open>Appending a record that the transition accepts keeps the writer in step.\<close>

lemma append_in_step:
  assumes step: "in_step contents w s" and app: "journal_writer_append w r = (HERMAS_JOURNAL_OK, w')"
    and ok: "scan_transition (sl_executions s) r = Inr executions"
    and not_start: "jr_kind r \<noteq> HERMAS_JOURNAL_EXECUTION_STARTED"
    and old: "jr_execution_id r < sl_next_execution_id s"
  shows "in_step contents w' (s\<lparr>sl_executions := executions, sl_record_count := sl_record_count s + 1,
           sl_next_sequence := sl_next_sequence s + 1\<rparr>)"
proof -
  obtain p where p: "contents (jw_context w') = contents (jw_context w) @ p"
    "journal_parse p = Inr (r\<lparr>jr_sequence := jw_next_sequence w\<rparr>, length p)"
    "jw_write w' = jw_write w" "jw_next_sequence w' = jw_next_sequence w + 1"
    using journal_writer_append_OK [OF app step] by metis
  have "scan_record None s (r\<lparr>jr_sequence := jw_next_sequence w\<rparr>) =
      Inr (s\<lparr>sl_executions := executions, sl_record_count := sl_record_count s + 1,
           sl_next_sequence := sl_next_sequence s + 1\<rparr>)"
    using step ok not_start old linorder_not_le [THEN iffD2, OF old] by (simp add: scan_record_def in_step_def Let_def)
  then show ?thesis
    using step p journal_log.scan_extend [OF _ p(2)] by (auto simp: in_step_def)
qed

section \<open>Closing what a crash left open\<close>

record 'c hermas_journal_file =
  jf_file_descriptor :: int
  jf_writer :: "'c hermas_journal_writer"

definition unknown_record :: "hermas_journal_interrupted \<Rightarrow> hermas_journal_open_delivery \<Rightarrow> hermas_journal_record" where
  "unknown_record interrupted delivery =
    \<lparr>jr_kind = HERMAS_JOURNAL_ACTION_UNKNOWN, jr_outcome = HERMAS_OUTCOME_UNKNOWN, jr_sequence = 0,
     jr_execution_id = ji_execution_id interrupted, jr_workflow_id = ji_workflow_id interrupted,
     jr_request_id = od_request_id delivery, jr_node_id = od_node_id delivery,
     jr_app_id = od_app_id delivery, jr_action_id = od_action_id delivery,
     jr_image_fingerprint = ji_image_fingerprint interrupted\<rparr>"

definition finished_record :: "hermas_journal_interrupted \<Rightarrow> hermas_journal_record" where
  "finished_record interrupted =
    \<lparr>jr_kind = HERMAS_JOURNAL_EXECUTION_FINISHED, jr_outcome = HERMAS_OUTCOME_UNKNOWN, jr_sequence = 0,
     jr_execution_id = ji_execution_id interrupted, jr_workflow_id = ji_workflow_id interrupted,
     jr_request_id = 0, jr_node_id = 0, jr_app_id = 0, jr_action_id = 0,
     jr_image_fingerprint = ji_image_fingerprint interrupted\<rparr>"

text \<open>The inner and the outer loop; an append that fails returns at once.\<close>

fun close_deliveries ::
  "'c hermas_journal_writer \<Rightarrow> hermas_journal_interrupted \<Rightarrow> hermas_journal_open_delivery list \<Rightarrow>
   hermas_journal_result \<times> 'c hermas_journal_writer" where
  "close_deliveries w interrupted [] = (HERMAS_JOURNAL_OK, w)"
| "close_deliveries w interrupted (d # ds) =
    (case journal_writer_append w (unknown_record interrupted d) of
       (appended, w') \<Rightarrow>
         if appended \<noteq> HERMAS_JOURNAL_OK then (appended, w') else close_deliveries w' interrupted ds)"

fun close_executions ::
  "'c hermas_journal_writer \<Rightarrow> hermas_journal_interrupted list \<Rightarrow> nat \<Rightarrow>
   hermas_journal_result \<times> 'c hermas_journal_writer \<times> nat" where
  "close_executions w [] closed = (HERMAS_JOURNAL_OK, w, closed)"
| "close_executions w (v # vs) closed =
    (case close_deliveries w v (take (ji_open_delivery_count v) (ji_open_deliveries v)) of
       (appended, w') \<Rightarrow>
         if appended \<noteq> HERMAS_JOURNAL_OK then (appended, w', closed)
         else
           (case journal_writer_append w' (finished_record v) of
              (finished, w'') \<Rightarrow>
                if finished \<noteq> HERMAS_JOURNAL_OK then (finished, w'', closed)
                else close_executions w'' vs (closed + 1)))"

definition hermas_journal_file_close_interrupted ::
  "'c hermas_journal_file option \<Rightarrow> hermas_journal_summary option \<Rightarrow> nat option \<Rightarrow>
   hermas_journal_result \<times> 'c hermas_journal_file option \<times> nat option" where
  "hermas_journal_file_close_interrupted file summary closed_count =
    (case (file, summary, closed_count) of
       (Some f, Some js, Some _) \<Rightarrow>
         (if jf_file_descriptor f < 0 then (HERMAS_JOURNAL_INVALID_ARGUMENT, file, closed_count)
          else (case close_executions (jf_writer f)
                       (take (js_interrupted_count js) (js_interrupted js)) 0 of
                  (result, w, closed) \<Rightarrow> (result, Some (f\<lparr>jf_writer := w\<rparr>), Some closed)))
     | _ \<Rightarrow> (HERMAS_JOURNAL_INVALID_ARGUMENT, file, closed_count))"


section \<open>Recovery leaves an accepted journal\<close>

text \<open>Closing the first open delivery of an entry as unknown.\<close>

lemma scan_closed_unknown:
  assumes ok: "entry_ok e" and n: "0 < ji_open_delivery_count (se_value e)"
    and active: "se_active e"
  shows "\<exists>e'. scan_closed e (unknown_record (se_value e) (ji_open_deliveries (se_value e) ! 0)) = Inr e' \<and>
    entry_ok e' \<and> se_active e' \<and>
    ji_execution_id (se_value e') = ji_execution_id (se_value e) \<and>
    ji_workflow_id (se_value e') = ji_workflow_id (se_value e) \<and>
    ji_image_fingerprint (se_value e') = ji_image_fingerprint (se_value e) \<and>
    se_has_action_outcome e' \<and> se_terminal_outcome e' = HERMAS_OUTCOME_UNKNOWN \<and>
    ji_open_delivery_count (se_value e') = ji_open_delivery_count (se_value e) - 1 \<and>
    take (ji_open_delivery_count (se_value e')) (ji_open_deliveries (se_value e')) =
      drop 1 (take (ji_open_delivery_count (se_value e)) (ji_open_deliveries (se_value e)))"
proof -
  let ?r = "unknown_record (se_value e) (ji_open_deliveries (se_value e) ! 0)"
  have found: "find_delivery e ?r = Some 0"
    using n by (simp add: find_delivery_def first_index_Some route_matches_def unknown_record_def)
  have out: "(if \<not> se_has_action_outcome e \<or> outcome_precedence (jr_outcome ?r) >
       outcome_precedence (se_terminal_outcome e) then jr_outcome ?r else se_terminal_outcome e) =
       HERMAS_OUTCOME_UNKNOWN"
    by (simp add: outcome_precedence_def unknown_record_def)
  have kind: "jr_kind ?r = HERMAS_JOURNAL_ACTION_UNKNOWN" by (simp add: unknown_record_def)
  obtain e' where e': "scan_closed e ?r = Inr e'"
    using found kind by (simp add: scan_closed_def Let_def)
  have len: "ji_open_delivery_count (se_value e) \<le> length (ji_open_deliveries (se_value e))"
    using ok by (simp add: entry_ok_def)
  then have "take (ji_open_delivery_count (se_value e) - 1)
      (shift_down 0 (ji_open_delivery_count (se_value e) - 1) (ji_open_deliveries (se_value e))) =
      drop 1 (take (ji_open_delivery_count (se_value e)) (ji_open_deliveries (se_value e)))"
    using n by (simp add: take_shift_down)
  moreover have "e' = e\<lparr>se_value := (se_value e)\<lparr>ji_open_delivery_count := ji_open_delivery_count (se_value e) - 1,
        ji_open_deliveries := shift_down 0 (ji_open_delivery_count (se_value e) - 1) (ji_open_deliveries (se_value e))\<rparr>,
      se_deliveries := shift_down 0 (ji_open_delivery_count (se_value e) - 1) (se_deliveries e),
      se_terminal_outcome := HERMAS_OUTCOME_UNKNOWN, se_has_action_outcome := True\<rparr>"
    using e' found kind unfolding scan_closed_def Let_def out by simp
  ultimately show ?thesis
    using scan_closed_refines(1,2) [OF ok active e'] e' by (intro exI [of _ e']) simp
qed

lemma scan_transition_at:
  assumes ok: "table_ok executions" and i: "i < 16" "se_active (executions ! i)"
    and id: "jr_execution_id r = ji_execution_id (se_value (executions ! i))"
    and same: "jr_workflow_id r = ji_workflow_id (se_value (executions ! i))"
      "jr_image_fingerprint r = ji_image_fingerprint (se_value (executions ! i))"
    and kind: "jr_kind r \<noteq> HERMAS_JOURNAL_EXECUTION_STARTED"
  shows "scan_transition executions r =
    map_sum id (\<lambda>e'. executions[i := e']) (scan_kind (jr_kind r) (executions ! i) r)"
proof -
  have "find_scan_execution executions (jr_execution_id r) = Some i"
    using i id by (simp add: find_scan_execution_iff [OF ok])
  then show ?thesis using same kind by (simp add: scan_transition_def Let_def)
qed

text \<open>The executions whose recovery the scan accepts: open deliveries remain, or nothing worse than
  unknown has been reported.\<close>

definition closable :: "scan_execution \<Rightarrow> bool" where
  "closable e \<longleftrightarrow> 0 < ji_open_delivery_count (se_value e) \<or>
     \<not> se_has_action_outcome e \<or> se_terminal_outcome e = HERMAS_OUTCOME_UNKNOWN"

definition with_table :: "unit scan_loop \<Rightarrow> scan_execution list \<Rightarrow> nat \<Rightarrow> unit scan_loop" where
  "with_table s executions k = s\<lparr>sl_executions := executions,
     sl_record_count := sl_record_count s + of_nat k, sl_next_sequence := sl_next_sequence s + of_nat k\<rparr>"

lemma with_table_simps [simp]:
  "sl_executions (with_table s ex k) = ex"
  "sl_next_execution_id (with_table s ex k) = sl_next_execution_id s"
  "with_table (with_table s ex k) ex' k' = with_table s ex' (k + k')"
  "with_table s (sl_executions s) 0 = s"
  by (simp_all add: with_table_def add.assoc)

lemma append_with_table:
  assumes "in_step contents w s" and "journal_writer_append w r = (HERMAS_JOURNAL_OK, w')"
    and "scan_transition (sl_executions s) r = Inr executions"
    and "jr_kind r \<noteq> HERMAS_JOURNAL_EXECUTION_STARTED" and "jr_execution_id r < sl_next_execution_id s"
  shows "in_step contents w' (with_table s executions 1)"
  using append_in_step [OF assms] by (simp add: with_table_def)

text \<open>Closing every open delivery of one entry.\<close>

lemma close_deliveries_in_step:
  assumes "in_step contents w s" and "table_ok (sl_executions s)" and "i < 16"
    and "se_active (sl_executions s ! i)"
    and "ds = take (ji_open_delivery_count (se_value (sl_executions s ! i)))
                (ji_open_deliveries (se_value (sl_executions s ! i)))"
    and "ji_execution_id v = ji_execution_id (se_value (sl_executions s ! i))"
    and "ji_workflow_id v = ji_workflow_id (se_value (sl_executions s ! i))"
    and "ji_image_fingerprint v = ji_image_fingerprint (se_value (sl_executions s ! i))"
    and "ji_execution_id v < sl_next_execution_id s"
    and "close_deliveries w v ds = (HERMAS_JOURNAL_OK, w')"
  shows "\<exists>e'. in_step contents w' (with_table s ((sl_executions s)[i := e']) (length ds)) \<and>
    table_ok ((sl_executions s)[i := e']) \<and> se_active e' \<and>
    ji_execution_id (se_value e') = ji_execution_id v \<and> ji_workflow_id (se_value e') = ji_workflow_id v \<and>
    ji_image_fingerprint (se_value e') = ji_image_fingerprint v \<and>
    ji_open_delivery_count (se_value e') = 0 \<and>
    (if ds = [] then e' = sl_executions s ! i
     else se_has_action_outcome e' \<and> se_terminal_outcome e' = HERMAS_OUTCOME_UNKNOWN)"
  using assms
proof (induction ds arbitrary: w s)
  case Nil
  have "ji_open_delivery_count (se_value (sl_executions s ! i)) \<le>
      length (ji_open_deliveries (se_value (sl_executions s ! i)))"
    using table_ok_entry [OF Nil.prems(2,3)] by (simp add: entry_ok_def)
  then show ?case
    using Nil.prems by (intro exI [of _ "sl_executions s ! i"]) auto
next
  case (Cons d ds)
  let ?e = "sl_executions s ! i"
  note ok = Cons.prems(2) and i = Cons.prems(3,4)
  have entry: "entry_ok ?e" by (rule table_ok_entry [OF ok i(1)])
  have n: "0 < ji_open_delivery_count (se_value ?e)" and d: "d = ji_open_deliveries (se_value ?e) ! 0"
    and ds: "ds = drop 1 (take (ji_open_delivery_count (se_value ?e)) (ji_open_deliveries (se_value ?e)))"
    using Cons.prems(5) by (cases "ji_open_deliveries (se_value ?e)"; cases "ji_open_delivery_count (se_value ?e)"; simp)+
  have rec: "unknown_record v d = unknown_record (se_value ?e) (ji_open_deliveries (se_value ?e) ! 0)"
    using Cons.prems(6-8) d by (simp add: unknown_record_def)
  obtain w1 where app: "journal_writer_append w (unknown_record v d) = (HERMAS_JOURNAL_OK, w1)"
    and rest: "close_deliveries w1 v ds = (HERMAS_JOURNAL_OK, w')"
    using Cons.prems(10) by (auto split: prod.splits if_splits)
  obtain e1 where e1: "scan_closed ?e (unknown_record v d) = Inr e1" and e1_ok: "entry_ok e1" "se_active e1"
    and same: "ji_execution_id (se_value e1) = ji_execution_id (se_value ?e)"
      "ji_workflow_id (se_value e1) = ji_workflow_id (se_value ?e)"
      "ji_image_fingerprint (se_value e1) = ji_image_fingerprint (se_value ?e)"
    and out: "se_has_action_outcome e1" "se_terminal_outcome e1 = HERMAS_OUTCOME_UNKNOWN"
    and live: "take (ji_open_delivery_count (se_value e1)) (ji_open_deliveries (se_value e1)) = ds"
    using scan_closed_unknown [OF entry n i(2)] unfolding rec ds by blast
  let ?s1 = "with_table s ((sl_executions s)[i := e1]) 1"
  have kind: "jr_kind (unknown_record v d) = HERMAS_JOURNAL_ACTION_UNKNOWN"
    and ids: "jr_execution_id (unknown_record v d) = ji_execution_id (se_value ?e)"
      "jr_workflow_id (unknown_record v d) = ji_workflow_id (se_value ?e)"
      "jr_image_fingerprint (unknown_record v d) = ji_image_fingerprint (se_value ?e)"
    using Cons.prems(6-8) by (simp_all add: unknown_record_def)
  have trans: "scan_transition (sl_executions s) (unknown_record v d) = Inr ((sl_executions s)[i := e1])"
    using scan_transition_at [OF ok i ids] kind e1 by simp
  have step1: "in_step contents w1 ?s1"
    using append_with_table [OF Cons.prems(1) app trans] kind ids Cons.prems(6,9) by simp
  have len: "i < length (sl_executions s)" using ok i by (simp add: table_ok_def)
  have ok1: "table_ok ((sl_executions s)[i := e1])"
    using scan_transition_step [OF ok trans] by simp
  have "\<exists>e'. in_step contents w' (with_table ?s1 ((sl_executions ?s1)[i := e']) (length ds)) \<and>
    table_ok ((sl_executions ?s1)[i := e']) \<and> se_active e' \<and>
    ji_execution_id (se_value e') = ji_execution_id v \<and> ji_workflow_id (se_value e') = ji_workflow_id v \<and>
    ji_image_fingerprint (se_value e') = ji_image_fingerprint v \<and>
    ji_open_delivery_count (se_value e') = 0 \<and>
    (if ds = [] then e' = sl_executions ?s1 ! i
     else se_has_action_outcome e' \<and> se_terminal_outcome e' = HERMAS_OUTCOME_UNKNOWN)"
    using Cons.prems(6-9) ok1 i e1_ok same live step1 rest len by (intro Cons.IH) auto
  then obtain e' where "in_step contents w' (with_table ?s1 ((sl_executions ?s1)[i := e']) (length ds))"
    "table_ok ((sl_executions ?s1)[i := e'])" "se_active e'"
    "ji_execution_id (se_value e') = ji_execution_id v" "ji_workflow_id (se_value e') = ji_workflow_id v"
    "ji_image_fingerprint (se_value e') = ji_image_fingerprint v"
    "ji_open_delivery_count (se_value e') = 0"
    "if ds = [] then e' = sl_executions ?s1 ! i
     else se_has_action_outcome e' \<and> se_terminal_outcome e' = HERMAS_OUTCOME_UNKNOWN"
    by blast
  then show ?case using out len by (intro exI [of _ e']) (auto split: if_splits)
qed

text \<open>Closing one interrupted execution frees its table entry.\<close>

lemma close_execution_in_step:
  assumes step: "in_step contents w s" and ok: "table_ok (sl_executions s)" and i: "i < 16"
    and active: "se_active (sl_executions s ! i)" and closable: "closable (sl_executions s ! i)"
    and v: "v = se_value (sl_executions s ! i)" and old: "ji_execution_id v < sl_next_execution_id s"
    and close: "close_deliveries w v (take (ji_open_delivery_count v) (ji_open_deliveries v)) = (HERMAS_JOURNAL_OK, w1)"
    and finish: "journal_writer_append w1 (finished_record v) = (HERMAS_JOURNAL_OK, w2)"
  shows "\<exists>k. in_step contents w2 (with_table s ((sl_executions s)[i := zero_scan_execution]) k) \<and>
    table_ok ((sl_executions s)[i := zero_scan_execution])"
proof -
  let ?ds = "take (ji_open_delivery_count v) (ji_open_deliveries v)"
  obtain e' where step1: "in_step contents w1 (with_table s ((sl_executions s)[i := e']) (length ?ds))"
    and ok1: "table_ok ((sl_executions s)[i := e'])" and active1: "se_active e'"
    and id: "ji_execution_id (se_value e') = ji_execution_id v" "ji_workflow_id (se_value e') = ji_workflow_id v"
      "ji_image_fingerprint (se_value e') = ji_image_fingerprint v"
    and empty: "ji_open_delivery_count (se_value e') = 0"
    and out: "if ?ds = [] then e' = sl_executions s ! i
       else se_has_action_outcome e' \<and> se_terminal_outcome e' = HERMAS_OUTCOME_UNKNOWN"
    using close_deliveries_in_step [OF step ok i active _ _ _ _ _ close] v old by auto
  have len: "i < length (sl_executions s)" using ok i by (simp add: table_ok_def)
  have "\<not> se_has_action_outcome e' \<or> se_terminal_outcome e' = HERMAS_OUTCOME_UNKNOWN"
    using out empty closable by (auto simp: closable_def split: if_splits)
  then have fin: "scan_finished e' (finished_record v) = Inr zero_scan_execution"
    using empty by (auto simp: scan_finished_def finished_record_def)
  have kind: "jr_kind (finished_record v) = HERMAS_JOURNAL_EXECUTION_FINISHED"
    and ids: "jr_execution_id (finished_record v) = ji_execution_id v"
      "jr_workflow_id (finished_record v) = ji_workflow_id v"
      "jr_image_fingerprint (finished_record v) = ji_image_fingerprint v"
    by (simp_all add: finished_record_def)
  have trans: "scan_transition ((sl_executions s)[i := e']) (finished_record v) =
      Inr ((sl_executions s)[i := zero_scan_execution])"
    using scan_transition_at [OF ok1 i, of "finished_record v"] active1 id ids kind fin len by simp
  have "in_step contents w2 (with_table s ((sl_executions s)[i := zero_scan_execution]) (length ?ds + 1))"
    using append_with_table [OF step1 finish, simplified, OF trans] kind ids old by simp
  moreover have "table_ok ((sl_executions s)[i := zero_scan_execution])"
    using scan_transition_step [OF ok1 trans] by simp
  ultimately show ?thesis by blast
qed

lemma table_all_free:
  assumes "table_ok executions" and "filter se_active executions = []"
  shows "executions = replicate 16 zero_scan_execution"
proof (rule nth_equalityI)
  show "length executions = length (replicate 16 zero_scan_execution)"
    using assms(1) by (simp add: table_ok_def)
  show "executions ! i = replicate 16 zero_scan_execution ! i" if "i < length executions" for i
    using assms that by (auto simp: table_ok_def entry_ok_def filter_empty_conv)
qed

lemma close_executions_in_step:
  assumes "in_step contents w s" and "table_ok (sl_executions s)"
    and "vs = map se_value (filter se_active (sl_executions s))"
    and "\<forall>e \<in> set (sl_executions s). se_active e \<longrightarrow>
           closable e \<and> ji_execution_id (se_value e) < sl_next_execution_id s"
    and "close_executions w vs closed = (HERMAS_JOURNAL_OK, w', closed')"
  shows "\<exists>k. in_step contents w' (with_table s (replicate 16 zero_scan_execution) k) \<and>
    closed' = closed + length vs"
  using assms
proof (induction vs arbitrary: w s closed)
  case Nil
  then have "sl_executions s = replicate 16 zero_scan_execution"
    by (intro table_all_free) simp_all
  then have "with_table s (replicate 16 zero_scan_execution) 0 = s" by (metis with_table_simps(4))
  with Nil show ?case by (intro exI [of _ 0]) simp
next
  case (Cons v vs)
  from Cons.prems(3) obtain us e ws where ex: "sl_executions s = us @ e # ws"
    and us: "\<forall>u \<in> set us. \<not> se_active u" and e: "se_active e" "v = se_value e"
    and vs: "vs = map se_value (filter se_active ws)"
    by (auto simp: filter_eq_Cons_iff map_eq_Cons_conv Cons_eq_map_conv)
  let ?i = "length us"
  have i: "?i < 16" using Cons.prems(2) ex by (simp add: table_ok_def)
  have at: "sl_executions s ! ?i = e" by (simp add: ex)
  obtain w1 w2 where close: "close_deliveries w v (take (ji_open_delivery_count v) (ji_open_deliveries v)) = (HERMAS_JOURNAL_OK, w1)"
    and finish: "journal_writer_append w1 (finished_record v) = (HERMAS_JOURNAL_OK, w2)"
    and rest: "close_executions w2 vs (closed + 1) = (HERMAS_JOURNAL_OK, w', closed')"
    using Cons.prems(5) by (auto split: prod.splits if_splits)
  have e_ok: "closable e" "ji_execution_id v < sl_next_execution_id s"
    using Cons.prems(4) e by (simp_all add: ex)
  obtain k where step2: "in_step contents w2 (with_table s ((sl_executions s)[?i := zero_scan_execution]) k)"
    and ok2: "table_ok ((sl_executions s)[?i := zero_scan_execution])"
    using close_execution_in_step [OF Cons.prems(1,2) i, of v] at e e_ok close finish by blast
  let ?s2 = "with_table s ((sl_executions s)[?i := zero_scan_execution]) k"
  have table: "(sl_executions s)[?i := zero_scan_execution] = us @ zero_scan_execution # ws"
    by (simp add: ex)
  have zero: "\<not> se_active zero_scan_execution" by (simp add: zero_scan_execution_def)
  have "\<exists>k'. in_step contents w' (with_table ?s2 (replicate 16 zero_scan_execution) k') \<and>
      closed' = closed + 1 + length vs"
  proof (rule Cons.IH [OF step2])
    show "vs = map se_value (filter se_active (sl_executions ?s2))"
      using us vs zero by (simp add: table)
    show "\<forall>e \<in> set (sl_executions ?s2). se_active e \<longrightarrow>
           closable e \<and> ji_execution_id (se_value e) < sl_next_execution_id ?s2"
      using Cons.prems(4) zero unfolding with_table_simps table by (simp add: ex)
  qed (use ok2 rest in simp_all)
  then show ?case by auto
qed

lemma in_step_scan_OK:
  assumes "in_step contents w s" and "length (contents (jw_context w)) mod 64 = 0"
  shows "hermas_journal_scan (Some (contents (jw_context w))) (length (contents (jw_context w))) None () (Some old) =
    (HERMAS_JOURNAL_OK, Some (scan_summary s), sl_context s)"
  using assms by (simp add: in_step_def hermas_journal_scan_def journal_scan_def)

lemma framed_journal_length: "framed journal_parse bs rs \<Longrightarrow> length bs = 64 * length rs"
proof (induction rule: framed.induct)
  case framed_nil
  then show ?case by simp
next
  case (framed_cons bs r n rs)
  then have "n = 64" "64 \<le> length bs"
    using journal_log.parse_size [of bs r n] by (simp_all add: journal_parse_Inr)
  then show ?case using framed_cons by simp
qed

lemma in_step_length:
  "in_step contents w s \<Longrightarrow> length (contents (jw_context w)) mod 64 = 0"
  using framed_journal_length by (fastforce simp: in_step_def journal_log.scan_iff)

text \<open>The loop state behind a successful scan, and the entries its summary lists.\<close>

lemma journal_scan_state:
  assumes "hermas_journal_scan (Some bs) (length bs) None () (Some old) = (HERMAS_JOURNAL_OK, Some js, ())"
    and "framed journal_parse bs rs"
  obtains s where "scan_from None bs 0 (scan_loop_start ()) = Inr s" and "scan_inv rs s" and "js = scan_summary s"
proof -
  obtain ts s where ts: "framed journal_parse bs ts"
    and run: "run_records (scan_record None) (scan_loop_start ()) ts = Inr s"
    and inv: "scan_inv ts s" and js: "js = scan_summary s"
    using assms(1) by (rule journal_scan_records)
  have "ts = rs" using ts assms(2) by (rule journal_log.framed_unique)
  moreover have "scan_from None bs 0 (scan_loop_start ()) = Inr s"
    using ts run unfolding journal_log.scan_iff by blast
  ultimately show thesis using that inv js by blast
qed

lemma scan_inv_active:
  assumes inv: "scan_inv rs s" and e: "e \<in> set (filter se_active (sl_executions s))"
  shows "ji_execution_id (se_value e) < sl_next_execution_id s"
    and "reported_outcome rs (ji_execution_id (se_value e)) =
           (if se_has_action_outcome e then Some (se_terminal_outcome e) else None)"
proof -
  have "execution_inv rs (ji_execution_id (se_value e)) (abs_execution e)"
    using inv abs_table_active [OF _ e] state_invD(1) by (fastforce simp: scan_inv_def)
  then have "started_in rs (ji_execution_id (se_value e))"
    "sp_outcome (abs_execution e) = reported_outcome rs (ji_execution_id (se_value e))"
    by (simp_all add: execution_inv_def)
  then show "ji_execution_id (se_value e) < sl_next_execution_id s"
    and "reported_outcome rs (ji_execution_id (se_value e)) =
           (if se_has_action_outcome e then Some (se_terminal_outcome e) else None)"
    using inv by (auto simp: scan_inv_def started_in_def abs_execution_def)
qed

text \<open>C5: Recovery works: on an accepted journal in which every interrupted execution has an
  open delivery, or has reported no outcome but unknown, a successful
  \<open>hermas_journal_file_close_interrupted\<close> closes all of them and leaves a journal that the next
  startup accepts with nothing interrupted and the same next execution ID.\<close>

theorem close_interrupted_recovers:
  assumes scan: "hermas_journal_scan (Some bs) (length bs) None () (Some old) = (HERMAS_JOURNAL_OK, Some js, ())"
    and rs: "framed journal_parse bs rs"
    and stored: "contents (jw_context (jf_writer f)) = bs" "jw_write (jf_writer f) = Some wr" "appends wr contents"
      "jw_next_sequence (jf_writer f) = js_next_sequence js"
    and crash: "\<forall>v \<in> set (js_interrupted js). 0 < ji_open_delivery_count v \<or>
      reported_outcome rs (ji_execution_id v) \<in> {None, Some HERMAS_OUTCOME_UNKNOWN}"
    and close: "hermas_journal_file_close_interrupted (Some f) (Some js) (Some n) =
      (HERMAS_JOURNAL_OK, Some f', Some closed)"
  shows "closed = js_interrupted_count js \<and>
    (\<exists>js'. hermas_journal_scan (Some (contents (jw_context (jf_writer f'))))
        (length (contents (jw_context (jf_writer f')))) None () (Some old) = (HERMAS_JOURNAL_OK, Some js', ()) \<and>
      js_interrupted js' = [] \<and> js_next_execution_id js' = js_next_execution_id js)"
proof -
  obtain s where s: "scan_from None bs 0 (scan_loop_start ()) = Inr s" and inv: "scan_inv rs s"
    and js: "js = scan_summary s"
    using journal_scan_state [OF scan rs] .
  have step: "in_step contents (jf_writer f) s"
    using stored s by (simp add: in_step_def js scan_summary_def Let_def)
  have good: "closable e \<and> ji_execution_id (se_value e) < sl_next_execution_id s"
    if "e \<in> set (sl_executions s)" "se_active e" for e
    using scan_inv_active [OF inv, of e] crash that
    by (fastforce simp: js scan_summary_def Let_def closable_def split: if_splits)
  have "close_executions (jf_writer f) (map se_value (filter se_active (sl_executions s))) 0 =
      (HERMAS_JOURNAL_OK, jf_writer f', closed)"
    using close by (auto simp: hermas_journal_file_close_interrupted_def js scan_summary_def Let_def
        split: if_splits prod.splits)
  then obtain k where k: "in_step contents (jf_writer f') (with_table s (replicate 16 zero_scan_execution) k)"
    and closed: "closed = length (filter se_active (sl_executions s))"
    using close_executions_in_step [OF step] inv good by (fastforce simp: scan_inv_def)
  have "js_interrupted (scan_summary (with_table s (replicate 16 zero_scan_execution) k)) = []"
    "js_next_execution_id (scan_summary (with_table s (replicate 16 zero_scan_execution) k)) = js_next_execution_id js"
    by (simp_all add: scan_summary_def Let_def js zero_scan_execution_def)
  then show ?thesis
    using in_step_scan_OK [OF k in_step_length [OF k]] closed
    by (simp add: js scan_summary_def Let_def)
qed

text \<open>C6: Recovery breaks the journal when the crash fell between a reported outcome and the next
  record: if the one interrupted execution has no open delivery and its worst reported outcome
  is not unknown, the records that a successful \<open>hermas_journal_file_close_interrupted\<close> appends
  make the next startup refuse the journal with an invalid transition.\<close>

theorem close_interrupted_refused:
  assumes scan: "hermas_journal_scan (Some bs) (length bs) None () (Some old) = (HERMAS_JOURNAL_OK, Some js, ())"
    and rs: "framed journal_parse bs rs"
    and stored: "contents (jw_context (jf_writer f)) = bs" "jw_write (jf_writer f) = Some wr" "appends wr contents"
      "jw_next_sequence (jf_writer f) = js_next_sequence js"
    and crash: "js_interrupted js = [v]" "ji_open_delivery_count v = 0"
      "reported_outcome rs (ji_execution_id v) = Some worst" "worst \<noteq> HERMAS_OUTCOME_UNKNOWN"
    and close: "hermas_journal_file_close_interrupted (Some f) (Some js) (Some n) =
      (HERMAS_JOURNAL_OK, Some f', Some closed)"
  shows "hermas_journal_scan (Some (contents (jw_context (jf_writer f'))))
      (length (contents (jw_context (jf_writer f')))) None () (Some old) =
    (HERMAS_JOURNAL_INVALID_TRANSITION, Some old, ())"
proof -
  obtain s where s: "scan_from None bs 0 (scan_loop_start ()) = Inr s" and inv: "scan_inv rs s"
    and js: "js = scan_summary s"
    using journal_scan_state [OF scan rs] .
  have step: "in_step contents (jf_writer f) s"
    using stored s by (simp add: in_step_def js scan_summary_def Let_def)
  have "v \<in> set (map se_value (filter se_active (sl_executions s)))"
    using crash(1) by (simp add: js scan_summary_def Let_def)
  then obtain e where e: "e \<in> set (filter se_active (sl_executions s))" and v: "v = se_value e" by auto
  have ok: "table_ok (sl_executions s)" using inv by (simp add: scan_inv_def)
  obtain i where i: "i < 16" "sl_executions s ! i = e" "se_active e"
    using e ok by (auto simp: table_ok_def in_set_conv_nth)
  have "close_executions (jf_writer f) [v] 0 = (HERMAS_JOURNAL_OK, jf_writer f', closed)"
    using close crash(1) by (auto simp: hermas_journal_file_close_interrupted_def js scan_summary_def Let_def
        split: if_splits prod.splits)
  then have app: "journal_writer_append (jf_writer f) (finished_record v) = (HERMAS_JOURNAL_OK, jf_writer f')"
    using crash(2) by (auto split: prod.splits if_splits)
  obtain p where p: "contents (jw_context (jf_writer f')) = bs @ p" "length p = 64"
    "journal_parse p = Inr ((finished_record v)\<lparr>jr_sequence := sl_next_sequence s\<rparr>, length p)"
    using journal_writer_append_OK [OF app step] stored(1) step by (metis in_step_def)
  have out: "se_has_action_outcome e" "se_terminal_outcome e \<noteq> HERMAS_OUTCOME_UNKNOWN"
    using scan_inv_active(2) [OF inv e] crash(3,4) v by (auto split: if_splits)
  have refused: "scan_finished e (finished_record v) = Inl HERMAS_JOURNAL_INVALID_TRANSITION"
    using out by (simp add: scan_finished_def finished_record_def)
  have kind: "jr_kind (finished_record v) = HERMAS_JOURNAL_EXECUTION_FINISHED"
    and ids: "jr_execution_id (finished_record v) = ji_execution_id v"
      "jr_workflow_id (finished_record v) = ji_workflow_id v"
      "jr_image_fingerprint (finished_record v) = ji_image_fingerprint v"
    by (simp_all add: finished_record_def)
  have "scan_transition (sl_executions s) (finished_record v) = Inl HERMAS_JOURNAL_INVALID_TRANSITION"
    using scan_transition_at [OF ok i(1), of "finished_record v"] i ids v kind refused by simp
  then have "scan_record None s ((finished_record v)\<lparr>jr_sequence := sl_next_sequence s\<rparr>) =
      Inl (HERMAS_JOURNAL_INVALID_TRANSITION, ())"
    using kind by (simp add: scan_record_def Let_def)
  then have "scan_from None p 0 s = Inl (HERMAS_JOURNAL_INVALID_TRANSITION, ())"
    using journal_log.scan_cons [of p None s] p by (cases "p = []") auto
  then have bad: "scan_from None (bs @ p) 0 (scan_loop_start ()) = Inl (HERMAS_JOURNAL_INVALID_TRANSITION, ())"
    using journal_log.scan_append [OF s] by simp
  have "length (bs @ p) mod 64 = 0" using p(2) framed_journal_length [OF rs] by simp
  then show ?thesis using bad unfolding p(1) hermas_journal_scan_def journal_scan_def by simp
qed

end
