(* ===== verification/Hermas_Journal_Samples.thy ===== *)
theory Hermas_Journal_Samples
  imports Hermas_Journal_Writer
begin

text \<open>
  A small concrete journal (one execution, one delivery) on which the hypotheses of the journal
  properties hold, evaluated in the kernel; the witnesses of those properties.
\<close>

definition sample_record :: "hermas_journal_kind \<Rightarrow> u16 \<Rightarrow> u64 \<Rightarrow> hermas_journal_record" where
  "sample_record kind out sequence =
    \<lparr>jr_kind = kind, jr_outcome = out, jr_sequence = sequence, jr_execution_id = 41, jr_workflow_id = 7,
     jr_request_id = (if is_action_record kind then 1 else 0),
     jr_node_id = (if is_action_record kind then 2 else 0),
     jr_app_id = (if is_action_record kind then 3 else 0),
     jr_action_id = (if is_action_record kind then 4 else 0), jr_image_fingerprint = 99\<rparr>"

definition encoded :: "hermas_journal_record \<Rightarrow> bytes" where
  "encoded r = snd (journal_encode r (replicate 64 0))"

definition sample_started :: hermas_journal_record where
  "sample_started = sample_record HERMAS_JOURNAL_EXECUTION_STARTED 0 1"
definition sample_prepared :: hermas_journal_record where
  "sample_prepared = sample_record HERMAS_JOURNAL_DELIVERY_PREPARED 0 2"
definition sample_sent :: hermas_journal_record where
  "sample_sent = sample_record HERMAS_JOURNAL_DELIVERY_SENT 0 3"
definition sample_succeeded :: hermas_journal_record where
  "sample_succeeded = sample_record HERMAS_JOURNAL_ACTION_SUCCEEDED 1 4"
definition sample_finished :: hermas_journal_record where
  "sample_finished = sample_record HERMAS_JOURNAL_EXECUTION_FINISHED 1 5"

lemmas sample_records = sample_started_def sample_prepared_def sample_sent_def sample_succeeded_def
  sample_finished_def sample_record_def is_action_record_def

text \<open>The journal after a crash with the delivery open, after one with its success recorded, and the
  finished one.\<close>

definition open_journal :: bytes where
  "open_journal = (encoded sample_started @ encoded sample_prepared) @ encoded sample_sent"
definition closed_journal :: bytes where
  "closed_journal = open_journal @ encoded sample_succeeded"
definition finished_journal :: bytes where
  "finished_journal = closed_journal @ encoded sample_finished"

lemma encoded_parse:
  assumes "validate_record r = HERMAS_JOURNAL_OK"
  shows "journal_parse (encoded r) = Inr (r, length (encoded r))" and "length (encoded r) = 64"
proof -
  obtain p where p: "journal_encode r (replicate 64 0) = (HERMAS_JOURNAL_OK, p)"
    using assms by (simp add: journal_encode_OK_iff)
  then show "length (encoded r) = 64" using journal_encode_decode(3) [OF p] by (simp add: encoded_def)
  then show "journal_parse (encoded r) = Inr (r, length (encoded r))"
    using journal_encode_decode(1) [OF p] p by (simp add: encoded_def journal_parse_Inr)
qed

lemma sample_valid:
  "validate_record sample_started = HERMAS_JOURNAL_OK"
  "validate_record sample_prepared = HERMAS_JOURNAL_OK"
  "validate_record sample_sent = HERMAS_JOURNAL_OK"
  "validate_record sample_succeeded = HERMAS_JOURNAL_OK"
  "validate_record sample_finished = HERMAS_JOURNAL_OK"
  by (simp_all add: sample_records validate_record_def)

lemma open_framed: "framed journal_parse open_journal [sample_started, sample_prepared, sample_sent]"
proof -
  have "framed journal_parse ([] @ encoded sample_started) ([] @ [sample_started])"
    by (intro journal_log.framed_append framed_nil encoded_parse sample_valid)
  then have "framed journal_parse (encoded sample_started @ encoded sample_prepared)
      ([sample_started] @ [sample_prepared])"
    by (intro journal_log.framed_append encoded_parse sample_valid) simp
  then show ?thesis
    using journal_log.framed_append [OF _ encoded_parse(1) [OF sample_valid(3)]]
    by (fastforce simp: open_journal_def)
qed

lemma closed_framed: "framed journal_parse closed_journal
    [sample_started, sample_prepared, sample_sent, sample_succeeded]"
  using journal_log.framed_append [OF open_framed encoded_parse(1) [OF sample_valid(4)]]
  by (simp add: closed_journal_def)

lemma finished_framed: "framed journal_parse finished_journal
    [sample_started, sample_prepared, sample_sent, sample_succeeded, sample_finished]"
  using journal_log.framed_append [OF closed_framed encoded_parse(1) [OF sample_valid(5)]]
  by (simp add: finished_journal_def)

section \<open>Running the scan\<close>

text \<open>The entry of the sample execution in phase \<open>state\<close>, at index 0 of the table.\<close>

definition sample_delivery :: "u8 \<Rightarrow> hermas_journal_open_delivery" where
  "sample_delivery sent = \<lparr>od_delivery_was_sent = sent, od_request_id = 1, od_node_id = 2, od_app_id = 3,
     od_action_id = 4\<rparr>"

definition sample_table :: "scan_execution \<Rightarrow> scan_execution list" where
  "sample_table e = e # replicate 15 zero_scan_execution"

lemma sample_find: "se_active e \<Longrightarrow> ji_execution_id (se_value e) = 41 \<Longrightarrow>
    find_scan_execution (sample_table e) 41 = Some 0"
  by (simp add: find_scan_execution_def first_index_Some sample_table_def)

lemma sample_free:
  "find_scan_execution (replicate 16 zero_scan_execution) x = None"
  "first_index (\<lambda>i. \<not> se_active (replicate 16 zero_scan_execution ! i)) 16 = Some 0"
  by (simp_all add: find_scan_execution_def first_index_None first_index_Some zero_scan_execution_def)

definition sample_entry ::
  "nat \<Rightarrow> hermas_journal_open_delivery \<Rightarrow> scan_delivery_state \<Rightarrow> u64 \<Rightarrow> u16 \<Rightarrow> bool \<Rightarrow> scan_execution" where
  "sample_entry n d state largest out has =
    \<lparr>se_value = \<lparr>ji_execution_id = 41, ji_workflow_id = 7, ji_image_fingerprint = 99,
       ji_open_delivery_count = n, ji_open_deliveries = d # replicate 7 zero_open_delivery\<rparr>,
     se_deliveries = state # replicate 7 SCAN_DELIVERY_NONE, se_largest_request_id = largest,
     se_terminal_outcome = out, se_has_action_outcome = has, se_active = True\<rparr>"

definition entry_started :: scan_execution where
  "entry_started = sample_entry 0 zero_open_delivery SCAN_DELIVERY_NONE 0 0 False"
definition entry_prepared :: scan_execution where
  "entry_prepared = sample_entry 1 (sample_delivery 0) SCAN_DELIVERY_PREPARED 1 0 False"
definition entry_sent :: scan_execution where
  "entry_sent = sample_entry 1 (sample_delivery 1) SCAN_DELIVERY_SENT 1 0 False"
definition entry_closed :: scan_execution where
  "entry_closed = sample_entry 0 (sample_delivery 1) SCAN_DELIVERY_SENT 1 1 True"

lemmas sample_entries = entry_started_def entry_prepared_def entry_sent_def entry_closed_def sample_entry_def

lemma sample_find_delivery:
  "find_delivery entry_started sample_prepared = None"
  "find_delivery entry_prepared sample_sent = Some 0"
  "find_delivery entry_sent sample_succeeded = Some 0"
  by (simp_all add: find_delivery_def first_index_Some first_index_None sample_entries sample_records
      route_matches_def sample_delivery_def)

lemma sample_steps:
  "scan_transition (replicate 16 zero_scan_execution) sample_started = Inr (sample_table entry_started)"
  "scan_transition (sample_table entry_started) sample_prepared = Inr (sample_table entry_prepared)"
  "scan_transition (sample_table entry_prepared) sample_sent = Inr (sample_table entry_sent)"
  "scan_transition (sample_table entry_sent) sample_succeeded = Inr (sample_table entry_closed)"
  "scan_transition (sample_table entry_closed) sample_finished = Inr (replicate 16 zero_scan_execution)"
proof -
  have ids: "jr_execution_id (sample_record k out n) = 41" for k out n by (simp add: sample_record_def)
  have active: "se_active e \<and> ji_execution_id (se_value e) = 41 \<and> ji_workflow_id (se_value e) = 7 \<and>
      ji_image_fingerprint (se_value e) = 99"
    if "e \<in> {entry_started, entry_prepared, entry_sent, entry_closed}" for e
    using that by (auto simp: sample_entries)
  have at: "scan_transition (sample_table e) r = map_sum id sample_table (scan_kind (jr_kind r) e r)"
    if "e \<in> {entry_started, entry_prepared, entry_sent, entry_closed}"
      "r \<in> {sample_prepared, sample_sent, sample_succeeded, sample_finished}" for e r
  proof -
    have r: "jr_execution_id r = 41" "jr_workflow_id r = 7" "jr_image_fingerprint r = 99"
      "jr_kind r \<noteq> HERMAS_JOURNAL_EXECUTION_STARTED"
      using that(2) by (auto simp: sample_records)
    have upd: "list_update (sample_table e) 0 = sample_table" by (simp add: fun_eq_iff sample_table_def)
    show ?thesis
      using active [OF that(1)] r sample_find [of e] upd
      by (simp add: scan_transition_def sample_table_def)
  qed
  have kinds: "jr_kind sample_prepared = HERMAS_JOURNAL_DELIVERY_PREPARED"
    "jr_kind sample_sent = HERMAS_JOURNAL_DELIVERY_SENT"
    "jr_kind sample_succeeded = HERMAS_JOURNAL_ACTION_SUCCEEDED"
    "jr_kind sample_finished = HERMAS_JOURNAL_EXECUTION_FINISHED"
    by (simp_all add: sample_records)
  show "scan_transition (replicate 16 zero_scan_execution) sample_started = Inr (sample_table entry_started)"
    by (simp add: scan_transition_def scan_started_def sample_free sample_started_def ids Let_def)
      (simp add: sample_record_def sample_table_def sample_entries zero_scan_execution_def zero_interrupted_def
        numeral_eq_Suc)
  show "scan_transition (sample_table entry_started) sample_prepared = Inr (sample_table entry_prepared)"
    using sample_find_delivery(1)
    by (simp add: at kinds scan_prepared_def Let_def) (simp add: sample_entries sample_records sample_delivery_def)
  show "scan_transition (sample_table entry_prepared) sample_sent = Inr (sample_table entry_sent)"
    using sample_find_delivery(2)
    by (simp add: at kinds scan_sent_def Let_def) (simp add: sample_entries sample_records sample_delivery_def)
  show "scan_transition (sample_table entry_sent) sample_succeeded = Inr (sample_table entry_closed)"
    using sample_find_delivery(3)
    by (simp add: at kinds scan_closed_def Let_def)
      (simp add: sample_entries sample_records sample_delivery_def outcome_precedence_def shift_down_def)
  show "scan_transition (sample_table entry_closed) sample_finished = Inr (replicate 16 zero_scan_execution)"
    by (simp add: at kinds scan_finished_def)
      (simp add: sample_entries sample_records sample_delivery_def sample_table_def numeral_eq_Suc)
qed

definition sample_loop :: "scan_execution list \<Rightarrow> nat \<Rightarrow> unit scan_loop" where
  "sample_loop executions n = \<lparr>sl_executions = executions, sl_record_count = of_nat n,
     sl_next_sequence = of_nat n + 1, sl_next_execution_id = 42, sl_largest_started_id = 41,
     sl_context = ()\<rparr>"

lemma sample_scan_records:
  "scan_record None (scan_loop_start ()) sample_started = Inr (sample_loop (sample_table entry_started) 1)"
  "scan_record None (sample_loop (sample_table entry_started) 1) sample_prepared =
     Inr (sample_loop (sample_table entry_prepared) 2)"
  "scan_record None (sample_loop (sample_table entry_prepared) 2) sample_sent =
     Inr (sample_loop (sample_table entry_sent) 3)"
  "scan_record None (sample_loop (sample_table entry_sent) 3) sample_succeeded =
     Inr (sample_loop (sample_table entry_closed) 4)"
  "scan_record None (sample_loop (sample_table entry_closed) 4) sample_finished =
     Inr (sample_loop (replicate 16 zero_scan_execution) 5)"
  using sample_steps
  by (simp_all add: scan_record_def scan_loop_start_def sample_loop_def Let_def)
    (simp_all add: sample_records)

lemma sample_scan:
  assumes "framed journal_parse bs rs" and "run_records (scan_record None) (scan_loop_start ()) rs = Inr s"
  shows "hermas_journal_scan (Some bs) (length bs) None () (Some old) =
    (HERMAS_JOURNAL_OK, Some (scan_summary s), ())"
proof -
  have "scan_from None bs 0 (scan_loop_start ()) = Inr s"
    using assms unfolding journal_log.scan_iff by blast
  then show ?thesis
    using framed_journal_length [OF assms(1)] by (simp add: hermas_journal_scan_def journal_scan_def)
qed

lemma sample_scans:
  "hermas_journal_scan (Some open_journal) (length open_journal) None () (Some old) =
     (HERMAS_JOURNAL_OK, Some (scan_summary (sample_loop (sample_table entry_sent) 3)), ())"
  "hermas_journal_scan (Some closed_journal) (length closed_journal) None () (Some old) =
     (HERMAS_JOURNAL_OK, Some (scan_summary (sample_loop (sample_table entry_closed) 4)), ())"
  "hermas_journal_scan (Some finished_journal) (length finished_journal) None () (Some old) =
     (HERMAS_JOURNAL_OK, Some (scan_summary (sample_loop (replicate 16 zero_scan_execution) 5)), ())"
  by (rule sample_scan [OF open_framed] sample_scan [OF closed_framed] sample_scan [OF finished_framed];
      simp add: sample_scan_records sample_scan_records [simplified])+

lemma sample_interrupted:
  "js_interrupted (scan_summary (sample_loop (sample_table entry_sent) 3)) = [se_value entry_sent]"
  "js_interrupted (scan_summary (sample_loop (sample_table entry_closed) 4)) = [se_value entry_closed]"
  by (simp_all add: scan_summary_def sample_loop_def sample_table_def sample_entries Let_def
      zero_scan_execution_def)

section \<open>Recovery on the sample\<close>

definition append_bytes :: "bytes journal_write" where
  "append_bytes file p = (HERMAS_JOURNAL_OK, file @ p)"

definition sample_file :: "bytes \<Rightarrow> u64 \<Rightarrow> bytes hermas_journal_file" where
  "sample_file stored next_sequence = \<lparr>jf_file_descriptor = 3,
     jf_writer = \<lparr>jw_write = Some append_bytes, jw_context = stored, jw_next_sequence = next_sequence\<rparr>\<rparr>"

lemma append_bytes_appends: "appends append_bytes id"
  by (simp add: appends_def append_bytes_def)

lemma sample_append:
  assumes "validate_record (r\<lparr>jr_sequence := n\<rparr>) = HERMAS_JOURNAL_OK" and "n \<noteq> 0" and "n \<noteq> - 1"
  shows "journal_writer_append \<lparr>jw_write = Some append_bytes, jw_context = stored, jw_next_sequence = n\<rparr> r =
    (HERMAS_JOURNAL_OK, \<lparr>jw_write = Some append_bytes, jw_context = stored @ encoded (r\<lparr>jr_sequence := n\<rparr>),
       jw_next_sequence = n + 1\<rparr>)"
proof -
  obtain p where "journal_encode (r\<lparr>jr_sequence := n\<rparr>) (replicate 64 0) = (HERMAS_JOURNAL_OK, p)"
    using assms(1) by (simp add: journal_encode_OK_iff)
  then show ?thesis using assms(2,3) by (simp add: journal_writer_append_def append_bytes_def encoded_def)
qed

lemma sample_close:
  "\<exists>f' closed. hermas_journal_file_close_interrupted (Some (sample_file stored 4))
     (Some (scan_summary (sample_loop (sample_table entry_sent) 3))) (Some 0) =
     (HERMAS_JOURNAL_OK, Some f', Some closed)"
  "\<exists>f' closed. hermas_journal_file_close_interrupted (Some (sample_file stored 5))
     (Some (scan_summary (sample_loop (sample_table entry_closed) 4))) (Some 0) =
     (HERMAS_JOURNAL_OK, Some f', Some closed)"
proof -
  have count: "js_interrupted_count (scan_summary s) = length (js_interrupted (scan_summary s))" for s
    by (simp add: scan_summary_def Let_def)
  have "take (ji_open_delivery_count (se_value entry_sent)) (ji_open_deliveries (se_value entry_sent)) =
      [sample_delivery 1]"
    by (simp add: sample_entries)
  moreover have "validate_record ((unknown_record (se_value entry_sent) (sample_delivery 1))\<lparr>jr_sequence := 4\<rparr>) =
      HERMAS_JOURNAL_OK"
    "validate_record ((finished_record (se_value entry_sent))\<lparr>jr_sequence := 5\<rparr>) = HERMAS_JOURNAL_OK"
    by (simp_all add: sample_entries unknown_record_def finished_record_def validate_record_def
        is_action_record_def sample_delivery_def)
  ultimately show "\<exists>f' closed. hermas_journal_file_close_interrupted (Some (sample_file stored 4))
     (Some (scan_summary (sample_loop (sample_table entry_sent) 3))) (Some 0) =
     (HERMAS_JOURNAL_OK, Some f', Some closed)"
    by (simp add: hermas_journal_file_close_interrupted_def count sample_interrupted sample_file_def sample_append)
  have "take (ji_open_delivery_count (se_value entry_closed)) (ji_open_deliveries (se_value entry_closed)) = []"
    by (simp add: sample_entries)
  moreover have "validate_record ((finished_record (se_value entry_closed))\<lparr>jr_sequence := 5\<rparr>) = HERMAS_JOURNAL_OK"
    by (simp add: sample_entries finished_record_def validate_record_def is_action_record_def)
  ultimately show "\<exists>f' closed. hermas_journal_file_close_interrupted (Some (sample_file stored 5))
     (Some (scan_summary (sample_loop (sample_table entry_closed) 4))) (Some 0) =
     (HERMAS_JOURNAL_OK, Some f', Some closed)"
    by (simp add: hermas_journal_file_close_interrupted_def count sample_interrupted sample_file_def sample_append
        del: take_eq_Nil)
qed

section \<open>Witnesses\<close>

theorem scan_transition_refines_witness:
  "spec_step Map.empty sample_started = Some (abs_table (sample_table entry_started))"
  using scan_transition_refines [OF table_ok_start sample_steps(1)] by (simp add: abs_table_start)

theorem accepted_journal_life_cycle_witness:
  "\<exists>rs. framed journal_parse finished_journal rs \<and> delivery_phase_of rs 41 1 \<noteq> None"
  using accepted_journal_life_cycle [OF sample_scans(3)] by blast

theorem accepted_journal_interrupted_witness:
  "\<exists>rs. framed journal_parse open_journal rs \<and> {x. started_in rs x \<and> \<not> finished_in rs x} = {41}"
  using accepted_journal_interrupted [OF sample_scans(1)]
  unfolding sample_interrupted by (auto simp: sample_entries)

theorem accepted_journal_outcome_witness:
  "\<exists>rs. framed journal_parse finished_journal rs \<and>
    (\<forall>i < length rs. jr_kind (rs ! i) = HERMAS_JOURNAL_EXECUTION_FINISHED \<longrightarrow>
      (\<forall>q. open_of (delivery_phase_of (take i rs) (jr_execution_id (rs ! i)) q) = None))"
  using accepted_journal_outcome [OF sample_scans(3)] by blast

theorem accepted_journal_identifiers_witness:
  "\<exists>rs. framed journal_parse finished_journal rs \<and> of_nat (length rs) + 1 = (6 :: u64)"
  using accepted_journal_identifiers [OF sample_scans(3)]
  by (auto simp: scan_summary_def sample_loop_def Let_def)

definition sample_summary :: hermas_journal_summary where
  "sample_summary = scan_summary (sample_loop (sample_table entry_sent) 3)"

theorem close_interrupted_recovers_witness:
  "\<exists>f' js'. hermas_journal_file_close_interrupted (Some (sample_file open_journal 4))
      (Some sample_summary) (Some 0) = (HERMAS_JOURNAL_OK, Some f', Some 1) \<and> js_interrupted js' = [] \<and>
    hermas_journal_scan (Some (jw_context (jf_writer f'))) (length (jw_context (jf_writer f'))) None ()
      (Some sample_summary) = (HERMAS_JOURNAL_OK, Some js', ())"
proof -
  obtain f' closed where close: "hermas_journal_file_close_interrupted (Some (sample_file open_journal 4))
     (Some (scan_summary (sample_loop (sample_table entry_sent) 3))) (Some 0) =
     (HERMAS_JOURNAL_OK, Some f', Some closed)"
    using sample_close(1) by blast
  have stored: "id (jw_context (jf_writer (sample_file open_journal 4))) = open_journal"
    "jw_write (jf_writer (sample_file open_journal 4)) = Some append_bytes"
    "jw_next_sequence (jf_writer (sample_file open_journal 4)) =
       js_next_sequence (scan_summary (sample_loop (sample_table entry_sent) 3))"
    by (simp_all add: sample_file_def scan_summary_def sample_loop_def Let_def)
  have crash: "\<forall>v \<in> set (js_interrupted (scan_summary (sample_loop (sample_table entry_sent) 3))).
      0 < ji_open_delivery_count v \<or>
      reported_outcome [sample_started, sample_prepared, sample_sent] (ji_execution_id v) \<in>
        {None, Some HERMAS_OUTCOME_UNKNOWN}"
    unfolding sample_interrupted by (simp add: sample_entries)
  have count: "js_interrupted_count (scan_summary (sample_loop (sample_table entry_sent) 3)) = 1"
    using sample_interrupted(1) by (simp add: scan_summary_def Let_def)
  show ?thesis
    using close_interrupted_recovers [OF sample_scans(1) open_framed stored(1,2) append_bytes_appends stored(3)
      crash close, of sample_summary] close count unfolding sample_summary_def by auto
qed

theorem close_interrupted_refused_witness:
  "\<exists>f' closed. hermas_journal_file_close_interrupted (Some (sample_file closed_journal 5))
      (Some (scan_summary (sample_loop (sample_table entry_closed) 4))) (Some 0) =
      (HERMAS_JOURNAL_OK, Some f', Some closed) \<and>
    hermas_journal_scan (Some (jw_context (jf_writer f'))) (length (jw_context (jf_writer f'))) None ()
      (Some sample_summary) = (HERMAS_JOURNAL_INVALID_TRANSITION, Some sample_summary, ())"
proof -
  obtain f' closed where close: "hermas_journal_file_close_interrupted (Some (sample_file closed_journal 5))
     (Some (scan_summary (sample_loop (sample_table entry_closed) 4))) (Some 0) =
     (HERMAS_JOURNAL_OK, Some f', Some closed)"
    using sample_close(2) by blast
  have stored: "id (jw_context (jf_writer (sample_file closed_journal 5))) = closed_journal"
    "jw_write (jf_writer (sample_file closed_journal 5)) = Some append_bytes"
    "jw_next_sequence (jf_writer (sample_file closed_journal 5)) =
       js_next_sequence (scan_summary (sample_loop (sample_table entry_closed) 4))"
    by (simp_all add: sample_file_def scan_summary_def sample_loop_def Let_def)
  have crash: "ji_open_delivery_count (se_value entry_closed) = 0"
    "reported_outcome [sample_started, sample_prepared, sample_sent, sample_succeeded]
       (ji_execution_id (se_value entry_closed)) = Some 1" "(1 :: u16) \<noteq> HERMAS_OUTCOME_UNKNOWN"
    by (simp_all add: sample_entries reported_outcome_def sample_records is_closing_def worst_outcome_def)
  show ?thesis
    using close_interrupted_refused [OF sample_scans(2) closed_framed stored(1,2) append_bytes_appends stored(3)
      sample_interrupted(2) crash close] close by auto
qed

end
