(* ===== verification/Hermas_Saga_Log.thy ===== *)
theory Hermas_Saga_Log
  imports Hermas_Protocol Hermas_Record_Log
begin

text \<open>
  The saga log (\<open>src/saga_log.c\<close>): the durable record of compensations. Its 64-byte records and
  their codec, the transition each record makes on a table of at most sixteen active sagas, the
  scan of a whole log and the sequenced writer.
\<close>

definition HERMAS_SAGA_LOG_VERSION :: u16 where [simp]: "HERMAS_SAGA_LOG_VERSION = 1"
definition HERMAS_SAGA_LOG_RECORD_SIZE :: nat where [simp]: "HERMAS_SAGA_LOG_RECORD_SIZE = 64"
definition HERMAS_SAGA_LOG_MAX_ACTIVE :: nat where [simp]: "HERMAS_SAGA_LOG_MAX_ACTIVE = 16"
definition HERMAS_SAGA_LOG_MAX_STEPS :: u16 where [simp]: "HERMAS_SAGA_LOG_MAX_STEPS = 16"

datatype hermas_saga_log_result =
    HERMAS_SAGA_LOG_OK
  | HERMAS_SAGA_LOG_INVALID_ARGUMENT
  | HERMAS_SAGA_LOG_BUFFER_TOO_SMALL
  | HERMAS_SAGA_LOG_INVALID_RECORD
  | HERMAS_SAGA_LOG_CHECKSUM_MISMATCH
  | HERMAS_SAGA_LOG_INVALID_SEQUENCE
  | HERMAS_SAGA_LOG_INVALID_TRANSITION
  | HERMAS_SAGA_LOG_CAPACITY_EXHAUSTED
  | HERMAS_SAGA_LOG_WRITE_ERROR

text \<open>As for the journal, \<open>HERMAS_SAGA_LOG_KIND_OTHER\<close> is every value outside the enumeration.\<close>

datatype hermas_saga_log_kind =
    HERMAS_SAGA_LOG_STARTED
  | HERMAS_SAGA_LOG_DELIVERY_PREPARED
  | HERMAS_SAGA_LOG_DELIVERY_SENT
  | HERMAS_SAGA_LOG_STEP_SUCCEEDED
  | HERMAS_SAGA_LOG_STEP_FAILED
  | HERMAS_SAGA_LOG_STEP_UNKNOWN
  | HERMAS_SAGA_LOG_FINISHED
  | HERMAS_SAGA_LOG_KIND_OTHER

definition saga_kind_of_u16 :: "u16 \<Rightarrow> hermas_saga_log_kind" where
  "saga_kind_of_u16 v =
    (if v = 1 then HERMAS_SAGA_LOG_STARTED
     else if v = 2 then HERMAS_SAGA_LOG_DELIVERY_PREPARED
     else if v = 3 then HERMAS_SAGA_LOG_DELIVERY_SENT
     else if v = 4 then HERMAS_SAGA_LOG_STEP_SUCCEEDED
     else if v = 5 then HERMAS_SAGA_LOG_STEP_FAILED
     else if v = 6 then HERMAS_SAGA_LOG_STEP_UNKNOWN
     else if v = 7 then HERMAS_SAGA_LOG_FINISHED
     else HERMAS_SAGA_LOG_KIND_OTHER)"

fun u16_of_saga_kind :: "hermas_saga_log_kind \<Rightarrow> u16" where
  "u16_of_saga_kind HERMAS_SAGA_LOG_STARTED = 1"
| "u16_of_saga_kind HERMAS_SAGA_LOG_DELIVERY_PREPARED = 2"
| "u16_of_saga_kind HERMAS_SAGA_LOG_DELIVERY_SENT = 3"
| "u16_of_saga_kind HERMAS_SAGA_LOG_STEP_SUCCEEDED = 4"
| "u16_of_saga_kind HERMAS_SAGA_LOG_STEP_FAILED = 5"
| "u16_of_saga_kind HERMAS_SAGA_LOG_STEP_UNKNOWN = 6"
| "u16_of_saga_kind HERMAS_SAGA_LOG_FINISHED = 7"
| "u16_of_saga_kind HERMAS_SAGA_LOG_KIND_OTHER = 0"

lemma saga_kind_of_u16_inverse [simp]: "saga_kind_of_u16 (u16_of_saga_kind k) = k"
  by (cases k) (simp_all add: saga_kind_of_u16_def)

lemma u16_of_saga_kind_inverse:
  "saga_kind_of_u16 v \<noteq> HERMAS_SAGA_LOG_KIND_OTHER \<Longrightarrow> u16_of_saga_kind (saga_kind_of_u16 v) = v"
  by (simp add: saga_kind_of_u16_def split: if_splits)

record hermas_saga_log_record =
  sl_kind :: hermas_saga_log_kind
  sl_outcome :: u16
  sl_sequence :: u64
  sl_execution_id :: u64
  sl_workflow_id :: u32
  sl_request_id :: u64
  sl_forward_node :: u16
  sl_app_id :: u16
  sl_action_id :: u16
  sl_ordinal :: u16
  sl_image_fingerprint :: u64

section \<open>The record codec\<close>

definition action_kind :: "hermas_saga_log_kind \<Rightarrow> bool" where
  "action_kind kind \<longleftrightarrow> kind \<in> {HERMAS_SAGA_LOG_DELIVERY_PREPARED, HERMAS_SAGA_LOG_DELIVERY_SENT,
     HERMAS_SAGA_LOG_STEP_SUCCEEDED, HERMAS_SAGA_LOG_STEP_FAILED, HERMAS_SAGA_LOG_STEP_UNKNOWN}"

fun saga_outcome_valid :: "hermas_saga_log_kind \<Rightarrow> u16 \<Rightarrow> bool" where
  "saga_outcome_valid HERMAS_SAGA_LOG_STARTED out \<longleftrightarrow>
     out = HERMAS_OUTCOME_APP_ERROR \<or> out = HERMAS_OUTCOME_NOT_SENT"
| "saga_outcome_valid HERMAS_SAGA_LOG_DELIVERY_PREPARED out \<longleftrightarrow> out = HERMAS_OUTCOME_NONE"
| "saga_outcome_valid HERMAS_SAGA_LOG_DELIVERY_SENT out \<longleftrightarrow> out = HERMAS_OUTCOME_NONE"
| "saga_outcome_valid HERMAS_SAGA_LOG_STEP_SUCCEEDED out \<longleftrightarrow> out = HERMAS_OUTCOME_SUCCESS"
| "saga_outcome_valid HERMAS_SAGA_LOG_STEP_FAILED out \<longleftrightarrow>
     out = HERMAS_OUTCOME_APP_ERROR \<or> out = HERMAS_OUTCOME_NOT_SENT"
| "saga_outcome_valid HERMAS_SAGA_LOG_STEP_UNKNOWN out \<longleftrightarrow> out = HERMAS_OUTCOME_UNKNOWN"
| "saga_outcome_valid HERMAS_SAGA_LOG_FINISHED out \<longleftrightarrow>
     out = HERMAS_OUTCOME_SUCCESS \<or> out = HERMAS_OUTCOME_APP_ERROR \<or>
     out = HERMAS_OUTCOME_NOT_SENT \<or> out = HERMAS_OUTCOME_UNKNOWN"
| "saga_outcome_valid HERMAS_SAGA_LOG_KIND_OTHER out \<longleftrightarrow> False"

definition saga_validate :: "hermas_saga_log_record \<Rightarrow> hermas_saga_log_result" where
  "saga_validate r =
    (let action = action_kind (sl_kind r);
         route_present = (sl_request_id r \<noteq> 0 \<and> sl_forward_node r \<noteq> 0 \<and> sl_app_id r \<noteq> 0 \<and>
           sl_action_id r \<noteq> 0 \<and> sl_ordinal r \<noteq> 0 \<and> sl_ordinal r \<le> HERMAS_SAGA_LOG_MAX_STEPS)
     in if sl_kind r = HERMAS_SAGA_LOG_KIND_OTHER \<or> sl_sequence r = 0 \<or> sl_execution_id r = 0 \<or>
           sl_workflow_id r = 0 \<or> sl_image_fingerprint r = 0 then HERMAS_SAGA_LOG_INVALID_RECORD
        else if \<not> saga_outcome_valid (sl_kind r) (sl_outcome r) then HERMAS_SAGA_LOG_INVALID_RECORD
        else if action \<and> \<not> route_present \<or>
          \<not> action \<and> sl_kind r = HERMAS_SAGA_LOG_FINISHED \<and>
            (sl_request_id r \<noteq> 0 \<or> sl_forward_node r \<noteq> 0 \<or> sl_app_id r \<noteq> 0 \<or>
             sl_action_id r \<noteq> 0 \<or> sl_ordinal r \<noteq> 0) \<or>
          sl_kind r = HERMAS_SAGA_LOG_STARTED \<and>
            (sl_request_id r \<noteq> 0 \<or> sl_forward_node r \<noteq> 0 \<or> sl_app_id r \<noteq> 0 \<or>
             sl_action_id r \<noteq> 0 \<or> sl_ordinal r = 0 \<or> sl_ordinal r > HERMAS_SAGA_LOG_MAX_STEPS)
        then HERMAS_SAGA_LOG_INVALID_RECORD
        else HERMAS_SAGA_LOG_OK)"

text \<open>\<open>HSG1\<close>\<close>

definition saga_magic :: bytes where
  "saga_magic = [0x48, 0x53, 0x47, 0x31]"

definition write_saga_fields :: "hermas_saga_log_record \<Rightarrow> bytes \<Rightarrow> bytes" where
  "write_saga_fields r destination =
    (let d = memset_zero destination HERMAS_SAGA_LOG_RECORD_SIZE;
         d = write_bytes d 0 saga_magic;
         d = write_u16 d 4 HERMAS_SAGA_LOG_VERSION;
         d = write_u16 d 6 (of_nat HERMAS_SAGA_LOG_RECORD_SIZE);
         d = write_u16 d 8 (u16_of_saga_kind (sl_kind r));
         d = write_u16 d 10 (sl_outcome r);
         d = write_u64 d 16 (sl_sequence r);
         d = write_u64 d 24 (sl_execution_id r);
         d = write_u32 d 32 (sl_workflow_id r);
         d = write_u64 d 36 (sl_request_id r);
         d = write_u16 d 44 (sl_forward_node r);
         d = write_u16 d 46 (sl_app_id r);
         d = write_u16 d 48 (sl_action_id r);
         d = write_u16 d 50 (sl_ordinal r)
     in write_u64 d 52 (sl_image_fingerprint r))"

definition saga_log_encode :: "hermas_saga_log_record \<Rightarrow> bytes \<Rightarrow> hermas_saga_log_result \<times> bytes" where
  "saga_log_encode r destination =
    (if length destination < HERMAS_SAGA_LOG_RECORD_SIZE then (HERMAS_SAGA_LOG_BUFFER_TOO_SMALL, destination)
     else if saga_validate r \<noteq> HERMAS_SAGA_LOG_OK then (saga_validate r, destination)
     else (let d = write_saga_fields r destination
           in (HERMAS_SAGA_LOG_OK, write_u32 d 60 (checksum (take 60 d)))))"

definition hermas_saga_log_encode ::
  "hermas_saga_log_record option \<Rightarrow> bytes option \<Rightarrow> hermas_saga_log_result \<times> bytes option" where
  "hermas_saga_log_encode record destination =
    (case (record, destination) of
       (Some r, Some d) \<Rightarrow> (let (result, d') = saga_log_encode r d in (result, Some d'))
     | _ \<Rightarrow> (HERMAS_SAGA_LOG_INVALID_ARGUMENT, destination))"

definition saga_fields_of :: "bytes \<Rightarrow> hermas_saga_log_record" where
  "saga_fields_of source =
    \<lparr>sl_kind = saga_kind_of_u16 (read_u16 source 8),
     sl_outcome = read_u16 source 10,
     sl_sequence = read_u64 source 16,
     sl_execution_id = read_u64 source 24,
     sl_workflow_id = read_u32 source 32,
     sl_request_id = read_u64 source 36,
     sl_forward_node = read_u16 source 44,
     sl_app_id = read_u16 source 46,
     sl_action_id = read_u16 source 48,
     sl_ordinal = read_u16 source 50,
     sl_image_fingerprint = read_u64 source 52\<rparr>"

definition saga_log_decode :: "bytes \<Rightarrow> hermas_saga_log_result + hermas_saga_log_record" where
  "saga_log_decode source =
    (if length source < HERMAS_SAGA_LOG_RECORD_SIZE then Inl HERMAS_SAGA_LOG_BUFFER_TOO_SMALL
     else if chunk source 0 4 \<noteq> saga_magic \<or> read_u16 source 4 \<noteq> HERMAS_SAGA_LOG_VERSION \<or>
        read_u16 source 6 \<noteq> of_nat HERMAS_SAGA_LOG_RECORD_SIZE \<or> read_u32 source 12 \<noteq> 0
     then Inl HERMAS_SAGA_LOG_INVALID_RECORD
     else if read_u32 source 60 \<noteq> checksum (take 60 source) then Inl HERMAS_SAGA_LOG_CHECKSUM_MISMATCH
     else (let decoded = saga_fields_of source
           in if saga_validate decoded \<noteq> HERMAS_SAGA_LOG_OK then Inl (saga_validate decoded)
              else Inr decoded))"

definition hermas_saga_log_decode ::
  "bytes option \<Rightarrow> hermas_saga_log_record option \<Rightarrow> hermas_saga_log_result \<times> hermas_saga_log_record option" where
  "hermas_saga_log_decode source record =
    (case (source, record) of
       (Some s, Some _) \<Rightarrow>
         (case saga_log_decode s of
            Inl e \<Rightarrow> (e, record)
          | Inr r \<Rightarrow> (HERMAS_SAGA_LOG_OK, Some r))
     | _ \<Rightarrow> (HERMAS_SAGA_LOG_INVALID_ARGUMENT, record))"

lemma length_write_saga_fields [simp]:
  "64 \<le> length d \<Longrightarrow> length (write_saga_fields r d) = length d"
  by (simp add: write_saga_fields_def saga_magic_def)

lemma write_saga_fields_fields:
  assumes "64 \<le> length d"
  shows "chunk (write_saga_fields r d) 0 4 = saga_magic"
    "chunk (write_saga_fields r d) 4 2 = le_bytes 2 (1 :: u16)"
    "chunk (write_saga_fields r d) 6 2 = le_bytes 2 (64 :: u16)"
    "chunk (write_saga_fields r d) 8 2 = le_bytes 2 (u16_of_saga_kind (sl_kind r))"
    "chunk (write_saga_fields r d) 10 2 = le_bytes 2 (sl_outcome r)"
    "chunk (write_saga_fields r d) 12 4 = replicate 4 0"
    "chunk (write_saga_fields r d) 16 8 = le_bytes 8 (sl_sequence r)"
    "chunk (write_saga_fields r d) 24 8 = le_bytes 8 (sl_execution_id r)"
    "chunk (write_saga_fields r d) 32 4 = le_bytes 4 (sl_workflow_id r)"
    "chunk (write_saga_fields r d) 36 8 = le_bytes 8 (sl_request_id r)"
    "chunk (write_saga_fields r d) 44 2 = le_bytes 2 (sl_forward_node r)"
    "chunk (write_saga_fields r d) 46 2 = le_bytes 2 (sl_app_id r)"
    "chunk (write_saga_fields r d) 48 2 = le_bytes 2 (sl_action_id r)"
    "chunk (write_saga_fields r d) 50 2 = le_bytes 2 (sl_ordinal r)"
    "chunk (write_saga_fields r d) 52 8 = le_bytes 8 (sl_image_fingerprint r)"
    "drop 64 (write_saga_fields r d) = drop 64 d"
  using assms
  by (simp_all add: write_saga_fields_def saga_magic_def buffer_simps)

lemma saga_sealed_reads:
  assumes "64 \<le> length d"
    and p: "p = take 64 (write_u32 (write_saga_fields r d) 60
                          (checksum (take 60 (write_saga_fields r d))))"
  shows "saga_fields_of p = r" "chunk p 0 4 = saga_magic" "read_u16 p 4 = 1" "read_u16 p 6 = 64"
    "read_u32 p 12 = 0" "read_u32 p 60 = checksum (take 60 p)" "length p = 64"
proof -
  have w: "64 \<le> length (write_saga_fields r d)" using assms by simp
  note sealed = sealed_record [OF w p]
  note fields = sealed(4) write_saga_fields_fields [OF assms(1)]
  have z: "le_value (replicate 4 0) = (0 :: u32)" by (simp add: numeral_eq_Suc)
  show "saga_fields_of p = r"
    using sealed(1) by (simp add: saga_fields_of_def read_from_chunk fields)
  show "chunk p 0 4 = saga_magic" "read_u16 p 4 = 1" "read_u16 p 6 = 64" "read_u32 p 12 = 0"
    using sealed(1) by (simp_all add: read_from_chunk fields z)
  show "read_u32 p 60 = checksum (take 60 p)" "length p = 64"
    by (fact sealed)+
qed

lemma saga_encode_OK_iff:
  "saga_log_encode r d = (HERMAS_SAGA_LOG_OK, d') \<longleftrightarrow>
     64 \<le> length d \<and> saga_validate r = HERMAS_SAGA_LOG_OK \<and>
     d' = write_u32 (write_saga_fields r d) 60 (checksum (take 60 (write_saga_fields r d)))"
  by (auto simp: saga_log_encode_def Let_def)

lemma saga_encode_decode:
  assumes "saga_log_encode r d = (HERMAS_SAGA_LOG_OK, d')"
  shows "saga_log_decode (take 64 d') = Inr r" and "drop 64 d' = drop 64 d" and "length d' = length d"
proof -
  from assms have len: "64 \<le> length d" and ok: "saga_validate r = HERMAS_SAGA_LOG_OK"
    and d': "d' = write_u32 (write_saga_fields r d) 60 (checksum (take 60 (write_saga_fields r d)))"
    by (auto simp: saga_encode_OK_iff)
  obtain p where p: "p = take 64 d'" by simp
  note reads = saga_sealed_reads [OF len, of p r, OF p [unfolded d']]
  show "saga_log_decode (take 64 d') = Inr r"
    using reads ok by (simp add: saga_log_decode_def flip: p)
  show "drop 64 d' = drop 64 d"
    using len by (simp add: d' buffer_simps write_saga_fields_fields)
  show "length d' = length d" using len by (simp add: d')
qed

lemma saga_decode_OK_reads:
  assumes "saga_log_decode s = Inr r"
  shows "64 \<le> length s" "chunk s 0 4 = saga_magic" "read_u16 s 4 = 1" "read_u16 s 6 = 64"
    "read_u32 s 12 = 0" "read_u32 s 60 = checksum (take 60 s)"
    "r = saga_fields_of s" "saga_validate r = HERMAS_SAGA_LOG_OK"
  using assms by (auto simp: saga_log_decode_def Let_def split: if_splits)

definition saga_layout :: "nat list" where
  "saga_layout = [4, 2, 2, 2, 2, 4, 8, 8, 4, 8, 2, 2, 2, 2, 8]"

text \<open>The decoder looks at the first 64 bytes only.\<close>

lemma saga_decode_prefix:
  assumes "saga_log_decode s = Inr r"
  shows "saga_log_decode (take 64 s) = Inr r"
proof -
  note reads = saga_decode_OK_reads [OF assms]
  have ch: "chunk (take 64 s) off n = chunk s off n" if "off + n \<le> 64" for off n
    using that by (simp add: chunk_def min_absorb1 drop_take)
  have "saga_fields_of (take 64 s) = saga_fields_of s" "read_u32 (take 64 s) 12 = read_u32 s 12"
    "read_u32 (take 64 s) 60 = read_u32 s 60" "read_u16 (take 64 s) 4 = read_u16 s 4"
    "read_u16 (take 64 s) 6 = read_u16 s 6" "chunk (take 64 s) 0 4 = chunk s 0 4"
    using reads(1) ch by (simp_all add: saga_fields_of_def read_u16_chunk read_u32_chunk read_u64_chunk)
  then show ?thesis
    using reads by (simp add: saga_log_decode_def)
qed

lemma saga_decode_encode:
  assumes dec: "saga_log_decode s = Inr r" and len: "length s = 64" and room: "64 \<le> length d"
  shows "saga_log_encode r d = (HERMAS_SAGA_LOG_OK, s @ drop 64 d)"
proof -
  note reads = saga_decode_OK_reads [OF dec]
  let ?w = "write_saga_fields r d"
  have kind: "u16_of_saga_kind (saga_kind_of_u16 (read_u16 s 8)) = read_u16 s 8"
    using reads(7,8) by (auto simp: saga_fields_of_def saga_validate_def Let_def
        u16_of_saga_kind_inverse split: if_splits)
  have fixed: "chunk s 4 2 = le_bytes 2 (1 :: u16)" "chunk s 6 2 = le_bytes 2 (64 :: u16)"
    "chunk s 12 4 = le_bytes 4 (0 :: u32)"
    using reads len by (simp_all flip: le_bytes_read)
  have zero: "le_bytes 4 (0 :: u32) = replicate 4 0"
    by (simp add: le_bytes_def map_replicate_const)
  have "take 60 ?w = take 60 s"
    using len room
    by (simp add: take_as_fields [where ns = saga_layout] saga_layout_def fixed zero kind
        write_saga_fields_fields reads(2) saga_fields_of_def reads(7) le_bytes_read)
  then have "write_u32 ?w 60 (checksum (take 60 ?w)) = s @ drop 64 d"
    using len room reads by (intro reseal_record) (simp_all add: write_saga_fields_fields)
  then show ?thesis using reads(8) room by (simp add: saga_log_encode_def Let_def)
qed

end
