(* ===== verification/Hermas_Saga_Scan.thy ===== *)
theory Hermas_Saga_Scan
  imports Hermas_Saga_Log
begin

text \<open>
  The transition table of the saga log, the scan of a whole log and the writer
  (\<open>transition\<close>, \<open>hermas_saga_log_scan\<close> and \<open>hermas_saga_log_writer_append\<close> of
  \<open>src/saga_log.c\<close>), and what an accepted saga log says: every saga compensates its steps in
  strictly descending order of their ordinals, and ends in success only after the first one.
\<close>

section \<open>The table\<close>

datatype delivery_state = DELIVERY_NONE | DELIVERY_PREPARED | DELIVERY_SENT

record hermas_saga_log_active =
  sa_execution_id :: u64
  sa_workflow_id :: u32
  sa_image_fingerprint :: u64
  sa_request_id :: u64
  sa_forward_node :: u16
  sa_app_id :: u16
  sa_action_id :: u16
  sa_next_ordinal :: u16
  sa_terminal_outcome :: u16
  sa_has_open_delivery :: u8
  sa_delivery_was_sent :: u8

record scan_active =
  sc_value :: hermas_saga_log_active
  sc_delivery :: delivery_state
  sc_terminal :: bool
  sc_active :: bool

definition zero_saga_active :: hermas_saga_log_active where
  "zero_saga_active = \<lparr>sa_execution_id = 0, sa_workflow_id = 0, sa_image_fingerprint = 0,
     sa_request_id = 0, sa_forward_node = 0, sa_app_id = 0, sa_action_id = 0, sa_next_ordinal = 0,
     sa_terminal_outcome = 0, sa_has_open_delivery = 0, sa_delivery_was_sent = 0\<rparr>"

definition zero_scan_active :: scan_active where
  "zero_scan_active = \<lparr>sc_value = zero_saga_active, sc_delivery = DELIVERY_NONE, sc_terminal = False,
     sc_active = False\<rparr>"

definition find_active :: "scan_active list \<Rightarrow> u64 \<Rightarrow> nat option" where
  "find_active entries execution_id =
     first_index (\<lambda>index. sc_active (entries ! index) \<and>
       sa_execution_id (sc_value (entries ! index)) = execution_id) HERMAS_SAGA_LOG_MAX_ACTIVE"

definition saga_route_matches :: "hermas_saga_log_active \<Rightarrow> hermas_saga_log_record \<Rightarrow> bool" where
  "saga_route_matches active r \<longleftrightarrow> sa_request_id active = sl_request_id r \<and>
     sa_forward_node active = sl_forward_node r \<and> sa_app_id active = sl_app_id r \<and>
     sa_action_id active = sl_action_id r \<and> sa_next_ordinal active = sl_ordinal r"

section \<open>Transitions\<close>

definition saga_started ::
  "scan_active list \<Rightarrow> hermas_saga_log_record \<Rightarrow> hermas_saga_log_result + scan_active list" where
  "saga_started entries r =
    (case first_index (\<lambda>index. \<not> sc_active (entries ! index)) HERMAS_SAGA_LOG_MAX_ACTIVE of
       None \<Rightarrow> Inl HERMAS_SAGA_LOG_CAPACITY_EXHAUSTED
     | Some index \<Rightarrow>
         (let e = entries ! index
          in Inr (entries[index := e\<lparr>sc_active := True,
               sc_value := (sc_value e)\<lparr>sa_execution_id := sl_execution_id r,
                 sa_workflow_id := sl_workflow_id r, sa_image_fingerprint := sl_image_fingerprint r,
                 sa_next_ordinal := sl_ordinal r\<rparr>\<rparr>])))"

definition saga_prepared ::
  "scan_active \<Rightarrow> hermas_saga_log_record \<Rightarrow> hermas_saga_log_result + scan_active" where
  "saga_prepared e r =
    (if sc_delivery e \<noteq> DELIVERY_NONE \<or> sc_terminal e \<or> sl_ordinal r \<noteq> sa_next_ordinal (sc_value e)
     then Inl HERMAS_SAGA_LOG_INVALID_TRANSITION
     else Inr (e\<lparr>sc_delivery := DELIVERY_PREPARED,
            sc_value := (sc_value e)\<lparr>sa_has_open_delivery := 1, sa_delivery_was_sent := 0,
              sa_request_id := sl_request_id r, sa_forward_node := sl_forward_node r,
              sa_app_id := sl_app_id r, sa_action_id := sl_action_id r\<rparr>\<rparr>))"

definition saga_sent ::
  "scan_active \<Rightarrow> hermas_saga_log_record \<Rightarrow> hermas_saga_log_result + scan_active" where
  "saga_sent e r =
    (if sc_delivery e \<noteq> DELIVERY_PREPARED \<or> \<not> saga_route_matches (sc_value e) r
     then Inl HERMAS_SAGA_LOG_INVALID_TRANSITION
     else Inr (e\<lparr>sc_delivery := DELIVERY_SENT, sc_value := (sc_value e)\<lparr>sa_delivery_was_sent := 1\<rparr>\<rparr>))"

definition saga_step_closed ::
  "scan_active \<Rightarrow> hermas_saga_log_record \<Rightarrow> hermas_saga_log_result + scan_active" where
  "saga_step_closed e r =
    (let route = saga_route_matches (sc_value e) r;
         delivery =
           (sl_kind r = HERMAS_SAGA_LOG_STEP_SUCCEEDED \<and> sc_delivery e = DELIVERY_SENT \<or>
            sl_kind r = HERMAS_SAGA_LOG_STEP_FAILED \<and>
              (sl_outcome r = HERMAS_OUTCOME_APP_ERROR \<and> sc_delivery e = DELIVERY_SENT \<or>
               sl_outcome r = HERMAS_OUTCOME_NOT_SENT \<and> sc_delivery e = DELIVERY_PREPARED) \<or>
            sl_kind r = HERMAS_SAGA_LOG_STEP_UNKNOWN \<and> sc_delivery e \<noteq> DELIVERY_NONE);
         value = (sc_value e)\<lparr>sa_has_open_delivery := 0, sa_delivery_was_sent := 0\<rparr>
     in if \<not> route \<or> \<not> delivery then Inl HERMAS_SAGA_LOG_INVALID_TRANSITION
        else if sl_kind r = HERMAS_SAGA_LOG_STEP_SUCCEEDED then
          Inr (e\<lparr>sc_delivery := DELIVERY_NONE,
            sc_value := value\<lparr>sa_next_ordinal := sa_next_ordinal value - 1, sa_request_id := 0,
              sa_forward_node := 0, sa_app_id := 0, sa_action_id := 0\<rparr>\<rparr>)
        else
          Inr (e\<lparr>sc_delivery := DELIVERY_NONE, sc_terminal := True,
            sc_value := value\<lparr>sa_terminal_outcome := sl_outcome r\<rparr>\<rparr>))"

definition saga_finished ::
  "scan_active \<Rightarrow> hermas_saga_log_record \<Rightarrow> hermas_saga_log_result + scan_active" where
  "saga_finished e r =
    (let success = (\<not> sc_terminal e \<and> sa_next_ordinal (sc_value e) = 0 \<and>
                    sl_outcome r = HERMAS_OUTCOME_SUCCESS);
         failed = (sc_terminal e \<and> sa_terminal_outcome (sc_value e) = sl_outcome r)
     in if sc_delivery e \<noteq> DELIVERY_NONE \<or> \<not> success \<and> \<not> failed
        then Inl HERMAS_SAGA_LOG_INVALID_TRANSITION
        else Inr zero_scan_active)"

fun saga_kind_step ::
  "hermas_saga_log_kind \<Rightarrow> scan_active \<Rightarrow> hermas_saga_log_record \<Rightarrow> hermas_saga_log_result + scan_active"
where
  "saga_kind_step HERMAS_SAGA_LOG_DELIVERY_PREPARED e r = saga_prepared e r"
| "saga_kind_step HERMAS_SAGA_LOG_DELIVERY_SENT e r = saga_sent e r"
| "saga_kind_step HERMAS_SAGA_LOG_STEP_SUCCEEDED e r = saga_step_closed e r"
| "saga_kind_step HERMAS_SAGA_LOG_STEP_FAILED e r = saga_step_closed e r"
| "saga_kind_step HERMAS_SAGA_LOG_STEP_UNKNOWN e r = saga_step_closed e r"
| "saga_kind_step HERMAS_SAGA_LOG_FINISHED e r = saga_finished e r"
| "saga_kind_step _ e r = Inl HERMAS_SAGA_LOG_INVALID_TRANSITION"

definition saga_transition ::
  "scan_active list \<Rightarrow> hermas_saga_log_record \<Rightarrow> hermas_saga_log_result + scan_active list" where
  "saga_transition entries r =
    (let found = find_active entries (sl_execution_id r) in
     if sl_kind r = HERMAS_SAGA_LOG_STARTED then
       (if found \<noteq> None then Inl HERMAS_SAGA_LOG_INVALID_TRANSITION else saga_started entries r)
     else
       (case found of
          None \<Rightarrow> Inl HERMAS_SAGA_LOG_INVALID_TRANSITION
        | Some index \<Rightarrow>
            (let e = entries ! index in
             if sa_workflow_id (sc_value e) \<noteq> sl_workflow_id r \<or>
                sa_image_fingerprint (sc_value e) \<noteq> sl_image_fingerprint r
             then Inl HERMAS_SAGA_LOG_INVALID_TRANSITION
             else map_sum id (\<lambda>e'. entries[index := e']) (saga_kind_step (sl_kind r) e r))))"

section \<open>The scan\<close>

record hermas_saga_log_summary =
  ss_record_count :: u64
  ss_next_sequence :: u64
  ss_active_count :: u8
  ss_active :: "hermas_saga_log_active list"

record saga_loop =
  lo_entries :: "scan_active list"
  lo_record_count :: u64
  lo_next_sequence :: u64

definition saga_loop_start :: saga_loop where
  "saga_loop_start = \<lparr>lo_entries = replicate 16 zero_scan_active, lo_record_count = 0,
     lo_next_sequence = 1\<rparr>"

definition saga_scan_record ::
  "saga_loop \<Rightarrow> hermas_saga_log_record \<Rightarrow> hermas_saga_log_result + saga_loop" where
  "saga_scan_record s r =
    (if sl_sequence r \<noteq> lo_next_sequence s then Inl HERMAS_SAGA_LOG_INVALID_SEQUENCE
     else (case saga_transition (lo_entries s) r of
             Inl e \<Rightarrow> Inl e
           | Inr entries \<Rightarrow> Inr \<lparr>lo_entries = entries, lo_record_count = lo_record_count s + 1,
               lo_next_sequence = lo_next_sequence s + 1\<rparr>))"

function saga_scan_from :: "bytes \<Rightarrow> nat \<Rightarrow> saga_loop \<Rightarrow> hermas_saga_log_result + saga_loop" where
  "saga_scan_from bs off s =
    (if off < length bs then
       (case saga_log_decode (chunk bs off HERMAS_SAGA_LOG_RECORD_SIZE) of
          Inl e \<Rightarrow> Inl e
        | Inr r \<Rightarrow>
            (case saga_scan_record s r of
               Inl e \<Rightarrow> Inl e
             | Inr s' \<Rightarrow> saga_scan_from bs (off + HERMAS_SAGA_LOG_RECORD_SIZE) s'))
     else Inr s)"
  by pat_completeness auto
termination
  by (relation "measure (\<lambda>(bs, off, s). length bs - off)") auto

declare saga_scan_from.simps [simp del]

definition saga_summary :: "saga_loop \<Rightarrow> hermas_saga_log_summary" where
  "saga_summary s =
    (let active = map sc_value (filter sc_active (lo_entries s))
     in \<lparr>ss_record_count = lo_record_count s, ss_next_sequence = lo_next_sequence s,
         ss_active_count = of_nat (length active), ss_active = active\<rparr>)"

definition hermas_saga_log_scan ::
  "bytes option \<Rightarrow> nat \<Rightarrow> hermas_saga_log_summary option \<Rightarrow>
   hermas_saga_log_result \<times> hermas_saga_log_summary option" where
  "hermas_saga_log_scan bs byte_count summary =
    (if bs = None \<and> byte_count \<noteq> 0 \<or> summary = None \<or> byte_count mod HERMAS_SAGA_LOG_RECORD_SIZE \<noteq> 0
     then (HERMAS_SAGA_LOG_INVALID_ARGUMENT, summary)
     else (case saga_scan_from (take byte_count (case bs of None \<Rightarrow> [] | Some b \<Rightarrow> b)) 0 saga_loop_start of
             Inl e \<Rightarrow> (e, summary)
           | Inr s \<Rightarrow> (HERMAS_SAGA_LOG_OK, Some (saga_summary s))))"

section \<open>The writer\<close>

type_synonym 'c saga_log_write = "'c \<Rightarrow> bytes \<Rightarrow> hermas_saga_log_result \<times> 'c"

record 'c hermas_saga_log_writer =
  sw_write :: "'c saga_log_write option"
  sw_context :: 'c
  sw_next_sequence :: u64

definition hermas_saga_log_writer_init ::
  "'c hermas_saga_log_writer option \<Rightarrow> 'c saga_log_write option \<Rightarrow> 'c \<Rightarrow> u64 \<Rightarrow>
   hermas_saga_log_result \<times> 'c hermas_saga_log_writer option" where
  "hermas_saga_log_writer_init writer write context next_sequence =
    (if writer = None \<or> write = None \<or> next_sequence = 0
     then (HERMAS_SAGA_LOG_INVALID_ARGUMENT, writer)
     else (HERMAS_SAGA_LOG_OK, Some \<lparr>sw_write = write, sw_context = context,
             sw_next_sequence = next_sequence\<rparr>))"

definition saga_log_writer_append ::
  "'c hermas_saga_log_writer \<Rightarrow> hermas_saga_log_record \<Rightarrow> hermas_saga_log_result \<times> 'c hermas_saga_log_writer" where
  "saga_log_writer_append w r =
    (case sw_write w of
       None \<Rightarrow> (HERMAS_SAGA_LOG_INVALID_ARGUMENT, w)
     | Some write \<Rightarrow>
        (if sw_next_sequence w = 0 \<or> sw_next_sequence w = - 1 then (HERMAS_SAGA_LOG_INVALID_ARGUMENT, w)
         else
           (case saga_log_encode (r\<lparr>sl_sequence := sw_next_sequence w\<rparr>)
                   (replicate HERMAS_SAGA_LOG_RECORD_SIZE 0) of
              (result, encoded) \<Rightarrow>
                (if result \<noteq> HERMAS_SAGA_LOG_OK then (result, w)
                 else
                   (case write (sw_context w) encoded of
                      (written, context) \<Rightarrow>
                        (if written = HERMAS_SAGA_LOG_OK
                         then (written, w\<lparr>sw_context := context, sw_next_sequence := sw_next_sequence w + 1\<rparr>)
                         else (written, w\<lparr>sw_context := context\<rparr>)))))))"

definition hermas_saga_log_writer_append ::
  "'c hermas_saga_log_writer option \<Rightarrow> hermas_saga_log_record \<Rightarrow>
   hermas_saga_log_result \<times> 'c hermas_saga_log_writer option" where
  "hermas_saga_log_writer_append writer r =
    (case writer of
       None \<Rightarrow> (HERMAS_SAGA_LOG_INVALID_ARGUMENT, None)
     | Some w \<Rightarrow> (let (result, w') = saga_log_writer_append w r in (result, Some w')))"

section \<open>The saga log as a record log\<close>

definition saga_parse :: "bytes \<Rightarrow> hermas_saga_log_result + hermas_saga_log_record \<times> nat" where
  "saga_parse bs = map_sum id (\<lambda>r. (r, HERMAS_SAGA_LOG_RECORD_SIZE))
     (saga_log_decode (take HERMAS_SAGA_LOG_RECORD_SIZE bs))"

lemma saga_parse_Inr:
  "saga_parse bs = Inr (r, n) \<longleftrightarrow> saga_log_decode (take 64 bs) = Inr r \<and> n = 64"
  by (auto simp: saga_parse_def)

lemma saga_scan_from_shift: "saga_scan_from (drop k bs) off s = saga_scan_from bs (k + off) s"
proof (induction "length bs - (k + off)" arbitrary: off s rule: less_induct)
  case less
  have inside: "off < length (drop k bs) \<longleftrightarrow> k + off < length bs" by auto
  show ?case
  proof (cases "k + off < length bs")
    case True
    then have "saga_scan_from (drop k bs) (off + 64) s' = saga_scan_from bs (k + off + 64) s'" for s'
      using less [of "off + 64"] by (simp add: add.assoc)
    with True show ?thesis
      by (subst (1 2) saga_scan_from.simps, unfold inside) (simp add: chunk_drop add.assoc split: sum.split)
  next
    case False
    then show ?thesis by (subst (1 2) saga_scan_from.simps, unfold inside) simp
  qed
qed

interpretation saga_log: record_log saga_parse saga_scan_record "\<lambda>s e. e" "\<lambda>bs. saga_scan_from bs 0"
proof unfold_locales
  fix bs :: bytes and s :: saga_loop
  show "saga_scan_from [] 0 s = Inr s" by (subst saga_scan_from.simps) simp
  show "saga_scan_from bs 0 s =
      (case saga_parse bs of Inl d \<Rightarrow> Inl d
       | Inr (r, n) \<Rightarrow> (case saga_scan_record s r of Inl e \<Rightarrow> Inl e
           | Inr s' \<Rightarrow> saga_scan_from (drop n bs) 0 s'))" if "bs \<noteq> []"
    using that saga_scan_from_shift [of 64 bs 0]
    by (subst saga_scan_from.simps) (simp add: saga_parse_def chunk_def split: sum.split)
next
  fix bs cs :: bytes and r n
  assume "saga_parse bs = Inr (r, n)"
  moreover from this have "64 \<le> length bs"
    using saga_decode_OK_reads(1) [of "take 64 bs" r] by (simp add: saga_parse_Inr)
  ultimately show "0 < n \<and> n \<le> length bs" "saga_parse (take n bs @ cs) = Inr (r, n)"
    by (simp_all add: saga_parse_Inr)
qed

end
