(* ===== verification/Hermas_Keyed_Table.thy ===== *)
theory Hermas_Keyed_Table
  imports Hermas_Prelude
begin

text \<open>
  Fixed tables whose used entries are found by a key: the daemon's scan tables keep unfinished
  executions and active sagas this way. What a lookup returns after an entry was taken, replaced
  or freed.
\<close>

definition keyed_find :: "('e \<Rightarrow> bool) \<Rightarrow> ('e \<Rightarrow> 'k) \<Rightarrow> nat \<Rightarrow> 'e list \<Rightarrow> 'k \<Rightarrow> nat option" where
  "keyed_find used key n xs k = first_index (\<lambda>index. used (xs ! index) \<and> key (xs ! index) = k) n"

definition keyed_lookup :: "('e \<Rightarrow> bool) \<Rightarrow> ('e \<Rightarrow> 'k) \<Rightarrow> nat \<Rightarrow> 'e list \<Rightarrow> 'k \<rightharpoonup> 'e" where
  "keyed_lookup used key n xs k = map_option (\<lambda>index. xs ! index) (keyed_find used key n xs k)"

definition keyed_ok :: "('e \<Rightarrow> bool) \<Rightarrow> ('e \<Rightarrow> 'k) \<Rightarrow> nat \<Rightarrow> 'e list \<Rightarrow> bool" where
  "keyed_ok used key n xs \<longleftrightarrow> length xs = n \<and>
     (\<forall>i < n. \<forall>j < n. used (xs ! i) \<longrightarrow> used (xs ! j) \<longrightarrow> key (xs ! i) = key (xs ! j) \<longrightarrow> i = j)"

lemma keyed_find_Some:
  assumes "keyed_ok used key n xs"
  shows "keyed_find used key n xs k = Some i \<longleftrightarrow> i < n \<and> used (xs ! i) \<and> key (xs ! i) = k"
proof
  assume i: "i < n \<and> used (xs ! i) \<and> key (xs ! i) = k"
  then have "keyed_find used key n xs k \<noteq> None"
    by (auto simp: keyed_find_def first_index_None)
  then obtain j where j: "keyed_find used key n xs k = Some j" by blast
  then have "j < n" "used (xs ! j)" "key (xs ! j) = k" by (simp_all add: keyed_find_def first_index_Some)
  then have "j = i" using assms i unfolding keyed_ok_def by blast
  with j show "keyed_find used key n xs k = Some i" by simp
qed (simp add: keyed_find_def first_index_Some)

lemma keyed_find_None:
  "keyed_find used key n xs k = None \<longleftrightarrow> (\<forall>i < n. used (xs ! i) \<longrightarrow> key (xs ! i) \<noteq> k)"
  by (auto simp: keyed_find_def first_index_None)

lemma keyed_lookup_Some:
  assumes "keyed_ok used key n xs"
  shows "keyed_lookup used key n xs k = Some e \<longleftrightarrow> e \<in> set xs \<and> used e \<and> key e = k"
  using assms
  by (auto simp: keyed_lookup_def keyed_find_Some in_set_conv_nth keyed_ok_def)

lemma keyed_lookup_None:
  "keyed_lookup used key n xs k = None \<longleftrightarrow> (\<forall>i < n. used (xs ! i) \<longrightarrow> key (xs ! i) \<noteq> k)"
  by (simp add: keyed_lookup_def keyed_find_None)

text \<open>
  Replacing an entry that is free or carries key \<open>k\<close> by one that is free or carries key \<open>k\<close>
  changes what is found under \<open>k\<close> only.
\<close>

lemma keyed_update:
  assumes ok: "keyed_ok used key n xs" and i: "i < n"
    and new: "used e \<Longrightarrow> key e = k"
    and old: "used (xs ! i) \<Longrightarrow> key (xs ! i) = k"
    and fresh: "\<And>j. j < n \<Longrightarrow> j \<noteq> i \<Longrightarrow> used (xs ! j) \<Longrightarrow> key (xs ! j) \<noteq> k"
  shows "keyed_ok used key n (xs[i := e])"
    and "keyed_lookup used key n (xs[i := e]) = (keyed_lookup used key n xs)(k := if used e then Some e else None)"
proof -
  have len: "length xs = n" using ok by (simp add: keyed_ok_def)
  show ok': "keyed_ok used key n (xs[i := e])"
    using ok i new fresh len unfolding keyed_ok_def by (auto simp: nth_list_update)
  show "keyed_lookup used key n (xs[i := e]) = (keyed_lookup used key n xs)(k := if used e then Some e else None)"
  proof
    fix y
    show "keyed_lookup used key n (xs[i := e]) y =
        ((keyed_lookup used key n xs)(k := if used e then Some e else None)) y"
    proof (cases "y = k")
      case True
      have "keyed_lookup used key n (xs[i := e]) k = (if used e then Some e else None)"
      proof (cases "used e")
        case True
        then show ?thesis
          using keyed_lookup_Some [OF ok', of k e] new i len by (simp add: set_update_memI)
      next
        case False
        then show ?thesis
          using fresh len i by (auto simp: keyed_lookup_None nth_list_update split: if_splits)
      qed
      with True show ?thesis by simp
    next
      case False
      have "keyed_find used key n (xs[i := e]) y = keyed_find used key n xs y"
        unfolding keyed_find_def
        using False new old len i by (intro first_index_cong) (auto simp: nth_list_update)
      moreover have "keyed_find used key n xs y \<noteq> Some i"
        using False old i by (simp add: keyed_find_Some [OF ok])
      ultimately show ?thesis
        using False by (auto simp: keyed_lookup_def map_option_case split: option.split)
    qed
  qed
qed

lemma keyed_update_found:
  assumes ok: "keyed_ok used key n xs" and found: "keyed_find used key n xs k = Some i"
    and new: "used e \<Longrightarrow> key e = k"
  shows "keyed_ok used key n (xs[i := e])"
    and "keyed_lookup used key n (xs[i := e]) = (keyed_lookup used key n xs)(k := if used e then Some e else None)"
proof -
  have i: "i < n" "used (xs ! i)" "key (xs ! i) = k" using found by (simp_all add: keyed_find_Some [OF ok])
  have fresh: "key (xs ! j) \<noteq> k" if "j < n" "j \<noteq> i" "used (xs ! j)" for j
    using ok i that unfolding keyed_ok_def by metis
  show "keyed_ok used key n (xs[i := e])"
    and "keyed_lookup used key n (xs[i := e]) = (keyed_lookup used key n xs)(k := if used e then Some e else None)"
    using keyed_update [OF ok i(1) new i(3) fresh] by simp_all
qed

lemma keyed_update_free:
  assumes ok: "keyed_ok used key n xs" and i: "i < n" "\<not> used (xs ! i)"
    and absent: "keyed_find used key n xs k = None" and new: "used e" "key e = k"
  shows "keyed_ok used key n (xs[i := e])"
    and "keyed_lookup used key n (xs[i := e]) = (keyed_lookup used key n xs)(k \<mapsto> e)"
proof -
  have fresh: "key (xs ! j) \<noteq> k" if "j < n" "j \<noteq> i" "used (xs ! j)" for j
    using absent that by (simp add: keyed_find_None)
  show "keyed_ok used key n (xs[i := e])"
    and "keyed_lookup used key n (xs[i := e]) = (keyed_lookup used key n xs)(k \<mapsto> e)"
    using keyed_update [OF ok i(1), of e k] new i(2) fresh by simp_all
qed

end
