(* ===== verification/Hermas_Saga_Trace.thy ===== *)
theory Hermas_Saga_Trace
  imports Hermas_Saga_Scan Hermas_Keyed_Table
begin

text \<open>
  What an accepted saga log says of every saga in it: its steps are compensated in strictly
  descending order without a gap, success is reported only when the first step is compensated,
  and anything else ends it with the outcome of the step that failed.
\<close>

section \<open>Progress of a saga\<close>

text \<open>
  Per execution: the ordinal it started from, the ordinals compensated since then in log order,
  and the outcome that stopped it, if any.
\<close>

type_synonym saga_progress = "u16 \<times> u16 list \<times> u16 option"

fun progress_kind ::
  "hermas_saga_log_kind \<Rightarrow> hermas_saga_log_record \<Rightarrow> saga_progress option \<Rightarrow> saga_progress option" where
  "progress_kind HERMAS_SAGA_LOG_STARTED r p = Some (sl_ordinal r, [], None)"
| "progress_kind HERMAS_SAGA_LOG_STEP_SUCCEEDED r p =
     map_option (\<lambda>(start, done, stop). (start, done @ [sl_ordinal r], stop)) p"
| "progress_kind HERMAS_SAGA_LOG_STEP_FAILED r p =
     map_option (\<lambda>(start, done, stop). (start, done, Some (sl_outcome r))) p"
| "progress_kind HERMAS_SAGA_LOG_STEP_UNKNOWN r p =
     map_option (\<lambda>(start, done, stop). (start, done, Some (sl_outcome r))) p"
| "progress_kind HERMAS_SAGA_LOG_FINISHED r p = None"
| "progress_kind _ r p = p"

definition saga_progress :: "hermas_saga_log_record list \<Rightarrow> u64 \<Rightarrow> saga_progress option" where
  "saga_progress rs x =
     foldl (\<lambda>p r. if sl_execution_id r = x then progress_kind (sl_kind r) r p else p) None rs"

lemma saga_progress_nil [simp]: "saga_progress [] x = None"
  by (simp add: saga_progress_def)

lemma saga_progress_snoc:
  "saga_progress (rs @ [r]) x =
    (if sl_execution_id r = x then progress_kind (sl_kind r) r (saga_progress rs x) else saga_progress rs x)"
  by (simp add: saga_progress_def)

text \<open>The ordinals from \<open>start\<close> down to just above \<open>next\<close>.\<close>

definition descending :: "u16 \<Rightarrow> u16 \<Rightarrow> u16 list" where
  "descending start next = map of_nat (rev [Suc (unat next)..<Suc (unat start)])"

lemma descending_same [simp]: "descending k k = []"
  by (simp add: descending_def)

lemma unat_pred:
  assumes "(n :: u16) \<noteq> 0"
  shows "unat n = Suc (unat (n - 1))"
proof -
  have "unat (n - 1) = unat n - 1" using assms by (metis unat_minus_one)
  moreover have "0 < unat n" using assms by (simp add: unat_gt_0)
  ultimately show ?thesis by simp
qed

lemma descending_step:
  assumes "next \<noteq> 0" and "next \<le> start"
  shows "descending start (next - 1) = descending start next @ [next]"
proof -
  have "unat next \<le> unat start" using assms(2) by (simp add: word_le_nat_alt)
  then have "[Suc (unat (next - 1))..<Suc (unat start)] = unat next # [Suc (unat next)..<Suc (unat start)]"
    by (simp add: unat_pred [OF assms(1), symmetric] upt_rec [of "unat next"])
  then show ?thesis by (simp add: descending_def)
qed

lemma pred_le: "next \<noteq> 0 \<Longrightarrow> next \<le> start \<Longrightarrow> next - 1 \<le> (start :: u16)"
  using unat_pred [of "next"] by (simp add: word_le_nat_alt)

section \<open>The invariant\<close>

definition saga_entry_inv :: "hermas_saga_log_record list \<Rightarrow> u64 \<Rightarrow> scan_active \<Rightarrow> bool" where
  "saga_entry_inv rs x e \<longleftrightarrow>
    (\<exists>start. saga_progress rs x = Some (start, descending start (sa_next_ordinal (sc_value e)),
        if sc_terminal e then Some (sa_terminal_outcome (sc_value e)) else None) \<and>
      0 < start \<and> start \<le> 16 \<and> sa_next_ordinal (sc_value e) \<le> start) \<and>
    (sc_terminal e \<longrightarrow> sa_terminal_outcome (sc_value e) \<noteq> HERMAS_OUTCOME_SUCCESS \<and>
       sa_next_ordinal (sc_value e) \<noteq> 0 \<and> sc_delivery e = DELIVERY_NONE) \<and>
    (sc_delivery e \<noteq> DELIVERY_NONE \<longrightarrow> sa_next_ordinal (sc_value e) \<noteq> 0)"

definition saga_key :: "scan_active \<Rightarrow> u64" where
  "saga_key e = sa_execution_id (sc_value e)"

definition saga_lookup :: "scan_active list \<Rightarrow> u64 \<rightharpoonup> scan_active" where
  "saga_lookup = keyed_lookup sc_active saga_key 16"

definition saga_table_ok :: "scan_active list \<Rightarrow> bool" where
  "saga_table_ok entries \<longleftrightarrow> keyed_ok sc_active saga_key 16 entries \<and>
     (\<forall>e \<in> set entries. sc_active e \<or> e = zero_scan_active)"

lemma find_active_keyed: "find_active = keyed_find sc_active saga_key 16"
  by (simp add: fun_eq_iff find_active_def keyed_find_def saga_key_def)

definition saga_scan_inv :: "hermas_saga_log_record list \<Rightarrow> saga_loop \<Rightarrow> bool" where
  "saga_scan_inv rs s \<longleftrightarrow>
     saga_table_ok (lo_entries s) \<and>
     (\<forall>x. case saga_lookup (lo_entries s) x of None \<Rightarrow> saga_progress rs x = None
          | Some e \<Rightarrow> saga_entry_inv rs x e) \<and>
     lo_record_count s = of_nat (length rs) \<and> lo_next_sequence s = of_nat (length rs) + 1 \<and>
     (\<forall>i < length rs. sl_sequence (rs ! i) = of_nat (i + 1))"

lemma saga_scan_inv_start: "saga_scan_inv [] saga_loop_start"
proof -
  have "saga_lookup (replicate 16 zero_scan_active) x = None" for x
    by (simp add: saga_lookup_def keyed_lookup_None zero_scan_active_def)
  moreover have "keyed_ok sc_active saga_key 16 (replicate 16 zero_scan_active)"
    by (simp add: keyed_ok_def zero_scan_active_def)
  ultimately show ?thesis by (simp add: saga_scan_inv_def saga_loop_start_def saga_table_ok_def)
qed

text \<open>A step of one entry keeps its identity or frees it.\<close>

lemma saga_kind_step_entry:
  assumes "saga_kind_step k e r = Inr e'" and "sc_active e"
  shows "(if k = HERMAS_SAGA_LOG_FINISHED then e' = zero_scan_active
     else sc_active e' \<and> sa_execution_id (sc_value e') = sa_execution_id (sc_value e))"
  using assms
  by (cases k) (auto simp: saga_prepared_def saga_sent_def saga_step_closed_def saga_finished_def Let_def
      split: if_splits)

lemma saga_entry_inv_step:
  assumes inv: "saga_entry_inv rs (sl_execution_id r) e"
    and step: "saga_kind_step (sl_kind r) e r = Inr e'"
    and valid: "saga_validate r = HERMAS_SAGA_LOG_OK"
    and going: "sl_kind r \<noteq> HERMAS_SAGA_LOG_FINISHED"
  shows "saga_entry_inv (rs @ [r]) (sl_execution_id r) e'"
proof (cases "sl_kind r")
  case HERMAS_SAGA_LOG_DELIVERY_PREPARED
  then show ?thesis
    using inv step valid
    by (auto simp: saga_entry_inv_def saga_progress_snoc saga_prepared_def saga_validate_def action_kind_def
        split: if_splits)
next
  case HERMAS_SAGA_LOG_DELIVERY_SENT
  then show ?thesis
    using inv step by (auto simp: saga_entry_inv_def saga_progress_snoc saga_sent_def split: if_splits)
next
  case HERMAS_SAGA_LOG_STEP_SUCCEEDED
  then have e': "e' = e\<lparr>sc_delivery := DELIVERY_NONE, sc_value := (sc_value e)\<lparr>sa_has_open_delivery := 0,
        sa_delivery_was_sent := 0, sa_next_ordinal := sa_next_ordinal (sc_value e) - 1, sa_request_id := 0,
        sa_forward_node := 0, sa_app_id := 0, sa_action_id := 0\<rparr>\<rparr>"
    and ord: "sl_ordinal r = sa_next_ordinal (sc_value e)" and sent: "sc_delivery e = DELIVERY_SENT"
    using step by (auto simp: saga_step_closed_def saga_route_matches_def Let_def split: if_splits)
  obtain start where p: "saga_progress rs (sl_execution_id r) =
      Some (start, descending start (sa_next_ordinal (sc_value e)), None)"
    and start: "0 < start" "start \<le> 16" "sa_next_ordinal (sc_value e) \<le> start"
    and next0: "sa_next_ordinal (sc_value e) \<noteq> 0" and live: "\<not> sc_terminal e"
    using inv sent by (auto simp: saga_entry_inv_def split: if_splits)
  have "sa_next_ordinal (sc_value e) - 1 \<le> start"
    using start(3) next0 by (intro pred_le)
  then show ?thesis
    using p start next0 live HERMAS_SAGA_LOG_STEP_SUCCEEDED
    by (simp add: saga_entry_inv_def saga_progress_snoc e' ord descending_step)
next
  case HERMAS_SAGA_LOG_STARTED
  then show ?thesis using step by simp
next
  case HERMAS_SAGA_LOG_KIND_OTHER
  then show ?thesis using step by simp
next
  case HERMAS_SAGA_LOG_FINISHED
  then show ?thesis using going by simp
next
  case HERMAS_SAGA_LOG_STEP_FAILED
  then show ?thesis
    using inv step valid
    by (auto simp: saga_entry_inv_def saga_progress_snoc saga_step_closed_def saga_validate_def Let_def
        split: if_splits)
next
  case HERMAS_SAGA_LOG_STEP_UNKNOWN
  then show ?thesis
    using inv step valid
    by (auto simp: saga_entry_inv_def saga_progress_snoc saga_step_closed_def saga_validate_def Let_def
        split: if_splits)
qed

text \<open>A step of the whole table.\<close>

lemma saga_transition_lookup:
  assumes ok: "saga_table_ok entries" and step: "saga_transition entries r = Inr entries'"
  shows "saga_table_ok entries'"
    and "\<exists>new. saga_lookup entries' = (saga_lookup entries)(sl_execution_id r := new) \<and>
      (if sl_kind r = HERMAS_SAGA_LOG_STARTED
       then saga_lookup entries (sl_execution_id r) = None \<and>
         new = Some (zero_scan_active\<lparr>sc_active := True, sc_value := zero_saga_active
           \<lparr>sa_execution_id := sl_execution_id r, sa_workflow_id := sl_workflow_id r,
            sa_image_fingerprint := sl_image_fingerprint r, sa_next_ordinal := sl_ordinal r\<rparr>\<rparr>)
       else \<exists>e e'. saga_lookup entries (sl_execution_id r) = Some e \<and>
         saga_kind_step (sl_kind r) e r = Inr e' \<and>
         new = (if sl_kind r = HERMAS_SAGA_LOG_FINISHED then None else Some e'))"
proof -
  let ?key = saga_key and ?x = "sl_execution_id r"
  have keyed: "keyed_ok sc_active ?key 16 entries" and free: "\<And>e. e \<in> set entries \<Longrightarrow> sc_active e \<or> e = zero_scan_active"
    using ok by (auto simp: saga_table_ok_def)
  have good: "saga_table_ok (entries[i := e])"
    if "keyed_ok sc_active ?key 16 (entries[i := e])" "sc_active e \<or> e = zero_scan_active" for i e
    using that free by (auto simp: saga_table_ok_def dest: set_update_subset_insert [THEN subsetD])
  have "saga_table_ok entries' \<and> (\<exists>new. saga_lookup entries' = (saga_lookup entries)(?x := new) \<and>
      (if sl_kind r = HERMAS_SAGA_LOG_STARTED
       then saga_lookup entries ?x = None \<and>
         new = Some (zero_scan_active\<lparr>sc_active := True, sc_value := zero_saga_active
           \<lparr>sa_execution_id := ?x, sa_workflow_id := sl_workflow_id r,
            sa_image_fingerprint := sl_image_fingerprint r, sa_next_ordinal := sl_ordinal r\<rparr>\<rparr>)
       else \<exists>e e'. saga_lookup entries ?x = Some e \<and> saga_kind_step (sl_kind r) e r = Inr e' \<and>
         new = (if sl_kind r = HERMAS_SAGA_LOG_FINISHED then None else Some e')))"
  proof (cases "sl_kind r = HERMAS_SAGA_LOG_STARTED")
    case True
    let ?e = "zero_scan_active\<lparr>sc_active := True, sc_value := zero_saga_active
           \<lparr>sa_execution_id := ?x, sa_workflow_id := sl_workflow_id r,
            sa_image_fingerprint := sl_image_fingerprint r, sa_next_ordinal := sl_ordinal r\<rparr>\<rparr>"
    have absent: "keyed_find sc_active ?key 16 entries ?x = None" and started: "saga_started entries r = Inr entries'"
      using step True by (auto simp: saga_transition_def find_active_keyed Let_def split: if_splits)
    obtain i where i: "i < 16" "\<not> sc_active (entries ! i)"
      and e0: "entries' = entries[i := (entries ! i)\<lparr>sc_active := True,
               sc_value := (sc_value (entries ! i))\<lparr>sa_execution_id := ?x,
                 sa_workflow_id := sl_workflow_id r, sa_image_fingerprint := sl_image_fingerprint r,
                 sa_next_ordinal := sl_ordinal r\<rparr>\<rparr>]"
      using started by (auto simp: saga_started_def first_index_Some Let_def split: option.splits)
    have "entries ! i = zero_scan_active"
      using free [of "entries ! i"] i keyed by (simp add: keyed_ok_def)
    then have e': "entries' = entries[i := ?e]" by (simp add: e0) (simp add: zero_scan_active_def)
    have new: "sc_active ?e" "?key ?e = ?x" by (simp_all add: saga_key_def)
    note upd = keyed_update_free [OF keyed i absent new]
    have "saga_lookup entries ?x = None"
      using absent by (simp add: saga_lookup_def keyed_lookup_def)
    then show ?thesis
      using upd(2) good [OF upd(1)] True unfolding e' saga_lookup_def
      by (intro conjI exI [of _ "Some ?e"]) simp_all
  next
    case False
    obtain i where found: "keyed_find sc_active ?key 16 entries ?x = Some i"
      using step False by (auto simp: saga_transition_def find_active_keyed Let_def split: option.splits)
    let ?e = "entries ! i"
    obtain e' where kind: "saga_kind_step (sl_kind r) ?e r = Inr e'" and e0: "entries' = entries[i := e']"
      using step False found by (auto simp: saga_transition_def find_active_keyed Let_def split: if_splits)
    have "sc_active ?e" "?key ?e = ?x" using found by (simp_all add: keyed_find_Some [OF keyed])
    then have shape: "if sl_kind r = HERMAS_SAGA_LOG_FINISHED then e' = zero_scan_active
        else sc_active e' \<and> ?key e' = ?x"
      using saga_kind_step_entry [OF kind] by (auto simp: saga_key_def split: if_splits)
    have zero: "\<not> sc_active zero_scan_active" by (simp add: zero_scan_active_def)
    have key: "sc_active e' \<Longrightarrow> ?key e' = ?x" using shape zero by (auto split: if_splits)
    note upd = keyed_update_found [OF keyed found key]
    have "saga_lookup entries ?x = Some ?e"
      using found by (simp add: saga_lookup_def keyed_lookup_def)
    moreover have "saga_lookup entries' =
        (saga_lookup entries)(?x := if sl_kind r = HERMAS_SAGA_LOG_FINISHED then None else Some e')"
      using upd(2) shape zero unfolding e0 saga_lookup_def by (auto split: if_splits)
    moreover have "saga_table_ok entries'"
      using good [OF upd(1)] shape unfolding e0 by (auto split: if_splits)
    ultimately show ?thesis using kind False by auto
  qed
  then show "saga_table_ok entries'"
    and "\<exists>new. saga_lookup entries' = (saga_lookup entries)(?x := new) \<and>
      (if sl_kind r = HERMAS_SAGA_LOG_STARTED
       then saga_lookup entries ?x = None \<and>
         new = Some (zero_scan_active\<lparr>sc_active := True, sc_value := zero_saga_active
           \<lparr>sa_execution_id := ?x, sa_workflow_id := sl_workflow_id r,
            sa_image_fingerprint := sl_image_fingerprint r, sa_next_ordinal := sl_ordinal r\<rparr>\<rparr>)
       else \<exists>e e'. saga_lookup entries ?x = Some e \<and> saga_kind_step (sl_kind r) e r = Inr e' \<and>
         new = (if sl_kind r = HERMAS_SAGA_LOG_FINISHED then None else Some e'))"
    by blast+
qed

lemma saga_entry_inv_other:
  "sl_execution_id r \<noteq> x \<Longrightarrow> saga_entry_inv (rs @ [r]) x e = saga_entry_inv rs x e"
  by (simp add: saga_entry_inv_def saga_progress_snoc)

lemma saga_scan_invD:
  "saga_scan_inv rs s \<Longrightarrow> saga_lookup (lo_entries s) x = Some e \<Longrightarrow> saga_entry_inv rs x e"
  "saga_scan_inv rs s \<Longrightarrow> saga_lookup (lo_entries s) x = None \<Longrightarrow> saga_progress rs x = None"
  unfolding saga_scan_inv_def by (metis option.simps(5)) (metis option.simps(4))

lemma saga_scan_inv_step:
  assumes inv: "saga_scan_inv rs s" and step: "saga_scan_record s r = Inr s'"
    and valid: "saga_validate r = HERMAS_SAGA_LOG_OK"
  shows "saga_scan_inv (rs @ [r]) s'"
proof -
  let ?x = "sl_execution_id r"
  have trans: "saga_transition (lo_entries s) r = Inr (lo_entries s')"
    and seq: "sl_sequence r = lo_next_sequence s" "lo_record_count s' = lo_record_count s + 1"
      "lo_next_sequence s' = lo_next_sequence s + 1"
    using step by (auto simp: saga_scan_record_def split: if_splits sum.splits)
  have ok: "saga_table_ok (lo_entries s)" using inv by (simp add: saga_scan_inv_def)
  obtain new where upd: "saga_lookup (lo_entries s') = (saga_lookup (lo_entries s))(?x := new)"
    and new: "if sl_kind r = HERMAS_SAGA_LOG_STARTED
       then saga_lookup (lo_entries s) ?x = None \<and>
         new = Some (zero_scan_active\<lparr>sc_active := True, sc_value := zero_saga_active
           \<lparr>sa_execution_id := ?x, sa_workflow_id := sl_workflow_id r,
            sa_image_fingerprint := sl_image_fingerprint r, sa_next_ordinal := sl_ordinal r\<rparr>\<rparr>)
       else \<exists>e e'. saga_lookup (lo_entries s) ?x = Some e \<and> saga_kind_step (sl_kind r) e r = Inr e' \<and>
         new = (if sl_kind r = HERMAS_SAGA_LOG_FINISHED then None else Some e')"
    using saga_transition_lookup(2) [OF ok trans] by blast
  have entry: "case new of None \<Rightarrow> saga_progress (rs @ [r]) ?x = None | Some e \<Rightarrow> saga_entry_inv (rs @ [r]) ?x e"
  proof (cases "sl_kind r = HERMAS_SAGA_LOG_STARTED")
    case True
    then have "0 < sl_ordinal r" "sl_ordinal r \<le> 16"
      using valid by (auto simp: saga_validate_def action_kind_def word_gt_0 split: if_splits)
    then show ?thesis
      using new True by (simp add: saga_entry_inv_def saga_progress_snoc zero_scan_active_def zero_saga_active_def)
  next
    case False
    then obtain e e' where e: "saga_lookup (lo_entries s) ?x = Some e"
      and kind: "saga_kind_step (sl_kind r) e r = Inr e'"
      and n: "new = (if sl_kind r = HERMAS_SAGA_LOG_FINISHED then None else Some e')"
      using new by auto
    show ?thesis
    proof (cases "sl_kind r = HERMAS_SAGA_LOG_FINISHED")
      case True
      then show ?thesis using n by (simp add: saga_progress_snoc)
    next
      case False
      then show ?thesis
        using n saga_entry_inv_step [OF saga_scan_invD(1) [OF inv e] kind valid] by simp
    qed
  qed
  have "case saga_lookup (lo_entries s') x of None \<Rightarrow> saga_progress (rs @ [r]) x = None
      | Some e \<Rightarrow> saga_entry_inv (rs @ [r]) x e" for x
  proof (cases "x = ?x")
    case True
    then show ?thesis using entry upd by (simp only: True fun_upd_same)
  next
    case False
    then have "saga_lookup (lo_entries s') x = saga_lookup (lo_entries s) x" using upd by simp
    then show ?thesis
      using False saga_scan_invD [OF inv, of x]
      by (cases "saga_lookup (lo_entries s) x") (simp_all add: saga_entry_inv_other saga_progress_snoc)
  qed
  then show ?thesis
    using inv seq saga_transition_lookup(1) [OF ok trans]
    by (auto simp: saga_scan_inv_def nth_append less_Suc_eq)
qed

section \<open>Properties of accepted saga logs\<close>

lemma framed_saga_valid:
  "framed saga_parse bs rs \<Longrightarrow> r \<in> set rs \<Longrightarrow> saga_validate r = HERMAS_SAGA_LOG_OK"
  by (induction rule: framed.induct) (auto simp: saga_parse_Inr dest: saga_decode_OK_reads(8))

lemma saga_run_inv:
  "run_records saga_scan_record saga_loop_start rs = Inr s \<Longrightarrow>
   \<forall>r \<in> set rs. saga_validate r = HERMAS_SAGA_LOG_OK \<Longrightarrow> saga_scan_inv rs s"
proof (induction rs arbitrary: s rule: rev_induct)
  case Nil
  then show ?case using saga_scan_inv_start by simp
next
  case (snoc r rs)
  then show ?case by (auto simp: run_records_snoc_Inr intro: saga_scan_inv_step)
qed

lemma saga_scan_errors: "saga_log_decode p \<noteq> Inl HERMAS_SAGA_LOG_OK" "saga_scan_record s r \<noteq> Inl HERMAS_SAGA_LOG_OK"
proof -
  show "saga_log_decode p \<noteq> Inl HERMAS_SAGA_LOG_OK" by (auto simp: saga_log_decode_def Let_def)
  have "saga_kind_step k e r \<noteq> Inl HERMAS_SAGA_LOG_OK" for k e
    by (cases k) (auto simp: saga_prepared_def saga_sent_def saga_step_closed_def saga_finished_def Let_def)
  then show "saga_scan_record s r \<noteq> Inl HERMAS_SAGA_LOG_OK"
    by (auto simp: saga_scan_record_def saga_transition_def saga_started_def Let_def split: sum.split option.split)
qed

lemma saga_scan_from_error: "saga_scan_from bs off s \<noteq> Inl HERMAS_SAGA_LOG_OK"
proof (induction bs off s rule: saga_scan_from.induct)
  case (1 bs off s)
  then show ?case
    using saga_scan_errors(1) [of "chunk bs off 64"] saga_scan_errors(2) [of s]
    by (subst saga_scan_from.simps) (auto split: sum.split)
qed

lemma saga_scan_records:
  assumes "hermas_saga_log_scan (Some bs) (length bs) summary = (HERMAS_SAGA_LOG_OK, Some ss)"
  obtains rs s where "framed saga_parse bs rs" and "run_records saga_scan_record saga_loop_start rs = Inr s"
    and "saga_scan_inv rs s" and "ss = saga_summary s"
proof -
  from assms obtain s where scan: "saga_scan_from bs 0 saga_loop_start = Inr s" and ss: "ss = saga_summary s"
    by (auto simp: hermas_saga_log_scan_def saga_scan_from_error split: if_splits sum.splits)
  from scan obtain rs where rs: "framed saga_parse bs rs" and run: "run_records saga_scan_record saga_loop_start rs = Inr s"
    unfolding saga_log.scan_iff by blast
  have "saga_scan_inv rs s"
    using saga_run_inv [OF run] framed_saga_valid [OF rs] by blast
  with rs run ss that show thesis by blast
qed

lemma saga_finished_at:
  assumes run: "run_records saga_scan_record saga_loop_start rs = Inr s"
    and valid: "\<forall>r \<in> set rs. saga_validate r = HERMAS_SAGA_LOG_OK"
    and i: "i < length rs" and fin: "sl_kind (rs ! i) = HERMAS_SAGA_LOG_FINISHED"
  obtains e e' where "saga_entry_inv (take i rs) (sl_execution_id (rs ! i)) e"
    and "saga_finished e (rs ! i) = Inr e'"
proof -
  have split: "rs = take i rs @ rs ! i # drop (Suc i) rs" using i by (simp add: id_take_nth_drop)
  with run have "run_records saga_scan_record saga_loop_start (take i rs @ rs ! i # drop (Suc i) rs) = Inr s"
    by simp
  then obtain si si' where si: "run_records saga_scan_record saga_loop_start (take i rs) = Inr si"
    and step: "saga_scan_record si (rs ! i) = Inr si'"
    by (auto simp: run_records_append split: sum.splits)
  have inv: "saga_scan_inv (take i rs) si"
    using saga_run_inv [OF si] valid by (auto dest: in_set_takeD)
  have trans: "saga_transition (lo_entries si) (rs ! i) = Inr (lo_entries si')"
    using step by (auto simp: saga_scan_record_def split: if_splits sum.splits)
  have "saga_table_ok (lo_entries si)" using inv by (simp add: saga_scan_inv_def)
  from saga_transition_lookup(2) [OF this trans] fin obtain e e' where
    "saga_lookup (lo_entries si) (sl_execution_id (rs ! i)) = Some e" "saga_finished e (rs ! i) = Inr e'"
    by auto
  then show thesis using that saga_scan_invD(1) [OF inv] by blast
qed

text \<open>C4: Sagas compensate in reverse: in every saga log that \<open>hermas_saga_log_scan\<close> accepts, a
  saga is finished with success only after its steps were compensated one by one from the
  ordinal it started with down to one, each exactly once and in descending order; any other
  final outcome is the outcome of the step that stopped it, after the steps above it were
  compensated in that order.\<close>

theorem saga_log_reverse_order:
  assumes "hermas_saga_log_scan (Some bs) (length bs) summary = (HERMAS_SAGA_LOG_OK, Some ss)"
  shows "\<exists>rs. framed saga_parse bs rs \<and>
    (\<forall>i < length rs. sl_kind (rs ! i) = HERMAS_SAGA_LOG_FINISHED \<longrightarrow>
      (\<exists>start next stop. saga_progress (take i rs) (sl_execution_id (rs ! i)) =
          Some (start, descending start next, stop) \<and> 0 < start \<and> start \<le> 16 \<and> next \<le> start \<and>
        (if sl_outcome (rs ! i) = HERMAS_OUTCOME_SUCCESS then next = 0 \<and> stop = None
         else next \<noteq> 0 \<and> stop = Some (sl_outcome (rs ! i)))))"
proof -
  from assms obtain rs s where rs: "framed saga_parse bs rs"
    and run: "run_records saga_scan_record saga_loop_start rs = Inr s"
    by (rule saga_scan_records)
  have valid: "\<forall>r \<in> set rs. saga_validate r = HERMAS_SAGA_LOG_OK"
    using framed_saga_valid [OF rs] by blast
  have "\<exists>start next stop. saga_progress (take i rs) (sl_execution_id (rs ! i)) =
          Some (start, descending start next, stop) \<and> 0 < start \<and> start \<le> 16 \<and> next \<le> start \<and>
        (if sl_outcome (rs ! i) = HERMAS_OUTCOME_SUCCESS then next = 0 \<and> stop = None
         else next \<noteq> 0 \<and> stop = Some (sl_outcome (rs ! i)))"
    if i: "i < length rs" and fin: "sl_kind (rs ! i) = HERMAS_SAGA_LOG_FINISHED" for i
  proof -
    obtain e e' where inv: "saga_entry_inv (take i rs) (sl_execution_id (rs ! i)) e"
      and finish: "saga_finished e (rs ! i) = Inr e'"
      using saga_finished_at [OF run valid i fin] .
    then obtain start where "saga_progress (take i rs) (sl_execution_id (rs ! i)) =
        Some (start, descending start (sa_next_ordinal (sc_value e)),
          if sc_terminal e then Some (sa_terminal_outcome (sc_value e)) else None)"
      "0 < start" "start \<le> 16" "sa_next_ordinal (sc_value e) \<le> start"
      by (auto simp: saga_entry_inv_def)
    then show ?thesis
      using inv finish by (auto simp: saga_finished_def saga_entry_inv_def Let_def split: if_splits)
  qed
  with rs show ?thesis by blast
qed

text \<open>C11: The summary of an accepted saga log lists exactly the sagas still in progress, each with
  the next ordinal to compensate: everything above it has been compensated in descending
  order and nothing below it has.\<close>

theorem saga_log_active:
  assumes "hermas_saga_log_scan (Some bs) (length bs) summary = (HERMAS_SAGA_LOG_OK, Some ss)"
  shows "\<exists>rs. framed saga_parse bs rs \<and>
    sa_execution_id ` set (ss_active ss) = {x. saga_progress rs x \<noteq> None} \<and>
    (\<forall>a \<in> set (ss_active ss). \<exists>start stop. saga_progress rs (sa_execution_id a) =
       Some (start, descending start (sa_next_ordinal a), stop) \<and> sa_next_ordinal a \<le> start)"
proof -
  from assms obtain rs s where rs: "framed saga_parse bs rs"
    and "run_records saga_scan_record saga_loop_start rs = Inr s" and inv: "saga_scan_inv rs s"
    and ss: "ss = saga_summary s"
    by (rule saga_scan_records)
  have keyed: "keyed_ok sc_active saga_key 16 (lo_entries s)"
    using inv by (simp add: saga_scan_inv_def saga_table_ok_def)
  have active: "a \<in> set (ss_active ss) \<longleftrightarrow>
      (\<exists>e. saga_lookup (lo_entries s) (sa_execution_id a) = Some e \<and> sc_value e = a)" for a
    by (auto simp: ss saga_summary_def Let_def saga_lookup_def keyed_lookup_Some [OF keyed] saga_key_def)
  have known: "saga_progress rs x \<noteq> None \<longleftrightarrow> saga_lookup (lo_entries s) x \<noteq> None" for x
    using saga_scan_invD [OF inv, of x] by (cases "saga_lookup (lo_entries s) x") (auto simp: saga_entry_inv_def)
  have "sa_execution_id ` set (ss_active ss) = {x. saga_progress rs x \<noteq> None}"
  proof (intro set_eqI iffI)
    fix x
    assume "x \<in> sa_execution_id ` set (ss_active ss)"
    then show "x \<in> {x. saga_progress rs x \<noteq> None}" unfolding mem_Collect_eq known using active by auto
  next
    fix x
    assume "x \<in> {x. saga_progress rs x \<noteq> None}"
    then obtain e where e: "saga_lookup (lo_entries s) x = Some e" using known by auto
    then have "saga_key e = x" by (simp add: saga_lookup_def keyed_lookup_Some [OF keyed])
    then show "x \<in> sa_execution_id ` set (ss_active ss)"
      using active [of "sc_value e"] e by (auto simp: saga_key_def image_iff)
  qed
  moreover have "\<exists>start stop. saga_progress rs (sa_execution_id a) =
       Some (start, descending start (sa_next_ordinal a), stop) \<and> sa_next_ordinal a \<le> start"
    if a: "a \<in> set (ss_active ss)" for a
  proof -
    obtain e where "saga_lookup (lo_entries s) (sa_execution_id a) = Some e" "sc_value e = a"
      using a active by auto
    then show ?thesis using saga_scan_invD(1) [OF inv] by (fastforce simp: saga_entry_inv_def)
  qed
  ultimately show ?thesis using rs by blast
qed

text \<open>C31: The saga log codec is exact in both directions: a record that \<open>hermas_saga_log_encode\<close>
  accepts is what \<open>hermas_saga_log_decode\<close> reads back, the rest of the buffer untouched; and
  whatever bytes \<open>hermas_saga_log_decode\<close> accepts, encoding the record it returns writes exactly their
  first 64 bytes again.\<close>

theorem saga_log_round_trip:
  "(\<forall>r d d' old. hermas_saga_log_encode (Some r) (Some d) = (HERMAS_SAGA_LOG_OK, Some d') \<longrightarrow>
      hermas_saga_log_decode (Some (take 64 d')) (Some old) = (HERMAS_SAGA_LOG_OK, Some r) \<and>
      drop 64 d' = drop 64 d) \<and>
   (\<forall>s old r d. hermas_saga_log_decode (Some s) (Some old) = (HERMAS_SAGA_LOG_OK, Some r) \<and> 64 \<le> length d \<longrightarrow>
      hermas_saga_log_encode (Some r) (Some d) = (HERMAS_SAGA_LOG_OK, Some (take 64 s @ drop 64 d)))"
proof (intro conjI allI impI)
  fix r d d' old
  assume "hermas_saga_log_encode (Some r) (Some d) = (HERMAS_SAGA_LOG_OK, Some d')"
  then have "saga_log_encode r d = (HERMAS_SAGA_LOG_OK, d')"
    by (auto simp: hermas_saga_log_encode_def split: prod.splits)
  note ok = saga_encode_decode [OF this]
  show "hermas_saga_log_decode (Some (take 64 d')) (Some old) = (HERMAS_SAGA_LOG_OK, Some r)"
    and "drop 64 d' = drop 64 d"
    using ok by (simp_all add: hermas_saga_log_decode_def)
next
  fix s :: bytes and old r and d :: bytes
  assume decoded: "hermas_saga_log_decode (Some s) (Some old) = (HERMAS_SAGA_LOG_OK, Some r) \<and> 64 \<le> length d"
  then have dec: "saga_log_decode s = Inr r"
    by (auto simp: hermas_saga_log_decode_def saga_scan_errors split: sum.splits)
  have "saga_log_decode (take 64 s) = Inr r" by (rule saga_decode_prefix [OF dec])
  then show "hermas_saga_log_encode (Some r) (Some d) = (HERMAS_SAGA_LOG_OK, Some (take 64 s @ drop 64 d))"
    using saga_decode_encode [of "take 64 s" r d] saga_decode_OK_reads(1) [OF dec] decoded
    by (simp add: hermas_saga_log_encode_def)
qed

section \<open>A concrete saga log\<close>

text \<open>One saga with one step, compensated and finished, and the same log while the step is open.\<close>

definition saga_sample :: "hermas_saga_log_kind \<Rightarrow> u16 \<Rightarrow> u64 \<Rightarrow> u16 \<Rightarrow> hermas_saga_log_record" where
  "saga_sample kind out sequence ordinal =
    \<lparr>sl_kind = kind, sl_outcome = out, sl_sequence = sequence, sl_execution_id = 41, sl_workflow_id = 7,
     sl_request_id = (if action_kind kind then 1 else 0), sl_forward_node = (if action_kind kind then 2 else 0),
     sl_app_id = (if action_kind kind then 3 else 0), sl_action_id = (if action_kind kind then 4 else 0),
     sl_ordinal = ordinal, sl_image_fingerprint = 99\<rparr>"

definition saga_samples :: "hermas_saga_log_record list" where
  "saga_samples = [saga_sample HERMAS_SAGA_LOG_STARTED 2 1 1, saga_sample HERMAS_SAGA_LOG_DELIVERY_PREPARED 0 2 1,
     saga_sample HERMAS_SAGA_LOG_DELIVERY_SENT 0 3 1, saga_sample HERMAS_SAGA_LOG_STEP_SUCCEEDED 1 4 1,
     saga_sample HERMAS_SAGA_LOG_FINISHED 1 5 0]"

definition saga_encoded :: "hermas_saga_log_record \<Rightarrow> bytes" where
  "saga_encoded r = snd (saga_log_encode r (replicate 64 0))"

lemma saga_encoded_parse:
  assumes "saga_validate r = HERMAS_SAGA_LOG_OK"
  shows "saga_parse (saga_encoded r) = Inr (r, length (saga_encoded r))"
proof -
  obtain p where p: "saga_log_encode r (replicate 64 0) = (HERMAS_SAGA_LOG_OK, p)"
    using assms by (simp add: saga_encode_OK_iff)
  then show ?thesis
    using saga_encode_decode(1,3) [OF p] by (simp add: saga_encoded_def saga_parse_Inr)
qed

lemma saga_encoded_framed:
  "\<forall>r \<in> set rs. saga_validate r = HERMAS_SAGA_LOG_OK \<Longrightarrow> framed saga_parse (concat (map saga_encoded rs)) rs"
proof (induction rs rule: rev_induct)
  case Nil
  then show ?case by simp
next
  case (snoc r rs)
  then show ?case
    using saga_log.framed_append [OF _ saga_encoded_parse, of _ rs r] by simp
qed

lemma saga_samples_valid: "\<forall>r \<in> set saga_samples. saga_validate r = HERMAS_SAGA_LOG_OK"
  by (simp add: saga_samples_def saga_sample_def saga_validate_def action_kind_def)

definition saga_sample_table :: "delivery_state \<Rightarrow> u16 \<Rightarrow> u64 \<Rightarrow> u16 \<Rightarrow> u16 \<Rightarrow> u16 \<Rightarrow> u8 \<Rightarrow> u8 \<Rightarrow> scan_active list" where
  "saga_sample_table delivery next q node app act opened sent =
    \<lparr>sc_value = \<lparr>sa_execution_id = 41, sa_workflow_id = 7, sa_image_fingerprint = 99, sa_request_id = q,
       sa_forward_node = node, sa_app_id = app, sa_action_id = act, sa_next_ordinal = next,
       sa_terminal_outcome = 0, sa_has_open_delivery = opened, sa_delivery_was_sent = sent\<rparr>,
     sc_delivery = delivery, sc_terminal = False, sc_active = True\<rparr> # replicate 15 zero_scan_active"

lemma saga_sample_find:
  "find_active (saga_sample_table delivery next q node app act opened sent) 41 = Some 0"
  "find_active (replicate 16 zero_scan_active) 41 = None"
  "first_index (\<lambda>index. \<not> sc_active (replicate 16 zero_scan_active ! index)) 16 = Some 0"
  by (simp_all add: find_active_def first_index_Some first_index_None saga_sample_table_def zero_scan_active_def)

lemma saga_sample_steps:
  "saga_transition (replicate 16 zero_scan_active) (saga_sample HERMAS_SAGA_LOG_STARTED 2 1 1) =
     Inr (saga_sample_table DELIVERY_NONE 1 0 0 0 0 0 0)"
  "saga_transition (saga_sample_table DELIVERY_NONE 1 0 0 0 0 0 0) (saga_sample HERMAS_SAGA_LOG_DELIVERY_PREPARED 0 2 1) =
     Inr (saga_sample_table DELIVERY_PREPARED 1 1 2 3 4 1 0)"
  "saga_transition (saga_sample_table DELIVERY_PREPARED 1 1 2 3 4 1 0) (saga_sample HERMAS_SAGA_LOG_DELIVERY_SENT 0 3 1) =
     Inr (saga_sample_table DELIVERY_SENT 1 1 2 3 4 1 1)"
  "saga_transition (saga_sample_table DELIVERY_SENT 1 1 2 3 4 1 1) (saga_sample HERMAS_SAGA_LOG_STEP_SUCCEEDED 1 4 1) =
     Inr (saga_sample_table DELIVERY_NONE 0 0 0 0 0 0 0)"
  "saga_transition (saga_sample_table DELIVERY_NONE 0 0 0 0 0 0 0) (saga_sample HERMAS_SAGA_LOG_FINISHED 1 5 0) =
     Inr (replicate 16 zero_scan_active)"
  by (simp_all add: saga_transition_def saga_started_def saga_sample_def action_kind_def saga_sample_find Let_def
      saga_prepared_def saga_sent_def saga_step_closed_def saga_finished_def)
    (simp_all add: saga_sample_table_def saga_route_matches_def zero_scan_active_def zero_saga_active_def numeral_eq_Suc)

definition saga_sample_log :: "nat \<Rightarrow> bytes" where
  "saga_sample_log n = concat (map saga_encoded (take n saga_samples))"

lemma framed_saga_length: "framed saga_parse bs rs \<Longrightarrow> length bs = 64 * length rs"
proof (induction rule: framed.induct)
  case framed_nil
  then show ?case by simp
next
  case (framed_cons bs r n rs)
  then have "n = 64" "64 \<le> length bs"
    using saga_log.parse_size [of bs r n] by (simp_all add: saga_parse_Inr)
  then show ?case using framed_cons by simp
qed

lemma saga_sample_framed: "framed saga_parse (saga_sample_log n) (take n saga_samples)"
  unfolding saga_sample_log_def
  by (rule saga_encoded_framed) (use saga_samples_valid in \<open>auto dest: in_set_takeD\<close>)

lemma saga_sample_runs:
  "run_records saga_scan_record saga_loop_start (take 3 saga_samples) =
     Inr \<lparr>lo_entries = saga_sample_table DELIVERY_SENT 1 1 2 3 4 1 1, lo_record_count = 3, lo_next_sequence = 4\<rparr>"
  "run_records saga_scan_record saga_loop_start (take 5 saga_samples) =
     Inr \<lparr>lo_entries = replicate 16 zero_scan_active, lo_record_count = 5, lo_next_sequence = 6\<rparr>"
proof -
  have seq: "sl_sequence (saga_sample k out n ord) = n" for k out n ord by (simp add: saga_sample_def)
  show "run_records saga_scan_record saga_loop_start (take 3 saga_samples) =
     Inr \<lparr>lo_entries = saga_sample_table DELIVERY_SENT 1 1 2 3 4 1 1, lo_record_count = 3, lo_next_sequence = 4\<rparr>"
    "run_records saga_scan_record saga_loop_start (take 5 saga_samples) =
     Inr \<lparr>lo_entries = replicate 16 zero_scan_active, lo_record_count = 5, lo_next_sequence = 6\<rparr>"
    by (simp_all add: saga_samples_def saga_scan_record_def saga_loop_start_def saga_sample_steps seq)
qed

lemma saga_sample_scan:
  assumes "run_records saga_scan_record saga_loop_start (take n saga_samples) = Inr s"
  shows "hermas_saga_log_scan (Some (saga_sample_log n)) (length (saga_sample_log n)) (Some old) =
    (HERMAS_SAGA_LOG_OK, Some (saga_summary s))"
proof -
  have "saga_scan_from (saga_sample_log n) 0 saga_loop_start = Inr s"
    using assms saga_sample_framed unfolding saga_log.scan_iff by blast
  then show ?thesis
    using framed_saga_length [OF saga_sample_framed, of n] by (simp add: hermas_saga_log_scan_def)
qed

theorem saga_log_reverse_order_witness:
  "\<exists>rs. framed saga_parse (saga_sample_log 5) rs \<and>
    (\<forall>i < length rs. sl_kind (rs ! i) = HERMAS_SAGA_LOG_FINISHED \<longrightarrow>
      (\<exists>start next stop. saga_progress (take i rs) (sl_execution_id (rs ! i)) =
          Some (start, descending start next, stop) \<and> 0 < start))"
  using saga_log_reverse_order [OF saga_sample_scan [OF saga_sample_runs(2)]] by blast

theorem saga_log_active_witness:
  "\<exists>rs. framed saga_parse (saga_sample_log 3) rs \<and> {x. saga_progress rs x \<noteq> None} = {41}"
proof -
  have "sa_execution_id ` set (ss_active (saga_summary \<lparr>lo_entries = saga_sample_table DELIVERY_SENT 1 1 2 3 4 1 1,
      lo_record_count = 3, lo_next_sequence = 4\<rparr>)) = {41}"
    by (simp add: saga_summary_def saga_sample_table_def Let_def zero_scan_active_def)
  then show ?thesis using saga_log_active [OF saga_sample_scan [OF saga_sample_runs(1)]] by metis
qed

theorem saga_log_round_trip_witness:
  "\<exists>d'. hermas_saga_log_encode (Some (saga_sample HERMAS_SAGA_LOG_STARTED 2 1 1)) (Some (replicate 80 1)) =
      (HERMAS_SAGA_LOG_OK, Some d') \<and>
    hermas_saga_log_decode (Some (take 64 d')) (Some (saga_sample HERMAS_SAGA_LOG_FINISHED 1 5 0)) =
      (HERMAS_SAGA_LOG_OK, Some (saga_sample HERMAS_SAGA_LOG_STARTED 2 1 1)) \<and>
    hermas_saga_log_encode (Some (saga_sample HERMAS_SAGA_LOG_STARTED 2 1 1)) (Some (replicate 66 0)) =
      (HERMAS_SAGA_LOG_OK, Some (take 64 d' @ replicate 2 0))"
proof -
  have "saga_validate (saga_sample HERMAS_SAGA_LOG_STARTED 2 1 1) = HERMAS_SAGA_LOG_OK"
    by (simp add: saga_sample_def saga_validate_def action_kind_def)
  then obtain d' where enc: "hermas_saga_log_encode (Some (saga_sample HERMAS_SAGA_LOG_STARTED 2 1 1))
      (Some (replicate 80 1)) = (HERMAS_SAGA_LOG_OK, Some d')"
    by (simp add: hermas_saga_log_encode_def saga_log_encode_def Let_def)
  have dec: "hermas_saga_log_decode (Some (take 64 d')) (Some (saga_sample HERMAS_SAGA_LOG_FINISHED 1 5 0)) =
      (HERMAS_SAGA_LOG_OK, Some (saga_sample HERMAS_SAGA_LOG_STARTED 2 1 1))"
    using saga_log_round_trip enc by blast
  have "hermas_saga_log_encode (Some (saga_sample HERMAS_SAGA_LOG_STARTED 2 1 1)) (Some (replicate 66 0)) =
      (HERMAS_SAGA_LOG_OK, Some (take 64 (take 64 d') @ drop 64 (replicate 66 0)))"
    by (rule saga_log_round_trip [THEN conjunct2, rule_format]) (use dec in simp)
  then show ?thesis using enc dec by simp
qed

end
