(* ===== verification/Hermas_Compensation.thy ===== *)
theory Hermas_Compensation
  imports Hermas_Protocol Hermas_Record_Log
begin

text \<open>
  The compensation token log (\<open>src/compensation.c\<close>): variable-length records that bind a token
  to the delivery that created it, their codec with a checksum over header and token, the scan,
  the lookup by key and the writer. A pointer into the file is the bytes it stands for:
  \<open>token_length\<close> bytes after the header.
\<close>

definition HERMAS_COMPENSATION_VERSION :: u16 where [simp]: "HERMAS_COMPENSATION_VERSION = 1"
definition HERMAS_COMPENSATION_HEADER_SIZE :: nat where [simp]: "HERMAS_COMPENSATION_HEADER_SIZE = 72"

datatype hermas_compensation_result =
    HERMAS_COMPENSATION_OK
  | HERMAS_COMPENSATION_INVALID_ARGUMENT
  | HERMAS_COMPENSATION_BUFFER_TOO_SMALL
  | HERMAS_COMPENSATION_INVALID_RECORD
  | HERMAS_COMPENSATION_CHECKSUM_MISMATCH
  | HERMAS_COMPENSATION_INVALID_SEQUENCE
  | HERMAS_COMPENSATION_DUPLICATE_TOKEN
  | HERMAS_COMPENSATION_WRITE_ERROR

record hermas_compensation_key =
  ck_execution_id :: u64
  ck_workflow_id :: u32
  ck_request_id :: u64
  ck_node_id :: u16
  ck_image_fingerprint :: u64

record hermas_compensation_record =
  cr_sequence :: u64
  cr_key :: hermas_compensation_key
  cr_app_id :: u16
  cr_action_id :: u16
  cr_source_type :: u16
  cr_destination_type :: u16
  cr_token :: "bytes option"
  cr_token_length :: u32

text \<open>The checksum of two byte ranges one after the other.\<close>

definition checksum_parts :: "bytes \<Rightarrow> bytes \<Rightarrow> u32" where
  "checksum_parts header token = NOT (foldl crc_byte (foldl crc_byte 0xffffffff header) token)"

lemma checksum_parts_append: "checksum_parts header token = checksum (header @ token)"
  by (simp add: checksum_parts_def checksum_def)

definition key_equal :: "hermas_compensation_key \<Rightarrow> hermas_compensation_key \<Rightarrow> bool" where
  "key_equal left right \<longleftrightarrow>
     ck_execution_id left = ck_execution_id right \<and> ck_workflow_id left = ck_workflow_id right \<and>
     ck_request_id left = ck_request_id right \<and> ck_node_id left = ck_node_id right \<and>
     ck_image_fingerprint left = ck_image_fingerprint right"

lemma key_equal_iff [simp]: "key_equal a b \<longleftrightarrow> a = b"
  by (cases a; cases b) (simp add: key_equal_def)

definition record_valid :: "hermas_compensation_record \<Rightarrow> bool" where
  "record_valid r \<longleftrightarrow> cr_sequence r \<noteq> 0 \<and> ck_execution_id (cr_key r) \<noteq> 0 \<and>
     ck_workflow_id (cr_key r) \<noteq> 0 \<and> ck_request_id (cr_key r) \<noteq> 0 \<and> ck_node_id (cr_key r) \<noteq> 0 \<and>
     ck_image_fingerprint (cr_key r) \<noteq> 0 \<and> cr_app_id r \<noteq> 0 \<and> cr_action_id r \<noteq> 0 \<and>
     cr_source_type r \<noteq> 0 \<and> cr_destination_type r \<noteq> 0 \<and>
     unat (cr_token_length r) \<le> HERMAS_PROTOCOL_MAX_PAYLOAD_SIZE \<and>
     (cr_token_length r = 0 \<or> cr_token r \<noteq> None)"

section \<open>The record codec\<close>

text \<open>\<open>HCT1\<close>\<close>

definition compensation_magic :: bytes where
  "compensation_magic = [0x48, 0x43, 0x54, 0x31]"

definition write_compensation_fields :: "hermas_compensation_record \<Rightarrow> nat \<Rightarrow> bytes \<Rightarrow> bytes" where
  "write_compensation_fields r sz destination =
    (let d = memset_zero destination HERMAS_COMPENSATION_HEADER_SIZE;
         d = write_bytes d 0 compensation_magic;
         d = write_u16 d 4 HERMAS_COMPENSATION_VERSION;
         d = write_u16 d 6 (of_nat HERMAS_COMPENSATION_HEADER_SIZE);
         d = write_u32 d 8 (of_nat sz);
         d = write_u32 d 12 (cr_token_length r);
         d = write_u64 d 16 (cr_sequence r);
         d = write_u64 d 24 (ck_execution_id (cr_key r));
         d = write_u32 d 32 (ck_workflow_id (cr_key r));
         d = write_u64 d 36 (ck_request_id (cr_key r));
         d = write_u16 d 44 (ck_node_id (cr_key r));
         d = write_u16 d 46 (cr_app_id r);
         d = write_u16 d 48 (cr_action_id r);
         d = write_u16 d 50 (cr_source_type r);
         d = write_u16 d 52 (cr_destination_type r)
     in write_u64 d 56 (ck_image_fingerprint (cr_key r)))"

definition compensation_encode ::
  "hermas_compensation_record \<Rightarrow> bytes \<Rightarrow> hermas_compensation_result + bytes \<times> nat" where
  "compensation_encode r destination =
    (let n = unat (cr_token_length r); sz = HERMAS_COMPENSATION_HEADER_SIZE + n in
     if \<not> record_valid r then Inl HERMAS_COMPENSATION_INVALID_RECORD
     else if length destination < sz then Inl HERMAS_COMPENSATION_BUFFER_TOO_SMALL
     else (let h = write_compensation_fields r sz destination;
               d = (if cr_token_length r \<noteq> 0
                    then write_bytes h HERMAS_COMPENSATION_HEADER_SIZE (take n (the (cr_token r))) else h)
           in Inr (write_u32 d 68 (checksum_parts (take 68 d)
                     (chunk d HERMAS_COMPENSATION_HEADER_SIZE n)), sz)))"

definition hermas_compensation_encode ::
  "hermas_compensation_record option \<Rightarrow> bytes option \<Rightarrow> nat option \<Rightarrow>
   hermas_compensation_result \<times> bytes option \<times> nat option" where
  "hermas_compensation_encode record destination encoded_size =
    (case (record, destination, encoded_size) of
       (Some r, Some d, Some _) \<Rightarrow>
         (case compensation_encode r d of
            Inl e \<Rightarrow> (e, destination, encoded_size)
          | Inr (d', sz) \<Rightarrow> (HERMAS_COMPENSATION_OK, Some d', Some sz))
     | _ \<Rightarrow> (HERMAS_COMPENSATION_INVALID_ARGUMENT, destination, encoded_size))"

definition compensation_fields_of :: "bytes \<Rightarrow> hermas_compensation_record" where
  "compensation_fields_of source =
    \<lparr>cr_sequence = read_u64 source 16,
     cr_key = \<lparr>ck_execution_id = read_u64 source 24, ck_workflow_id = read_u32 source 32,
       ck_request_id = read_u64 source 36, ck_node_id = read_u16 source 44,
       ck_image_fingerprint = read_u64 source 56\<rparr>,
     cr_app_id = read_u16 source 46,
     cr_action_id = read_u16 source 48,
     cr_source_type = read_u16 source 50,
     cr_destination_type = read_u16 source 52,
     cr_token = Some (chunk source HERMAS_COMPENSATION_HEADER_SIZE (unat (read_u32 source 12))),
     cr_token_length = read_u32 source 12\<rparr>"

definition compensation_decode ::
  "bytes \<Rightarrow> hermas_compensation_result + hermas_compensation_record \<times> nat" where
  "compensation_decode source =
    (if length source < HERMAS_COMPENSATION_HEADER_SIZE then Inl HERMAS_COMPENSATION_BUFFER_TOO_SMALL
     else
       (let sz = read_u32 source 8; token_length = read_u32 source 12 in
        if chunk source 0 4 \<noteq> compensation_magic \<or> read_u16 source 4 \<noteq> HERMAS_COMPENSATION_VERSION \<or>
           read_u16 source 6 \<noteq> of_nat HERMAS_COMPENSATION_HEADER_SIZE \<or>
           sz \<noteq> of_nat HERMAS_COMPENSATION_HEADER_SIZE + token_length \<or>
           unat sz > length source \<or> read_u16 source 54 \<noteq> 0 \<or> read_u32 source 64 \<noteq> 0 \<or>
           unat token_length > HERMAS_PROTOCOL_MAX_PAYLOAD_SIZE
        then Inl HERMAS_COMPENSATION_INVALID_RECORD
        else if read_u32 source 68 \<noteq> checksum_parts (take 68 source)
                  (chunk source HERMAS_COMPENSATION_HEADER_SIZE (unat token_length))
        then Inl HERMAS_COMPENSATION_CHECKSUM_MISMATCH
        else if \<not> record_valid (compensation_fields_of source) then Inl HERMAS_COMPENSATION_INVALID_RECORD
        else Inr (compensation_fields_of source, unat sz)))"

definition hermas_compensation_decode ::
  "bytes option \<Rightarrow> hermas_compensation_record option \<Rightarrow> nat option \<Rightarrow>
   hermas_compensation_result \<times> hermas_compensation_record option \<times> nat option" where
  "hermas_compensation_decode source record record_size =
    (case (source, record, record_size) of
       (Some s, Some _, Some _) \<Rightarrow>
         (case compensation_decode s of
            Inl e \<Rightarrow> (e, record, record_size)
          | Inr (r, sz) \<Rightarrow> (HERMAS_COMPENSATION_OK, Some r, Some sz))
     | _ \<Rightarrow> (HERMAS_COMPENSATION_INVALID_ARGUMENT, record, record_size))"

lemma length_write_compensation_fields [simp]:
  "72 \<le> length d \<Longrightarrow> length (write_compensation_fields r sz d) = length d"
  by (simp add: write_compensation_fields_def compensation_magic_def)

lemma write_compensation_fields_fields:
  assumes "72 \<le> length d"
  shows "chunk (write_compensation_fields r sz d) 0 4 = compensation_magic"
    "chunk (write_compensation_fields r sz d) 4 2 = le_bytes 2 (1 :: u16)"
    "chunk (write_compensation_fields r sz d) 6 2 = le_bytes 2 (72 :: u16)"
    "chunk (write_compensation_fields r sz d) 8 4 = le_bytes 4 (of_nat sz :: u32)"
    "chunk (write_compensation_fields r sz d) 12 4 = le_bytes 4 (cr_token_length r)"
    "chunk (write_compensation_fields r sz d) 16 8 = le_bytes 8 (cr_sequence r)"
    "chunk (write_compensation_fields r sz d) 24 8 = le_bytes 8 (ck_execution_id (cr_key r))"
    "chunk (write_compensation_fields r sz d) 32 4 = le_bytes 4 (ck_workflow_id (cr_key r))"
    "chunk (write_compensation_fields r sz d) 36 8 = le_bytes 8 (ck_request_id (cr_key r))"
    "chunk (write_compensation_fields r sz d) 44 2 = le_bytes 2 (ck_node_id (cr_key r))"
    "chunk (write_compensation_fields r sz d) 46 2 = le_bytes 2 (cr_app_id r)"
    "chunk (write_compensation_fields r sz d) 48 2 = le_bytes 2 (cr_action_id r)"
    "chunk (write_compensation_fields r sz d) 50 2 = le_bytes 2 (cr_source_type r)"
    "chunk (write_compensation_fields r sz d) 52 2 = le_bytes 2 (cr_destination_type r)"
    "chunk (write_compensation_fields r sz d) 54 2 = replicate 2 0"
    "chunk (write_compensation_fields r sz d) 56 8 = le_bytes 8 (ck_image_fingerprint (cr_key r))"
    "chunk (write_compensation_fields r sz d) 64 4 = replicate 4 0"
    "drop 72 (write_compensation_fields r sz d) = drop 72 d"
  using assms
  by (simp_all add: write_compensation_fields_def compensation_magic_def buffer_simps)

text \<open>The bytes of the token, and when the token pointer is good for them.\<close>

definition token_bytes :: "hermas_compensation_record \<Rightarrow> bytes" where
  "token_bytes r = (case cr_token r of None \<Rightarrow> [] | Some t \<Rightarrow> take (unat (cr_token_length r)) t)"

definition token_readable :: "hermas_compensation_record \<Rightarrow> bool" where
  "token_readable r \<longleftrightarrow> (case cr_token r of None \<Rightarrow> True | Some t \<Rightarrow> unat (cr_token_length r) \<le> length t)"

lemma compensation_encode_bytes:
  assumes enc: "compensation_encode r d = Inr (d', sz)" and readable: "token_readable r"
  defines "h \<equiv> take 68 (write_compensation_fields r sz d)"
  shows "sz = 72 + unat (cr_token_length r)" and "record_valid r" and "72 \<le> length d" and "sz \<le> length d"
    and "length (token_bytes r) = unat (cr_token_length r)"
    and "d' = h @ le_bytes 4 (checksum (h @ token_bytes r)) @ token_bytes r @ drop sz d"
proof -
  let ?n = "unat (cr_token_length r)"
  let ?w = "write_compensation_fields r sz d"
  from enc show sz: "sz = 72 + ?n" and valid: "record_valid r" and fits: "sz \<le> length d"
    by (auto simp: compensation_encode_def Let_def split: if_splits)
  then show d72: "72 \<le> length d" by simp
  have token: "cr_token_length r \<noteq> 0 \<Longrightarrow> cr_token r \<noteq> None" using valid by (simp add: record_valid_def)
  show len: "length (token_bytes r) = ?n"
    using readable token by (cases "cr_token_length r = 0") (auto simp: token_bytes_def token_readable_def split: option.splits)
  have body: "(if cr_token_length r \<noteq> 0 then write_bytes ?w 72 (take ?n (the (cr_token r))) else ?w) =
      write_bytes ?w 72 (token_bytes r)"
  proof (cases "cr_token_length r = 0")
    case True
    then show ?thesis using d72 by (simp add: token_bytes_def split: option.splits)
  next
    case False
    then obtain t where "cr_token r = Some t" using token by blast
    then show ?thesis using False by (simp add: token_bytes_def)
  qed
  let ?b = "write_bytes ?w 72 (token_bytes r)"
  have parts: "take 68 ?b = h" "chunk ?b 72 ?n = token_bytes r" "length ?b = length d"
    using d72 fits sz len by (simp_all add: h_def buffer_simps)
  have "d' = write_u32 ?b 68 (checksum_parts (take 68 ?b) (chunk ?b 72 ?n))"
    using enc sz body by (auto simp: compensation_encode_def Let_def split: if_splits)
  also have "\<dots> = write_bytes ?b 68 (le_bytes 4 (checksum (h @ token_bytes r)))"
    using d72 parts by (simp add: checksum_parts_append write_u32_bytes)
  also have "\<dots> = take 68 ?b @ le_bytes 4 (checksum (h @ token_bytes r)) @ drop 72 ?b"
    by (simp add: write_bytes_def)
  also have "drop 72 ?b = token_bytes r @ drop sz d"
    using d72 sz len fits write_compensation_fields_fields(18) [OF d72, of r sz]
    by (simp add: write_bytes_def min_absorb1) (metis add.commute drop_drop)
  finally show "d' = h @ le_bytes 4 (checksum (h @ token_bytes r)) @ token_bytes r @ drop sz d"
    using parts(1) by simp
qed

lemma compensation_decode_reads:
  assumes "compensation_decode s = Inr (r, n)"
  shows "72 \<le> n" "n \<le> length s" "n = 72 + unat (read_u32 s 12)" "unat (read_u32 s 12) \<le> 65488"
    "chunk s 0 4 = compensation_magic" "read_u16 s 4 = 1" "read_u16 s 6 = 72" "read_u32 s 8 = of_nat n"
    "read_u16 s 54 = 0" "read_u32 s 64 = 0"
    "read_u32 s 68 = checksum_parts (take 68 s) (chunk s 72 (unat (read_u32 s 12)))"
    "r = compensation_fields_of s" "record_valid r"
proof -
  from assms have len: "72 \<le> length s" and small: "unat (read_u32 s 12) \<le> 65488"
    and sz: "read_u32 s 8 = 72 + read_u32 s 12" "n = unat (read_u32 s 8)" "n \<le> length s"
    and rest: "chunk s 0 4 = compensation_magic" "read_u16 s 4 = 1" "read_u16 s 6 = 72"
      "read_u16 s 54 = 0" "read_u32 s 64 = 0"
      "read_u32 s 68 = checksum_parts (take 68 s) (chunk s 72 (unat (read_u32 s 12)))"
      "r = compensation_fields_of s" "record_valid r"
    by (auto simp: compensation_decode_def Let_def split: if_splits)
  have "unat (72 + read_u32 s 12) = 72 + unat (read_u32 s 12)"
    using small by (simp add: unat_word_ariths)
  then show "n = 72 + unat (read_u32 s 12)" using sz by simp
  then show "72 \<le> n" by simp
  show "read_u32 s 8 = of_nat n" using sz by simp
  show "n \<le> length s" "unat (read_u32 s 12) \<le> 65488" "chunk s 0 4 = compensation_magic"
    "read_u16 s 4 = 1" "read_u16 s 6 = 72" "read_u16 s 54 = 0" "read_u32 s 64 = 0"
    "read_u32 s 68 = checksum_parts (take 68 s) (chunk s 72 (unat (read_u32 s 12)))"
    "r = compensation_fields_of s" "record_valid r"
    by (fact sz small rest)+
qed

text \<open>A record decodes the same whatever follows it.\<close>

lemma compensation_decode_local:
  assumes dec: "compensation_decode bs = Inr (r, n)"
  shows "compensation_decode (take n bs @ cs) = Inr (r, n)"
proof -
  note reads = compensation_decode_reads [OF dec]
  let ?s = "take n bs @ cs"
  have ch: "chunk ?s off m = chunk bs off m" if "off + m \<le> n" for off m
    using that reads(2) by (simp add: buffer_simps)
  have len: "n \<le> length ?s" using reads(2) by simp
  have field: "read_u16 ?s off = read_u16 bs off" if "off + 2 \<le> n" for off
    using that len reads(2) ch [of off 2] by (simp add: read_u16_chunk)
  have field4: "read_u32 ?s off = read_u32 bs off" if "off + 4 \<le> n" for off
    using that len reads(2) ch [of off 4] by (simp add: read_u32_chunk)
  have field8: "read_u64 ?s off = read_u64 bs off" if "off + 8 \<le> n" for off
    using that len reads(2) ch [of off 8] by (simp add: read_u64_chunk)
  have t: "take 68 ?s = take 68 bs" using reads(1,2) by simp
  have n: "72 + unat (read_u32 bs 12) \<le> n" using reads(3) by simp
  have "compensation_fields_of ?s = compensation_fields_of bs"
    using reads(1) n by (simp add: compensation_fields_of_def field field4 field8 ch)
  moreover have "72 \<le> length ?s" "72 \<le> length bs" using len reads(1,2) by simp_all
  moreover have "compensation_decode bs = Inr (r, n)" by (fact dec)
  ultimately show ?thesis
    using reads(1,2) n len t by (simp add: compensation_decode_def field field4 ch Let_def split: if_splits)
qed

definition compensation_layout :: "nat list" where
  "compensation_layout = [4, 2, 2, 4, 4, 8, 8, 4, 8, 2, 2, 2, 2, 2, 2, 8, 4]"

lemma compensation_encode_decode:
  assumes enc: "compensation_encode r d = Inr (d', sz)" and readable: "token_readable r"
  shows "compensation_decode (take sz d') = Inr (r\<lparr>cr_token := Some (token_bytes r)\<rparr>, sz)"
    and "drop sz d' = drop sz d" and "length d' = length d"
proof -
  note bytes = compensation_encode_bytes [OF enc readable]
  let ?w = "write_compensation_fields r sz d"
  let ?h = "take 68 ?w" and ?t = "token_bytes r"
  let ?p = "?h @ le_bytes 4 (checksum (?h @ ?t)) @ ?t"
  have h: "length ?h = 68" using bytes(3) by simp
  have p: "take sz d' = ?p" "length ?p = sz" using bytes(1,5,6) h by simp_all
  have hd: "chunk ?p off m = chunk ?w off m" if "off + m \<le> 68" for off m
    using that h by (simp add: buffer_simps)
  note field = write_compensation_fields_fields [OF bytes(3), of r sz]
  have len: "off + m \<le> 72 \<Longrightarrow> off + m \<le> length ?p" for off m using p bytes(1) by simp
  have small: "unat (cr_token_length r) \<le> 65488" using bytes(2) by (simp add: record_valid_def)
  have zero: "le_value (replicate 2 0) = (0 :: u16)" "le_value (replicate 4 0) = (0 :: u32)"
    by (simp_all add: numeral_eq_Suc)
  have reads: "chunk ?p 0 4 = compensation_magic" "read_u16 ?p 4 = 1" "read_u16 ?p 6 = 72"
    "read_u32 ?p 8 = of_nat sz" "read_u32 ?p 12 = cr_token_length r" "read_u64 ?p 16 = cr_sequence r"
    "read_u64 ?p 24 = ck_execution_id (cr_key r)" "read_u32 ?p 32 = ck_workflow_id (cr_key r)"
    "read_u64 ?p 36 = ck_request_id (cr_key r)" "read_u16 ?p 44 = ck_node_id (cr_key r)"
    "read_u16 ?p 46 = cr_app_id r" "read_u16 ?p 48 = cr_action_id r" "read_u16 ?p 50 = cr_source_type r"
    "read_u16 ?p 52 = cr_destination_type r" "read_u16 ?p 54 = 0"
    "read_u64 ?p 56 = ck_image_fingerprint (cr_key r)" "read_u32 ?p 64 = 0"
    by (simp_all only: read_from_chunk len hd field zero le_value_le_bytes_fields)
  have ck: "chunk ?p 68 4 = le_bytes 4 (checksum (?h @ ?t))" "take 68 ?p = ?h"
    "chunk ?p 72 (unat (cr_token_length r)) = ?t"
    using h bytes(5) by (simp_all add: chunk_def)
  have crc: "read_u32 ?p 68 = checksum_parts (take 68 ?p) (chunk ?p 72 (unat (cr_token_length r)))"
    unfolding ck(2,3) checksum_parts_append by (simp only: read_u32_chunk len ck(1)) simp
  have wrap: "unat (of_nat sz :: u32) = sz" using bytes(1) small by (simp add: unat_word_ariths)
  have sz32: "(of_nat sz :: u32) = 72 + cr_token_length r" using bytes(1) by simp
  have fields: "compensation_fields_of ?p = r\<lparr>cr_token := Some ?t\<rparr>"
    unfolding compensation_fields_of_def HERMAS_COMPENSATION_HEADER_SIZE_def reads ck by (cases r) simp
  have valid: "record_valid (r\<lparr>cr_token := Some ?t\<rparr>)" using bytes(2) by (simp add: record_valid_def)
  show "compensation_decode (take sz d') = Inr (r\<lparr>cr_token := Some ?t\<rparr>, sz)"
    unfolding p(1) compensation_decode_def Let_def fields HERMAS_COMPENSATION_HEADER_SIZE_def reads
    using p(2) bytes(1) crc small valid wrap sz32 by simp
  show "drop sz d' = drop sz d" using bytes(6) p(2) by simp
  show "length d' = length d" using bytes(1,3,4,5,6) by simp
qed

lemma compensation_decode_encode:
  assumes dec: "compensation_decode s = Inr (r, length s)" and room: "length s \<le> length d"
  shows "compensation_encode r d = Inr (s @ drop (length s) d, length s)"
proof -
  note reads = compensation_decode_reads [OF dec]
  let ?n = "unat (read_u32 s 12)"
  have n: "length s = 72 + ?n" by (fact reads(3))
  have tl: "cr_token_length r = read_u32 s 12" and tok: "cr_token r = Some (drop 72 s)"
    using reads(12) n by (simp_all add: compensation_fields_of_def chunk_def)
  have readable: "token_readable r" and tb: "token_bytes r = drop 72 s"
    using n tl tok by (simp_all add: token_readable_def token_bytes_def)
  have ok: "compensation_encode r d \<noteq> Inl e" for e
    using reads(13) room n tl by (simp add: compensation_encode_def Let_def)
  then obtain d' sz where enc: "compensation_encode r d = Inr (d', sz)"
    by (cases "compensation_encode r d") auto
  note bytes = compensation_encode_bytes [OF enc readable]
  have sz: "sz = length s" using bytes(1) n tl by simp
  let ?w = "write_compensation_fields r sz d"
  have zero: "le_bytes 4 (0 :: u32) = replicate 4 0" "le_bytes 2 (0 :: u16) = replicate 2 0"
    by (simp_all add: le_bytes_def map_replicate_const)
  have fixed: "chunk s 4 2 = le_bytes 2 (1 :: u16)" "chunk s 6 2 = le_bytes 2 (72 :: u16)"
    "chunk s 8 4 = le_bytes 4 (of_nat sz :: u32)" "chunk s 54 2 = replicate 2 0" "chunk s 64 4 = replicate 4 0"
    using reads n sz by (simp_all flip: le_bytes_read zero)
  have h: "take 68 ?w = take 68 s"
    using n bytes(3)
    by (simp add: take_as_fields [where ns = compensation_layout] compensation_layout_def fixed
        write_compensation_fields_fields reads(5) reads(12) compensation_fields_of_def le_bytes_read)
  have "checksum (take 68 s @ drop 72 s) = read_u32 s 68"
    using reads(11) n by (simp add: checksum_parts_append chunk_def)
  then have "le_bytes 4 (checksum (take 68 s @ drop 72 s)) = chunk s 68 4"
    using n by (simp add: le_bytes_read)
  then have "d' = take 68 s @ chunk s 68 4 @ drop 72 s @ drop (length s) d"
    using bytes(6) h tb sz by simp
  moreover have "chunk s 68 4 @ drop 72 s = drop 68 s"
    using append_take_drop_id [of 4 "drop 68 s"] by (simp add: chunk_def)
  then have "take 68 s @ chunk s 68 4 @ drop 72 s @ drop (length s) d = s @ drop (length s) d"
    by (simp flip: append_assoc) 
  ultimately show ?thesis using enc sz by simp
qed

end
