(* ===== verification/Hermas_Compensation_Log.thy ===== *)
theory Hermas_Compensation_Log
  imports Hermas_Compensation
begin

text \<open>
  The scan of the compensation token log, the lookup of a token by its key and the writer
  (\<open>hermas_compensation_scan\<close>, \<open>hermas_compensation_find\<close> and
  \<open>hermas_compensation_writer_append\<close> of \<open>src/compensation.c\<close>). The loops hold the rest of the
  file, which is \<open>bytes + offset\<close> with \<open>byte_count - offset\<close> bytes in the code.
\<close>

section \<open>The scan\<close>

record hermas_compensation_summary =
  cs_record_count :: u64
  cs_next_sequence :: u64

type_synonym 'c compensation_visitor =
  "('c \<Rightarrow> hermas_compensation_record \<Rightarrow> hermas_compensation_result \<times> 'c) option"

definition compensation_scan_record ::
  "'c compensation_visitor \<Rightarrow> hermas_compensation_summary \<times> 'c \<Rightarrow> hermas_compensation_record \<Rightarrow>
   (hermas_compensation_result \<times> 'c) + (hermas_compensation_summary \<times> 'c)" where
  "compensation_scan_record visitor state r =
    (case state of (result, context) \<Rightarrow>
       if cr_sequence r \<noteq> cs_next_sequence result then Inl (HERMAS_COMPENSATION_INVALID_SEQUENCE, context)
       else
         (let (visited, context') = (case visitor of None \<Rightarrow> (HERMAS_COMPENSATION_OK, context)
                                                   | Some visit \<Rightarrow> visit context r)
          in if visited \<noteq> HERMAS_COMPENSATION_OK then Inl (visited, context')
             else Inr (\<lparr>cs_record_count = cs_record_count result + 1,
                        cs_next_sequence = cs_next_sequence result + 1\<rparr>, context')))"

lemma compensation_decode_shrinks:
  "compensation_decode bs = Inr (r, n) \<Longrightarrow> length bs - n < length bs"
  using compensation_decode_reads(1,2) [of bs r n] by simp

function compensation_scan_from ::
  "'c compensation_visitor \<Rightarrow> bytes \<Rightarrow> hermas_compensation_summary \<times> 'c \<Rightarrow>
   (hermas_compensation_result \<times> 'c) + (hermas_compensation_summary \<times> 'c)" where
  "compensation_scan_from visitor bs state =
    (if bs \<noteq> [] then
       (case compensation_decode bs of
          Inl e \<Rightarrow> Inl (e, snd state)
        | Inr (r, sz) \<Rightarrow>
            (case compensation_scan_record visitor state r of
               Inl e \<Rightarrow> Inl e
             | Inr state' \<Rightarrow> compensation_scan_from visitor (drop sz bs) state'))
     else Inr state)"
  by pat_completeness auto
termination
  by (relation "measure (\<lambda>(visitor, bs, state). length bs)") (auto dest: compensation_decode_shrinks)

declare compensation_scan_from.simps [simp del]

definition hermas_compensation_scan ::
  "bytes option \<Rightarrow> nat \<Rightarrow> 'c compensation_visitor \<Rightarrow> 'c \<Rightarrow> hermas_compensation_summary option \<Rightarrow>
   hermas_compensation_result \<times> hermas_compensation_summary option \<times> 'c" where
  "hermas_compensation_scan bs byte_count visitor context summary =
    (if bs = None \<and> byte_count \<noteq> 0 \<or> summary = None
     then (HERMAS_COMPENSATION_INVALID_ARGUMENT, summary, context)
     else (case compensation_scan_from visitor (take byte_count (case bs of None \<Rightarrow> [] | Some b \<Rightarrow> b))
                  (\<lparr>cs_record_count = 0, cs_next_sequence = 1\<rparr>, context) of
             Inl (e, c) \<Rightarrow> (e, summary, c)
           | Inr (result, c) \<Rightarrow> (HERMAS_COMPENSATION_OK, Some result, c)))"

section \<open>The lookup\<close>

text \<open>What the caller's pointers hold: the record, the token buffer and the flag.\<close>

record compensation_out =
  co_record :: hermas_compensation_record
  co_token :: bytes
  co_found :: bool

definition compensation_find_record ::
  "hermas_compensation_key \<Rightarrow> compensation_out \<Rightarrow> hermas_compensation_record \<Rightarrow>
   (hermas_compensation_result \<times> compensation_out) + compensation_out" where
  "compensation_find_record key out candidate =
    (if key_equal (cr_key candidate) key then
       (if co_found out then Inl (HERMAS_COMPENSATION_DUPLICATE_TOKEN, out)
        else if unat (cr_token_length candidate) > length (co_token out) then
          Inl (HERMAS_COMPENSATION_BUFFER_TOO_SMALL, out)
        else
          (let token = write_bytes (co_token out) 0 (token_bytes candidate)
           in Inr (out\<lparr>co_token := token, co_record := candidate\<lparr>cr_token := Some token\<rparr>,
                co_found := True\<rparr>)))
     else Inr out)"

function compensation_find_from ::
  "hermas_compensation_key \<Rightarrow> bytes \<Rightarrow> compensation_out \<Rightarrow>
   (hermas_compensation_result \<times> compensation_out) + compensation_out" where
  "compensation_find_from key bs out =
    (if bs \<noteq> [] then
       (case compensation_decode bs of
          Inl e \<Rightarrow> Inl (e, out)
        | Inr (candidate, sz) \<Rightarrow>
            (case compensation_find_record key out candidate of
               Inl e \<Rightarrow> Inl e
             | Inr out' \<Rightarrow> compensation_find_from key (drop sz bs) out'))
     else Inr out)"
  by pat_completeness auto
termination
  by (relation "measure (\<lambda>(key, bs, out). length bs)") (auto dest: compensation_decode_shrinks)

declare compensation_find_from.simps [simp del]

text \<open>The outputs are \<open>None\<close> when the caller passes a null pointer.\<close>

definition hermas_compensation_find ::
  "bytes option \<Rightarrow> nat \<Rightarrow> hermas_compensation_key \<Rightarrow> compensation_out option \<Rightarrow>
   hermas_compensation_result \<times> compensation_out option" where
  "hermas_compensation_find bs byte_count key out =
    (case out of
       None \<Rightarrow> (HERMAS_COMPENSATION_INVALID_ARGUMENT, None)
     | Some out \<Rightarrow>
        (if bs = None \<and> byte_count \<noteq> 0 then (HERMAS_COMPENSATION_INVALID_ARGUMENT, Some out)
         else (case compensation_find_from key (take byte_count (case bs of None \<Rightarrow> [] | Some b \<Rightarrow> b))
                      (out\<lparr>co_found := False\<rparr>) of
                 Inl (e, out') \<Rightarrow> (e, Some out')
               | Inr out' \<Rightarrow> (HERMAS_COMPENSATION_OK, Some out'))))"

section \<open>The writer\<close>

type_synonym 'c compensation_write = "'c \<Rightarrow> bytes \<Rightarrow> hermas_compensation_result \<times> 'c"

record 'c hermas_compensation_writer =
  cw_write :: "'c compensation_write option"
  cw_context :: 'c
  cw_next_sequence :: u64

definition hermas_compensation_writer_init ::
  "'c hermas_compensation_writer option \<Rightarrow> 'c compensation_write option \<Rightarrow> 'c \<Rightarrow> u64 \<Rightarrow>
   hermas_compensation_result \<times> 'c hermas_compensation_writer option" where
  "hermas_compensation_writer_init writer write context next_sequence =
    (if writer = None \<or> write = None \<or> next_sequence = 0
     then (HERMAS_COMPENSATION_INVALID_ARGUMENT, writer)
     else (HERMAS_COMPENSATION_OK, Some \<lparr>cw_write = write, cw_context = context,
             cw_next_sequence = next_sequence\<rparr>))"

definition compensation_writer_append ::
  "'c hermas_compensation_writer \<Rightarrow> hermas_compensation_record \<Rightarrow> bytes \<Rightarrow>
   hermas_compensation_result \<times> 'c hermas_compensation_writer \<times> bytes" where
  "compensation_writer_append w r scratch =
    (case cw_write w of
       None \<Rightarrow> (HERMAS_COMPENSATION_INVALID_ARGUMENT, w, scratch)
     | Some write \<Rightarrow>
        (if cw_next_sequence w = 0 \<or> cw_next_sequence w = - 1
         then (HERMAS_COMPENSATION_INVALID_ARGUMENT, w, scratch)
         else
           (case compensation_encode (r\<lparr>cr_sequence := cw_next_sequence w\<rparr>) scratch of
              Inl e \<Rightarrow> (e, w, scratch)
            | Inr (scratch', sz) \<Rightarrow>
                (case write (cw_context w) (take sz scratch') of
                   (written, context) \<Rightarrow>
                     (if written \<noteq> HERMAS_COMPENSATION_OK then (written, w\<lparr>cw_context := context\<rparr>, scratch')
                      else (HERMAS_COMPENSATION_OK, w\<lparr>cw_context := context,
                              cw_next_sequence := cw_next_sequence w + 1\<rparr>, scratch'))))))"

definition hermas_compensation_writer_append ::
  "'c hermas_compensation_writer option \<Rightarrow> hermas_compensation_record \<Rightarrow> bytes option \<Rightarrow>
   hermas_compensation_result \<times> 'c hermas_compensation_writer option \<times> bytes option" where
  "hermas_compensation_writer_append writer r scratch =
    (case (writer, scratch) of
       (Some w, Some buf) \<Rightarrow>
         (case compensation_writer_append w r buf of (result, w', buf') \<Rightarrow> (result, Some w', Some buf'))
     | _ \<Rightarrow> (HERMAS_COMPENSATION_INVALID_ARGUMENT, writer, scratch))"

section \<open>Both loops as record logs\<close>

interpretation compensation_log: record_log compensation_decode "compensation_scan_record visitor"
  "\<lambda>state e. (e, snd state)" "compensation_scan_from visitor"
  for visitor :: "'c compensation_visitor"
proof unfold_locales
  fix bs :: bytes and s :: "hermas_compensation_summary \<times> 'c"
  show "compensation_scan_from visitor [] s = Inr s" by (simp add: compensation_scan_from.simps)
  show "compensation_scan_from visitor bs s =
      (case compensation_decode bs of Inl d \<Rightarrow> Inl (d, snd s)
       | Inr (r, n) \<Rightarrow> (case compensation_scan_record visitor s r of Inl e \<Rightarrow> Inl e
           | Inr s' \<Rightarrow> compensation_scan_from visitor (drop n bs) s'))" if "bs \<noteq> []"
    using that by (subst compensation_scan_from.simps) simp
next
  fix bs cs :: bytes and r n
  assume dec: "compensation_decode bs = Inr (r, n)"
  show "0 < n \<and> n \<le> length bs" using compensation_decode_reads(1,2) [OF dec] by simp
  show "compensation_decode (take n bs @ cs) = Inr (r, n)" by (rule compensation_decode_local [OF dec])
qed

interpretation compensation_find: record_log compensation_decode "compensation_find_record key"
  "\<lambda>out e. (e, out)" "compensation_find_from key"
  for key
proof unfold_locales
  fix bs :: bytes and s
  show "compensation_find_from key [] s = Inr s" by (simp add: compensation_find_from.simps)
  show "compensation_find_from key bs s =
      (case compensation_decode bs of Inl d \<Rightarrow> Inl (d, s)
       | Inr (r, n) \<Rightarrow> (case compensation_find_record key s r of Inl e \<Rightarrow> Inl e
           | Inr s' \<Rightarrow> compensation_find_from key (drop n bs) s'))" if "bs \<noteq> []"
    using that by (subst compensation_find_from.simps) simp
qed (use compensation_log.parse_size compensation_log.parse_local in blast)+

text \<open>What a lookup returns, as a function of the records of the log.\<close>

definition found_token ::
  "compensation_out \<Rightarrow> hermas_compensation_record \<Rightarrow> compensation_out" where
  "found_token out r =
    (let token = token_bytes r @ drop (length (token_bytes r)) (co_token out)
     in \<lparr>co_record = r\<lparr>cr_token := Some token\<rparr>, co_token = token, co_found = True\<rparr>)"

definition lookup_result ::
  "hermas_compensation_key \<Rightarrow> hermas_compensation_record list \<Rightarrow> compensation_out \<Rightarrow>
   hermas_compensation_result \<times> compensation_out" where
  "lookup_result key rs out =
    (case filter (\<lambda>r. cr_key r = key) rs of
       [] \<Rightarrow> (HERMAS_COMPENSATION_OK, out\<lparr>co_found := False\<rparr>)
     | r # others \<Rightarrow>
         if unat (cr_token_length r) > length (co_token out)
         then (HERMAS_COMPENSATION_BUFFER_TOO_SMALL, out\<lparr>co_found := False\<rparr>)
         else if others = [] then (HERMAS_COMPENSATION_OK, found_token out r)
         else (HERMAS_COMPENSATION_DUPLICATE_TOKEN, found_token out r))"

lemma find_record_after_found:
  assumes "co_found out"
  shows "run_records (compensation_find_record key) out rs =
    (if filter (\<lambda>r. cr_key r = key) rs = [] then Inr out else Inl (HERMAS_COMPENSATION_DUPLICATE_TOKEN, out))"
  by (induction rs) (auto simp: compensation_find_record_def assms)

lemma find_record_found:
  assumes "\<not> co_found out" and "cr_key r = key" and "unat (cr_token_length r) \<le> length (co_token out)"
  shows "compensation_find_record key out r = Inr (found_token out r)"
  using assms by (simp add: compensation_find_record_def found_token_def write_bytes_def Let_def)

lemma find_record_run:
  assumes "\<not> co_found out"
  shows "(case run_records (compensation_find_record key) out rs of
      Inl (e, o') \<Rightarrow> (e, o') | Inr o' \<Rightarrow> (HERMAS_COMPENSATION_OK, o')) = lookup_result key rs out"
proof (induction rs)
  case Nil
  then show ?case using assms by (cases out) (simp add: lookup_result_def)
next
  case (Cons r rs)
  show ?case
  proof (cases "cr_key r = key")
    case False
    then show ?thesis using Cons assms by (simp add: compensation_find_record_def lookup_result_def)
  next
    case True
    show ?thesis
    proof (cases "unat (cr_token_length r) \<le> length (co_token out)")
      case fits: True
      have "co_found (found_token out r)" by (simp add: found_token_def Let_def)
      then show ?thesis
        using find_record_after_found [of "found_token out r" key rs]
        by (simp add: lookup_result_def find_record_found [OF assms True fits] True fits linorder_not_less)
    next
      case False
      then show ?thesis
        using True assms by (cases out) (simp add: lookup_result_def compensation_find_record_def)
    qed
  qed
qed

lemma compensation_scan_framed:
  assumes "hermas_compensation_scan (Some bs) (length bs) visitor c summary = (HERMAS_COMPENSATION_OK, Some cs, c')"
  obtains rs where "framed compensation_decode bs rs"
    and "run_records (compensation_scan_record visitor) (\<lparr>cs_record_count = 0, cs_next_sequence = 1\<rparr>, c) rs = Inr (cs, c')"
proof -
  have no: "compensation_decode p \<noteq> Inl HERMAS_COMPENSATION_OK" for p
    by (auto simp: compensation_decode_def Let_def)
  have err: "compensation_scan_record visitor st r \<noteq> Inl (HERMAS_COMPENSATION_OK, c1)" for st r c1
    by (auto simp: compensation_scan_record_def Let_def split: prod.splits option.splits if_splits)
  have "compensation_scan_from visitor bs st \<noteq> Inl (HERMAS_COMPENSATION_OK, c1)" for bs st c1
  proof (induction visitor bs st rule: compensation_scan_from.induct)
    case (1 v bs st)
    have "compensation_scan_record v st r \<noteq> Inl (HERMAS_COMPENSATION_OK, c1)" for r
      by (auto simp: compensation_scan_record_def Let_def split: prod.splits option.splits if_splits)
    with 1 show ?case using no [of bs] by (subst compensation_scan_from.simps) (auto split: sum.split)
  qed
  then have "compensation_scan_from visitor bs (\<lparr>cs_record_count = 0, cs_next_sequence = 1\<rparr>, c) = Inr (cs, c')"
    using assms by (auto simp: hermas_compensation_scan_def split: if_splits sum.splits)
  then show thesis using that unfolding compensation_log.scan_iff by blast
qed

text \<open>C8: On a token log that the startup scan accepts, \<open>hermas_compensation_find\<close> answers exactly
  from the records with the key: none is reported as not found, one is copied into the
  caller's buffer, a token longer than the buffer is refused before anything is copied, and
  two records with the same key are reported as a duplicate.\<close>

theorem compensation_find_exact:
  assumes "hermas_compensation_scan (Some bs) (length bs) visitor c summary = (HERMAS_COMPENSATION_OK, Some cs, c')"
  shows "\<exists>rs. framed compensation_decode bs rs \<and>
    hermas_compensation_find (Some bs) (length bs) key (Some out) =
      (case lookup_result key rs out of (result, out') \<Rightarrow> (result, Some out'))"
proof -
  obtain rs where rs: "framed compensation_decode bs rs" using compensation_scan_framed [OF assms] .
  have scan: "compensation_find_from key bs (out\<lparr>co_found := False\<rparr>) =
      run_records (compensation_find_record key) (out\<lparr>co_found := False\<rparr>) rs"
    by (rule compensation_find.framed_scan [OF rs])
  have same: "lookup_result key rs (out\<lparr>co_found := False\<rparr>) = lookup_result key rs out"
    by (simp add: lookup_result_def found_token_def split: list.split)
  have "hermas_compensation_find (Some bs) (length bs) key (Some out) =
      (case lookup_result key rs out of (result, out') \<Rightarrow> (result, Some out'))"
    using find_record_run [of "out\<lparr>co_found := False\<rparr>" key rs]
    by (auto simp: hermas_compensation_find_def scan same split: sum.splits prod.splits)
  with rs show ?thesis by blast
qed

text \<open>C27: A token record that \<open>hermas_compensation_writer_append\<close> reports as written extends the log
  by exactly one record: the callback got one record that decodes, whatever follows it, to
  the record given, with the writer's sequence number and the same token bytes.\<close>

theorem compensation_append_decodes:
  assumes "hermas_compensation_writer_append (Some w) r (Some scratch) =
      (HERMAS_COMPENSATION_OK, Some w', Some scratch')"
    and "token_readable r"
  shows "\<exists>wr p. cw_write w = Some wr \<and> wr (cw_context w) p = (HERMAS_COMPENSATION_OK, cw_context w') \<and>
    compensation_decode (p @ cs) =
      Inr (r\<lparr>cr_sequence := cw_next_sequence w, cr_token := Some (token_bytes r)\<rparr>, length p) \<and>
    cw_next_sequence w' = cw_next_sequence w + 1"
proof -
  let ?r = "r\<lparr>cr_sequence := cw_next_sequence w\<rparr>"
  from assms(1) obtain wr sz where wr: "cw_write w = Some wr"
    and enc: "compensation_encode ?r scratch = Inr (scratch', sz)"
    and out: "wr (cw_context w) (take sz scratch') = (HERMAS_COMPENSATION_OK, cw_context w')"
    and seq: "cw_next_sequence w' = cw_next_sequence w + 1"
    by (auto simp: hermas_compensation_writer_append_def compensation_writer_append_def compensation_encode_def Let_def
        split: option.splits if_splits sum.splits prod.splits)
  have readable: "token_readable ?r" "token_bytes ?r = token_bytes r"
    using assms(2) by (simp_all add: token_readable_def token_bytes_def split: option.splits)
  have sz: "length (take sz scratch') = sz"
    using compensation_encode_decode(3) [OF enc readable(1)] compensation_encode_bytes(4) [OF enc readable(1)] by simp
  have dec: "compensation_decode (take sz scratch') =
      Inr (r\<lparr>cr_sequence := cw_next_sequence w, cr_token := Some (token_bytes r)\<rparr>, sz)"
    using compensation_encode_decode(1) [OF enc readable(1)] readable(2) by simp
  have "compensation_decode (take sz scratch' @ cs) =
      Inr (r\<lparr>cr_sequence := cw_next_sequence w, cr_token := Some (token_bytes r)\<rparr>, sz)"
    using compensation_decode_local [OF dec, of cs] by simp
  then show ?thesis using wr out seq sz by metis
qed

section \<open>A concrete token log\<close>

definition sample_key :: hermas_compensation_key where
  "sample_key = \<lparr>ck_execution_id = 41, ck_workflow_id = 7, ck_request_id = 1, ck_node_id = 2,
     ck_image_fingerprint = 99\<rparr>"

definition sample_token :: hermas_compensation_record where
  "sample_token = \<lparr>cr_sequence = 1, cr_key = sample_key, cr_app_id = 3, cr_action_id = 4,
     cr_source_type = 5, cr_destination_type = 6, cr_token = Some [8, 9], cr_token_length = 2\<rparr>"

lemma sample_token_simps:
  "record_valid sample_token" "token_readable sample_token" "token_bytes sample_token = [8, 9]"
  "sample_token\<lparr>cr_token := Some [8, 9]\<rparr> = sample_token" "sample_token\<lparr>cr_sequence := 1\<rparr> = sample_token"
  "cr_key sample_token = sample_key" "unat (cr_token_length sample_token) = 2" "cr_sequence sample_token = 1"
  by (simp_all add: sample_token_def sample_key_def record_valid_def token_readable_def token_bytes_def)

definition sample_token_log :: bytes where
  "sample_token_log = (case compensation_encode sample_token (replicate 80 0) of Inl _ \<Rightarrow> [] | Inr (d, sz) \<Rightarrow> take sz d)"

lemma sample_token_parse:
  "compensation_decode sample_token_log = Inr (sample_token, length sample_token_log)"
proof -
  obtain d where enc: "compensation_encode sample_token (replicate 80 0) = Inr (d, 74)"
    using sample_token_simps by (simp add: compensation_encode_def Let_def)
  have "length (take 74 d) = 74"
    using compensation_encode_decode(3) [OF enc sample_token_simps(2)] by simp
  then show ?thesis
    using compensation_encode_decode(1) [OF enc sample_token_simps(2)] enc
    by (simp add: sample_token_log_def sample_token_simps)
qed

lemma sample_token_framed: "framed compensation_decode sample_token_log [sample_token]"
  using compensation_log.framed_append [OF framed_nil sample_token_parse] by simp

lemma sample_token_scan:
  "hermas_compensation_scan (Some sample_token_log) (length sample_token_log) None () (Some cs) =
     (HERMAS_COMPENSATION_OK, Some \<lparr>cs_record_count = 1, cs_next_sequence = 2\<rparr>, ())"
  by (simp add: compensation_log.framed_scan [OF sample_token_framed] hermas_compensation_scan_def compensation_scan_record_def sample_token_simps)

definition sample_out :: compensation_out where
  "sample_out = \<lparr>co_record = sample_token, co_token = [0, 0, 0], co_found = False\<rparr>"

theorem compensation_find_exact_witness:
  "\<exists>rs. framed compensation_decode sample_token_log rs \<and>
    hermas_compensation_find (Some sample_token_log) (length sample_token_log) sample_key (Some sample_out) =
      (case lookup_result sample_key rs sample_out of (result, out') \<Rightarrow> (result, Some out'))"
  by (rule compensation_find_exact [OF sample_token_scan [of "\<lparr>cs_record_count = 0, cs_next_sequence = 0\<rparr>"]])

theorem compensation_append_decodes_witness:
  "\<exists>w' buf. hermas_compensation_writer_append
      (Some \<lparr>cw_write = Some (\<lambda>c p. (HERMAS_COMPENSATION_OK, c @ p)), cw_context = [], cw_next_sequence = 1\<rparr>)
      sample_token (Some (replicate 80 0)) = (HERMAS_COMPENSATION_OK, Some w', Some buf) \<and>
    compensation_decode (cw_context w') = Inr (sample_token, length (cw_context w'))"
proof -
  let ?w = "\<lparr>cw_write = Some (\<lambda>c p. (HERMAS_COMPENSATION_OK, c @ p)), cw_context = [], cw_next_sequence = 1\<rparr>"
  obtain d where enc: "compensation_encode sample_token (replicate 80 0) = Inr (d, 74)"
    using sample_token_simps by (simp add: compensation_encode_def Let_def)
  then obtain w' buf where app: "hermas_compensation_writer_append (Some ?w) sample_token (Some (replicate 80 0)) =
      (HERMAS_COMPENSATION_OK, Some w', Some buf)"
    by (simp add: hermas_compensation_writer_append_def compensation_writer_append_def sample_token_simps)
  show ?thesis
    using compensation_append_decodes [OF app sample_token_simps(2), of "[]"] app
    by (auto simp: sample_token_simps)
qed

end
