(* ===== verification/Hermas_Result.thy ===== *)
theory Hermas_Result
  imports Hermas_Compensation
begin

text \<open>
  The action result store (\<open>src/result.c\<close>): variable-length records of the final value of an
  execution and their codec, with a checksum over the first 56 header bytes and the value. As
  in the token log, a pointer into the file is the bytes it stands for.
\<close>

definition HERMAS_RESULT_VERSION :: u16 where [simp]: "HERMAS_RESULT_VERSION = 1"
definition HERMAS_RESULT_HEADER_SIZE :: nat where [simp]: "HERMAS_RESULT_HEADER_SIZE = 64"

datatype hermas_result_store_result =
    HERMAS_RESULT_STORE_OK
  | HERMAS_RESULT_STORE_INVALID_ARGUMENT
  | HERMAS_RESULT_STORE_BUFFER_TOO_SMALL
  | HERMAS_RESULT_STORE_INVALID_RECORD
  | HERMAS_RESULT_STORE_CHECKSUM_MISMATCH
  | HERMAS_RESULT_STORE_INVALID_SEQUENCE
  | HERMAS_RESULT_STORE_DUPLICATE_RESULT
  | HERMAS_RESULT_STORE_WRITE_ERROR

record hermas_result_key =
  rk_execution_id :: u64
  rk_workflow_id :: u32
  rk_image_fingerprint :: u64

record hermas_result_record =
  rr_sequence :: u64
  rr_key :: hermas_result_key
  rr_outcome :: u16
  rr_source_type :: u16
  rr_destination_type :: u16
  rr_value :: "bytes option"
  rr_value_length :: u32

definition result_key_equal :: "hermas_result_key \<Rightarrow> hermas_result_key \<Rightarrow> bool" where
  "result_key_equal left right \<longleftrightarrow>
     rk_execution_id left = rk_execution_id right \<and> rk_workflow_id left = rk_workflow_id right \<and>
     rk_image_fingerprint left = rk_image_fingerprint right"

lemma result_key_equal_iff [simp]: "result_key_equal a b \<longleftrightarrow> a = b"
  by (cases a; cases b) (simp add: result_key_equal_def)

definition result_record_valid :: "hermas_result_record \<Rightarrow> bool" where
  "result_record_valid r \<longleftrightarrow> rr_sequence r \<noteq> 0 \<and> rk_execution_id (rr_key r) \<noteq> 0 \<and>
     rk_workflow_id (rr_key r) \<noteq> 0 \<and> rk_image_fingerprint (rr_key r) \<noteq> 0 \<and>
     (rr_outcome r = HERMAS_OUTCOME_SUCCESS \<or> rr_outcome r = HERMAS_OUTCOME_APP_ERROR) \<and>
     rr_source_type r \<noteq> 0 \<and> rr_destination_type r \<noteq> 0 \<and>
     unat (rr_value_length r) \<le> HERMAS_PROTOCOL_MAX_PAYLOAD_SIZE \<and>
     (rr_value_length r = 0 \<or> rr_value r \<noteq> None)"

text \<open>\<open>HRS1\<close>\<close>

definition result_magic :: bytes where
  "result_magic = [0x48, 0x52, 0x53, 0x31]"

definition write_result_fields :: "hermas_result_record \<Rightarrow> nat \<Rightarrow> bytes \<Rightarrow> bytes" where
  "write_result_fields r sz destination =
    (let d = memset_zero destination HERMAS_RESULT_HEADER_SIZE;
         d = write_bytes d 0 result_magic;
         d = write_u16 d 4 HERMAS_RESULT_VERSION;
         d = write_u16 d 6 (of_nat HERMAS_RESULT_HEADER_SIZE);
         d = write_u32 d 8 (of_nat sz);
         d = write_u32 d 12 (rr_value_length r);
         d = write_u64 d 16 (rr_sequence r);
         d = write_u64 d 24 (rk_execution_id (rr_key r));
         d = write_u32 d 32 (rk_workflow_id (rr_key r));
         d = write_u64 d 40 (rk_image_fingerprint (rr_key r));
         d = write_u16 d 48 (rr_outcome r);
         d = write_u16 d 50 (rr_source_type r)
     in write_u16 d 52 (rr_destination_type r))"

definition result_encode ::
  "hermas_result_record \<Rightarrow> bytes \<Rightarrow> hermas_result_store_result + bytes \<times> nat" where
  "result_encode r destination =
    (let n = unat (rr_value_length r); sz = HERMAS_RESULT_HEADER_SIZE + n in
     if \<not> result_record_valid r then Inl HERMAS_RESULT_STORE_INVALID_RECORD
     else if length destination < sz then Inl HERMAS_RESULT_STORE_BUFFER_TOO_SMALL
     else (let h = write_result_fields r sz destination;
               d = (if rr_value_length r \<noteq> 0
                    then write_bytes h HERMAS_RESULT_HEADER_SIZE (take n (the (rr_value r))) else h)
           in Inr (write_u32 d 56 (checksum_parts (take 56 d)
                     (chunk d HERMAS_RESULT_HEADER_SIZE n)), sz)))"

definition hermas_result_encode ::
  "hermas_result_record option \<Rightarrow> bytes option \<Rightarrow> nat option \<Rightarrow>
   hermas_result_store_result \<times> bytes option \<times> nat option" where
  "hermas_result_encode record destination encoded_size =
    (case (record, destination, encoded_size) of
       (Some r, Some d, Some _) \<Rightarrow>
         (case result_encode r d of
            Inl e \<Rightarrow> (e, destination, encoded_size)
          | Inr (d', sz) \<Rightarrow> (HERMAS_RESULT_STORE_OK, Some d', Some sz))
     | _ \<Rightarrow> (HERMAS_RESULT_STORE_INVALID_ARGUMENT, destination, encoded_size))"

definition result_fields_of :: "bytes \<Rightarrow> hermas_result_record" where
  "result_fields_of source =
    \<lparr>rr_sequence = read_u64 source 16,
     rr_key = \<lparr>rk_execution_id = read_u64 source 24, rk_workflow_id = read_u32 source 32,
       rk_image_fingerprint = read_u64 source 40\<rparr>,
     rr_outcome = read_u16 source 48,
     rr_source_type = read_u16 source 50,
     rr_destination_type = read_u16 source 52,
     rr_value = Some (chunk source HERMAS_RESULT_HEADER_SIZE (unat (read_u32 source 12))),
     rr_value_length = read_u32 source 12\<rparr>"

definition result_decode ::
  "bytes \<Rightarrow> hermas_result_store_result + hermas_result_record \<times> nat" where
  "result_decode source =
    (if length source < HERMAS_RESULT_HEADER_SIZE then Inl HERMAS_RESULT_STORE_BUFFER_TOO_SMALL
     else
       (let sz = read_u32 source 8; value_length = read_u32 source 12 in
        if chunk source 0 4 \<noteq> result_magic \<or> read_u16 source 4 \<noteq> HERMAS_RESULT_VERSION \<or>
           read_u16 source 6 \<noteq> of_nat HERMAS_RESULT_HEADER_SIZE \<or>
           sz \<noteq> of_nat HERMAS_RESULT_HEADER_SIZE + value_length \<or>
           unat sz > length source \<or> read_u32 source 36 \<noteq> 0 \<or> read_u16 source 54 \<noteq> 0 \<or>
           read_u32 source 60 \<noteq> 0 \<or> unat value_length > HERMAS_PROTOCOL_MAX_PAYLOAD_SIZE
        then Inl HERMAS_RESULT_STORE_INVALID_RECORD
        else if read_u32 source 56 \<noteq> checksum_parts (take 56 source)
                  (chunk source HERMAS_RESULT_HEADER_SIZE (unat value_length))
        then Inl HERMAS_RESULT_STORE_CHECKSUM_MISMATCH
        else if \<not> result_record_valid (result_fields_of source) then Inl HERMAS_RESULT_STORE_INVALID_RECORD
        else Inr (result_fields_of source, unat sz)))"

definition hermas_result_decode ::
  "bytes option \<Rightarrow> hermas_result_record option \<Rightarrow> nat option \<Rightarrow>
   hermas_result_store_result \<times> hermas_result_record option \<times> nat option" where
  "hermas_result_decode source record record_size =
    (case (source, record, record_size) of
       (Some s, Some _, Some _) \<Rightarrow>
         (case result_decode s of
            Inl e \<Rightarrow> (e, record, record_size)
          | Inr (r, sz) \<Rightarrow> (HERMAS_RESULT_STORE_OK, Some r, Some sz))
     | _ \<Rightarrow> (HERMAS_RESULT_STORE_INVALID_ARGUMENT, record, record_size))"

lemma length_write_result_fields [simp]:
  "64 \<le> length d \<Longrightarrow> length (write_result_fields r sz d) = length d"
  by (simp add: write_result_fields_def result_magic_def)

lemma write_result_fields_fields:
  assumes "64 \<le> length d"
  shows "chunk (write_result_fields r sz d) 0 4 = result_magic"
    "chunk (write_result_fields r sz d) 4 2 = le_bytes 2 (1 :: u16)"
    "chunk (write_result_fields r sz d) 6 2 = le_bytes 2 (64 :: u16)"
    "chunk (write_result_fields r sz d) 8 4 = le_bytes 4 (of_nat sz :: u32)"
    "chunk (write_result_fields r sz d) 12 4 = le_bytes 4 (rr_value_length r)"
    "chunk (write_result_fields r sz d) 16 8 = le_bytes 8 (rr_sequence r)"
    "chunk (write_result_fields r sz d) 24 8 = le_bytes 8 (rk_execution_id (rr_key r))"
    "chunk (write_result_fields r sz d) 32 4 = le_bytes 4 (rk_workflow_id (rr_key r))"
    "chunk (write_result_fields r sz d) 36 4 = replicate 4 0"
    "chunk (write_result_fields r sz d) 40 8 = le_bytes 8 (rk_image_fingerprint (rr_key r))"
    "chunk (write_result_fields r sz d) 48 2 = le_bytes 2 (rr_outcome r)"
    "chunk (write_result_fields r sz d) 50 2 = le_bytes 2 (rr_source_type r)"
    "chunk (write_result_fields r sz d) 52 2 = le_bytes 2 (rr_destination_type r)"
    "chunk (write_result_fields r sz d) 54 2 = replicate 2 0"
    "chunk (write_result_fields r sz d) 60 4 = replicate 4 0"
    "drop 64 (write_result_fields r sz d) = drop 64 d"
  using assms
  by (simp_all add: write_result_fields_def result_magic_def buffer_simps)

definition value_bytes :: "hermas_result_record \<Rightarrow> bytes" where
  "value_bytes r = (case rr_value r of None \<Rightarrow> [] | Some t \<Rightarrow> take (unat (rr_value_length r)) t)"

definition value_readable :: "hermas_result_record \<Rightarrow> bool" where
  "value_readable r \<longleftrightarrow> (case rr_value r of None \<Rightarrow> True | Some t \<Rightarrow> unat (rr_value_length r) \<le> length t)"

lemma result_encode_bytes:
  assumes enc: "result_encode r d = Inr (d', sz)" and readable: "value_readable r"
  defines "h \<equiv> take 56 (write_result_fields r sz d)"
  shows "sz = 64 + unat (rr_value_length r)" and "result_record_valid r" and "64 \<le> length d" and "sz \<le> length d"
    and "length (value_bytes r) = unat (rr_value_length r)"
    and "d' = h @ le_bytes 4 (checksum (h @ value_bytes r)) @ replicate 4 0 @ value_bytes r @ drop sz d"
proof -
  let ?n = "unat (rr_value_length r)"
  let ?w = "write_result_fields r sz d"
  from enc show sz: "sz = 64 + ?n" and valid: "result_record_valid r" and fits: "sz \<le> length d"
    by (auto simp: result_encode_def Let_def split: if_splits)
  then show d64: "64 \<le> length d" by simp
  have val: "rr_value_length r \<noteq> 0 \<Longrightarrow> rr_value r \<noteq> None" using valid by (simp add: result_record_valid_def)
  show len: "length (value_bytes r) = ?n"
    using readable val by (cases "rr_value_length r = 0") (auto simp: value_bytes_def value_readable_def split: option.splits)
  have body: "(if rr_value_length r \<noteq> 0 then write_bytes ?w 64 (take ?n (the (rr_value r))) else ?w) =
      write_bytes ?w 64 (value_bytes r)"
  proof (cases "rr_value_length r = 0")
    case True
    then show ?thesis using d64 by (simp add: value_bytes_def split: option.splits)
  next
    case False
    then obtain t where "rr_value r = Some t" using val by blast
    then show ?thesis using False by (simp add: value_bytes_def)
  qed
  let ?b = "write_bytes ?w 64 (value_bytes r)"
  have parts: "take 56 ?b = h" "chunk ?b 64 ?n = value_bytes r" "length ?b = length d" "chunk ?b 60 4 = replicate 4 0"
    using d64 fits sz len write_result_fields_fields(15) [OF d64, of r sz] by (simp_all add: h_def buffer_simps)
  have "d' = write_u32 ?b 56 (checksum_parts (take 56 ?b) (chunk ?b 64 ?n))"
    using enc sz body by (auto simp: result_encode_def Let_def split: if_splits)
  also have "\<dots> = write_bytes ?b 56 (le_bytes 4 (checksum (h @ value_bytes r)))"
    using d64 parts by (simp add: checksum_parts_append write_u32_bytes)
  also have "\<dots> = take 56 ?b @ le_bytes 4 (checksum (h @ value_bytes r)) @ drop 60 ?b"
    by (simp add: write_bytes_def)
  also have "drop 60 ?b = chunk ?b 60 4 @ drop 64 ?b"
    using append_take_drop_id [of 4 "drop 60 ?b"] by (simp add: chunk_def)
  also have "drop 64 ?b = value_bytes r @ drop sz d"
    using d64 sz len fits write_result_fields_fields(16) [OF d64, of r sz]
    by (simp add: write_bytes_def min_absorb1) (metis add.commute drop_drop)
  finally show "d' = h @ le_bytes 4 (checksum (h @ value_bytes r)) @ replicate 4 0 @ value_bytes r @ drop sz d"
    using parts(1,4) by simp
qed

lemma result_decode_reads:
  assumes "result_decode s = Inr (r, n)"
  shows "64 \<le> n" "n \<le> length s" "n = 64 + unat (read_u32 s 12)" "unat (read_u32 s 12) \<le> 65488"
    "chunk s 0 4 = result_magic" "read_u16 s 4 = 1" "read_u16 s 6 = 64" "read_u32 s 8 = of_nat n"
    "read_u32 s 36 = 0" "read_u16 s 54 = 0" "read_u32 s 60 = 0"
    "read_u32 s 56 = checksum_parts (take 56 s) (chunk s 64 (unat (read_u32 s 12)))"
    "r = result_fields_of s" "result_record_valid r"
proof -
  from assms have len: "64 \<le> length s" and small: "unat (read_u32 s 12) \<le> 65488"
    and sz: "read_u32 s 8 = 64 + read_u32 s 12" "n = unat (read_u32 s 8)" "n \<le> length s"
    and rest: "chunk s 0 4 = result_magic" "read_u16 s 4 = 1" "read_u16 s 6 = 64"
      "read_u32 s 36 = 0" "read_u16 s 54 = 0" "read_u32 s 60 = 0"
      "read_u32 s 56 = checksum_parts (take 56 s) (chunk s 64 (unat (read_u32 s 12)))"
      "r = result_fields_of s" "result_record_valid r"
    by (auto simp: result_decode_def Let_def split: if_splits)
  have "unat (64 + read_u32 s 12) = 64 + unat (read_u32 s 12)"
    using small by (simp add: unat_word_ariths)
  then show "n = 64 + unat (read_u32 s 12)" using sz by simp
  then show "64 \<le> n" by simp
  show "read_u32 s 8 = of_nat n" using sz by simp
  show "n \<le> length s" "unat (read_u32 s 12) \<le> 65488" "chunk s 0 4 = result_magic"
    "read_u16 s 4 = 1" "read_u16 s 6 = 64" "read_u32 s 36 = 0" "read_u16 s 54 = 0" "read_u32 s 60 = 0"
    "read_u32 s 56 = checksum_parts (take 56 s) (chunk s 64 (unat (read_u32 s 12)))"
    "r = result_fields_of s" "result_record_valid r"
    by (fact sz small rest)+
qed

lemma result_decode_local:
  assumes dec: "result_decode bs = Inr (r, n)"
  shows "result_decode (take n bs @ cs) = Inr (r, n)"
proof -
  note reads = result_decode_reads [OF dec]
  let ?s = "take n bs @ cs"
  have ch: "chunk ?s off m = chunk bs off m" if "off + m \<le> n" for off m
    using that reads(2) by (simp add: buffer_simps)
  have len: "n \<le> length ?s" using reads(2) by simp
  have field: "read_u16 ?s off = read_u16 bs off" if "off + 2 \<le> n" for off
    using that len reads(2) ch [of off 2] by (simp add: read_u16_chunk)
  have field4: "read_u32 ?s off = read_u32 bs off" if "off + 4 \<le> n" for off
    using that len reads(2) ch [of off 4] by (simp add: read_u32_chunk)
  have field8: "read_u64 ?s off = read_u64 bs off" if "off + 8 \<le> n" for off
    using that len reads(2) ch [of off 8] by (simp add: read_u64_chunk)
  have t: "take 56 ?s = take 56 bs" using reads(1,2) by simp
  have n: "64 + unat (read_u32 bs 12) \<le> n" using reads(3) by simp
  have "result_fields_of ?s = result_fields_of bs"
    using reads(1) n by (simp add: result_fields_of_def field field4 field8 ch)
  moreover have "64 \<le> length ?s" "64 \<le> length bs" using len reads(1,2) by simp_all
  moreover have "result_decode bs = Inr (r, n)" by (fact dec)
  ultimately show ?thesis
    using reads(1,2) n len t by (simp add: result_decode_def field field4 ch Let_def split: if_splits)
qed

lemma result_encode_decode:
  assumes enc: "result_encode r d = Inr (d', sz)" and readable: "value_readable r"
  shows "result_decode (take sz d') = Inr (r\<lparr>rr_value := Some (value_bytes r)\<rparr>, sz)"
    and "drop sz d' = drop sz d" and "length d' = length d"
proof -
  note bytes = result_encode_bytes [OF enc readable]
  let ?w = "write_result_fields r sz d"
  let ?h = "take 56 ?w" and ?t = "value_bytes r"
  let ?p = "?h @ le_bytes 4 (checksum (?h @ ?t)) @ replicate 4 0 @ ?t"
  have h: "length ?h = 56" using bytes(3) by simp
  have p: "take sz d' = ?p" "length ?p = sz" using bytes(1,5,6) h by simp_all
  have hd: "chunk ?p off m = chunk ?w off m" if "off + m \<le> 56" for off m
    using that h by (simp add: buffer_simps)
  note field = write_result_fields_fields [OF bytes(3), of r sz]
  have len: "off + m \<le> 64 \<Longrightarrow> off + m \<le> length ?p" for off m using p bytes(1) by simp
  have small: "unat (rr_value_length r) \<le> 65488" using bytes(2) by (simp add: result_record_valid_def)
  have zero: "le_value (replicate 2 0) = (0 :: u16)" "le_value (replicate 4 0) = (0 :: u32)"
    by (simp_all add: numeral_eq_Suc)
  have ck: "chunk ?p 56 4 = le_bytes 4 (checksum (?h @ ?t))" "take 56 ?p = ?h"
    "chunk ?p 64 (unat (rr_value_length r)) = ?t" "chunk ?p 60 4 = replicate 4 0"
    using h bytes(5) by (simp_all add: chunk_def)
  have reads: "chunk ?p 0 4 = result_magic" "read_u16 ?p 4 = 1" "read_u16 ?p 6 = 64"
    "read_u32 ?p 8 = of_nat sz" "read_u32 ?p 12 = rr_value_length r" "read_u64 ?p 16 = rr_sequence r"
    "read_u64 ?p 24 = rk_execution_id (rr_key r)" "read_u32 ?p 32 = rk_workflow_id (rr_key r)"
    "read_u32 ?p 36 = 0" "read_u64 ?p 40 = rk_image_fingerprint (rr_key r)" "read_u16 ?p 48 = rr_outcome r"
    "read_u16 ?p 50 = rr_source_type r" "read_u16 ?p 52 = rr_destination_type r" "read_u16 ?p 54 = 0"
    "read_u32 ?p 60 = 0"
    by (simp_all only: read_from_chunk len hd field zero ck(4) le_value_le_bytes_fields)
  have crc: "read_u32 ?p 56 = checksum_parts (take 56 ?p) (chunk ?p 64 (unat (rr_value_length r)))"
    unfolding ck(2,3) checksum_parts_append by (simp only: read_u32_chunk len ck(1)) simp
  have wrap: "unat (of_nat sz :: u32) = sz" using bytes(1) small by (simp add: unat_word_ariths)
  have sz32: "(of_nat sz :: u32) = 64 + rr_value_length r" using bytes(1) by simp
  have fields: "result_fields_of ?p = r\<lparr>rr_value := Some ?t\<rparr>"
    unfolding result_fields_of_def HERMAS_RESULT_HEADER_SIZE_def reads ck by (cases r) simp
  have valid: "result_record_valid (r\<lparr>rr_value := Some ?t\<rparr>)" using bytes(2) by (simp add: result_record_valid_def)
  show "result_decode (take sz d') = Inr (r\<lparr>rr_value := Some ?t\<rparr>, sz)"
    unfolding p(1) result_decode_def Let_def fields HERMAS_RESULT_HEADER_SIZE_def reads
    using p(2) bytes(1) crc small valid wrap sz32 by simp
  show "drop sz d' = drop sz d" using bytes(6) p(2) by simp
  show "length d' = length d" using bytes(1,3,4,5,6) by simp
qed

definition result_layout :: "nat list" where
  "result_layout = [4, 2, 2, 4, 4, 8, 8, 4, 4, 8, 2, 2, 2, 2]"

lemma result_decode_encode:
  assumes dec: "result_decode s = Inr (r, length s)" and room: "length s \<le> length d"
  shows "result_encode r d = Inr (s @ drop (length s) d, length s)"
proof -
  note reads = result_decode_reads [OF dec]
  let ?n = "unat (read_u32 s 12)"
  have n: "length s = 64 + ?n" by (fact reads(3))
  have tl: "rr_value_length r = read_u32 s 12" and tok: "rr_value r = Some (drop 64 s)"
    using reads(13) n by (simp_all add: result_fields_of_def chunk_def)
  have readable: "value_readable r" and tb: "value_bytes r = drop 64 s"
    using n tl tok by (simp_all add: value_readable_def value_bytes_def)
  have ok: "result_encode r d \<noteq> Inl e" for e
    using reads(14) room n tl by (simp add: result_encode_def Let_def)
  then obtain d' sz where enc: "result_encode r d = Inr (d', sz)"
    by (cases "result_encode r d") auto
  note bytes = result_encode_bytes [OF enc readable]
  have sz: "sz = length s" using bytes(1) n tl by simp
  let ?w = "write_result_fields r sz d"
  have zero: "le_bytes 4 (0 :: u32) = replicate 4 0" "le_bytes 2 (0 :: u16) = replicate 2 0"
    by (simp_all add: le_bytes_def map_replicate_const)
  have fixed: "chunk s 4 2 = le_bytes 2 (1 :: u16)" "chunk s 6 2 = le_bytes 2 (64 :: u16)"
    "chunk s 8 4 = le_bytes 4 (of_nat sz :: u32)" "chunk s 36 4 = replicate 4 0" "chunk s 54 2 = replicate 2 0"
    "chunk s 60 4 = replicate 4 0"
    using reads n sz by (simp_all flip: le_bytes_read zero)
  have h: "take 56 ?w = take 56 s"
    using n bytes(3)
    by (simp add: take_as_fields [where ns = result_layout] result_layout_def fixed
        write_result_fields_fields reads(5) reads(13) result_fields_of_def le_bytes_read)
  have "checksum (take 56 s @ drop 64 s) = read_u32 s 56"
    using reads(12) n by (simp add: checksum_parts_append chunk_def)
  then have "le_bytes 4 (checksum (take 56 s @ drop 64 s)) = chunk s 56 4"
    using n by (simp add: le_bytes_read)
  then have "d' = take 56 s @ chunk s 56 4 @ chunk s 60 4 @ drop 64 s @ drop (length s) d"
    using bytes(6) h tb sz fixed(6) by simp
  moreover have "chunk s 56 4 @ chunk s 60 4 @ drop 64 s = drop 56 s"
    using append_take_drop_id [of 4 "drop 60 s"] append_take_drop_id [of 4 "drop 56 s"] by (simp add: chunk_def)
  then have "take 56 s @ chunk s 56 4 @ chunk s 60 4 @ drop 64 s @ drop (length s) d = s @ drop (length s) d"
    by (simp flip: append_assoc)
  ultimately show ?thesis using enc sz by simp
qed

end
