(* ===== verification/Hermas_Result_Store.thy ===== *)
theory Hermas_Result_Store
  imports Hermas_Result
begin

text \<open>
  The scan of the result store with its duplicate check, the lookup of a result by its key and
  the writer (\<open>hermas_result_scan\<close>, \<open>hermas_result_find\<close> and \<open>hermas_result_writer_append\<close> of
  \<open>src/result.c\<close>). In the scan, \<open>prior\<close> is the part of the file before the current offset.
\<close>

section \<open>The scan\<close>

record hermas_result_summary =
  rs_record_count :: u64
  rs_next_sequence :: u64

type_synonym 'c result_visitor =
  "('c \<Rightarrow> hermas_result_record \<Rightarrow> hermas_result_store_result \<times> 'c) option"

lemma result_decode_shrinks:
  "result_decode bs = Inr (r, n) \<Longrightarrow> bs \<noteq> [] \<Longrightarrow> length bs - n < length bs"
  using result_decode_reads(1,2) [of bs r n] by simp

text \<open>The inner loop: the records before the current one, until one has its key.\<close>

function result_prior_check :: "hermas_result_key \<Rightarrow> bytes \<Rightarrow> hermas_result_store_result" where
  "result_prior_check key prior =
    (if prior \<noteq> [] then
       (case result_decode prior of
          Inl e \<Rightarrow> e
        | Inr (r, sz) \<Rightarrow>
            if result_key_equal (rr_key r) key then HERMAS_RESULT_STORE_DUPLICATE_RESULT
            else result_prior_check key (drop sz prior))
     else HERMAS_RESULT_STORE_OK)"
  by pat_completeness auto
termination
  by (relation "measure (\<lambda>(key, prior). length prior)") (auto dest: result_decode_shrinks)

declare result_prior_check.simps [simp del]

type_synonym 'c result_scan_state = "hermas_result_summary \<times> bytes \<times> 'c"

text \<open>One iteration for the record \<open>r\<close>, which the file spells \<open>raw\<close>.\<close>

definition result_scan_record ::
  "'c result_visitor \<Rightarrow> 'c result_scan_state \<Rightarrow> hermas_result_record \<times> bytes \<Rightarrow>
   (hermas_result_store_result \<times> 'c) + 'c result_scan_state" where
  "result_scan_record visitor state rec =
    (case (state, rec) of ((result, prior, context), (r, raw)) \<Rightarrow>
       if rr_sequence r \<noteq> rs_next_sequence result then Inl (HERMAS_RESULT_STORE_INVALID_SEQUENCE, context)
       else if result_prior_check (rr_key r) prior \<noteq> HERMAS_RESULT_STORE_OK then
         Inl (result_prior_check (rr_key r) prior, context)
       else
         (let (visited, context') = (case visitor of None \<Rightarrow> (HERMAS_RESULT_STORE_OK, context)
                                                   | Some visit \<Rightarrow> visit context r)
          in if visited \<noteq> HERMAS_RESULT_STORE_OK then Inl (visited, context')
             else Inr (\<lparr>rs_record_count = rs_record_count result + 1,
                        rs_next_sequence = rs_next_sequence result + 1\<rparr>, prior @ raw, context')))"

function result_scan_from ::
  "'c result_visitor \<Rightarrow> bytes \<Rightarrow> 'c result_scan_state \<Rightarrow>
   (hermas_result_store_result \<times> 'c) + 'c result_scan_state" where
  "result_scan_from visitor bs state =
    (if bs \<noteq> [] then
       (case result_decode bs of
          Inl e \<Rightarrow> Inl (e, snd (snd state))
        | Inr (r, sz) \<Rightarrow>
            (case result_scan_record visitor state (r, take sz bs) of
               Inl e \<Rightarrow> Inl e
             | Inr state' \<Rightarrow> result_scan_from visitor (drop sz bs) state'))
     else Inr state)"
  by pat_completeness auto
termination
  by (relation "measure (\<lambda>(visitor, bs, state). length bs)") (auto dest: result_decode_shrinks)

declare result_scan_from.simps [simp del]

definition hermas_result_scan ::
  "bytes option \<Rightarrow> nat \<Rightarrow> 'c result_visitor \<Rightarrow> 'c \<Rightarrow> hermas_result_summary option \<Rightarrow>
   hermas_result_store_result \<times> hermas_result_summary option \<times> 'c" where
  "hermas_result_scan bs byte_count visitor context summary =
    (if bs = None \<and> byte_count \<noteq> 0 \<or> summary = None
     then (HERMAS_RESULT_STORE_INVALID_ARGUMENT, summary, context)
     else (case result_scan_from visitor (take byte_count (case bs of None \<Rightarrow> [] | Some b \<Rightarrow> b))
                  (\<lparr>rs_record_count = 0, rs_next_sequence = 1\<rparr>, [], context) of
             Inl (e, c) \<Rightarrow> (e, summary, c)
           | Inr (result, prior, c) \<Rightarrow> (HERMAS_RESULT_STORE_OK, Some result, c)))"

section \<open>The lookup\<close>

record result_out =
  ro_record :: hermas_result_record
  ro_value :: bytes
  ro_found :: bool

definition result_find_record ::
  "hermas_result_key \<Rightarrow> result_out \<Rightarrow> hermas_result_record \<Rightarrow>
   (hermas_result_store_result \<times> result_out) + result_out" where
  "result_find_record key out candidate =
    (if result_key_equal (rr_key candidate) key then
       (if ro_found out then Inl (HERMAS_RESULT_STORE_DUPLICATE_RESULT, out)
        else if unat (rr_value_length candidate) > length (ro_value out) then
          Inl (HERMAS_RESULT_STORE_BUFFER_TOO_SMALL, out)
        else
          (let value = write_bytes (ro_value out) 0 (value_bytes candidate)
           in Inr (out\<lparr>ro_value := value, ro_record := candidate\<lparr>rr_value := Some value\<rparr>,
                ro_found := True\<rparr>)))
     else Inr out)"

function result_find_from ::
  "hermas_result_key \<Rightarrow> bytes \<Rightarrow> result_out \<Rightarrow> (hermas_result_store_result \<times> result_out) + result_out" where
  "result_find_from key bs out =
    (if bs \<noteq> [] then
       (case result_decode bs of
          Inl e \<Rightarrow> Inl (e, out)
        | Inr (candidate, sz) \<Rightarrow>
            (case result_find_record key out candidate of
               Inl e \<Rightarrow> Inl e
             | Inr out' \<Rightarrow> result_find_from key (drop sz bs) out'))
     else Inr out)"
  by pat_completeness auto
termination
  by (relation "measure (\<lambda>(key, bs, out). length bs)") (auto dest: result_decode_shrinks)

declare result_find_from.simps [simp del]

definition hermas_result_find ::
  "bytes option \<Rightarrow> nat \<Rightarrow> hermas_result_key \<Rightarrow> result_out option \<Rightarrow>
   hermas_result_store_result \<times> result_out option" where
  "hermas_result_find bs byte_count key out =
    (case out of
       None \<Rightarrow> (HERMAS_RESULT_STORE_INVALID_ARGUMENT, None)
     | Some out \<Rightarrow>
        (if bs = None \<and> byte_count \<noteq> 0 then (HERMAS_RESULT_STORE_INVALID_ARGUMENT, Some out)
         else (case result_find_from key (take byte_count (case bs of None \<Rightarrow> [] | Some b \<Rightarrow> b))
                      (out\<lparr>ro_found := False\<rparr>) of
                 Inl (e, out') \<Rightarrow> (e, Some out')
               | Inr out' \<Rightarrow> (HERMAS_RESULT_STORE_OK, Some out'))))"

section \<open>The writer\<close>

type_synonym 'c result_write = "'c \<Rightarrow> bytes \<Rightarrow> hermas_result_store_result \<times> 'c"

record 'c hermas_result_writer =
  rw_write :: "'c result_write option"
  rw_context :: 'c
  rw_next_sequence :: u64

definition hermas_result_writer_init ::
  "'c hermas_result_writer option \<Rightarrow> 'c result_write option \<Rightarrow> 'c \<Rightarrow> u64 \<Rightarrow>
   hermas_result_store_result \<times> 'c hermas_result_writer option" where
  "hermas_result_writer_init writer write context next_sequence =
    (if writer = None \<or> write = None \<or> next_sequence = 0
     then (HERMAS_RESULT_STORE_INVALID_ARGUMENT, writer)
     else (HERMAS_RESULT_STORE_OK, Some \<lparr>rw_write = write, rw_context = context,
             rw_next_sequence = next_sequence\<rparr>))"

definition result_writer_append ::
  "'c hermas_result_writer \<Rightarrow> hermas_result_record \<Rightarrow> bytes \<Rightarrow>
   hermas_result_store_result \<times> 'c hermas_result_writer \<times> bytes" where
  "result_writer_append w r scratch =
    (case rw_write w of
       None \<Rightarrow> (HERMAS_RESULT_STORE_INVALID_ARGUMENT, w, scratch)
     | Some write \<Rightarrow>
        (if rw_next_sequence w = 0 \<or> rw_next_sequence w = - 1
         then (HERMAS_RESULT_STORE_INVALID_ARGUMENT, w, scratch)
         else
           (case result_encode (r\<lparr>rr_sequence := rw_next_sequence w\<rparr>) scratch of
              Inl e \<Rightarrow> (e, w, scratch)
            | Inr (scratch', sz) \<Rightarrow>
                (case write (rw_context w) (take sz scratch') of
                   (written, context) \<Rightarrow>
                     (if written \<noteq> HERMAS_RESULT_STORE_OK then (written, w\<lparr>rw_context := context\<rparr>, scratch')
                      else (HERMAS_RESULT_STORE_OK, w\<lparr>rw_context := context,
                              rw_next_sequence := rw_next_sequence w + 1\<rparr>, scratch'))))))"

definition hermas_result_writer_append ::
  "'c hermas_result_writer option \<Rightarrow> hermas_result_record \<Rightarrow> bytes option \<Rightarrow>
   hermas_result_store_result \<times> 'c hermas_result_writer option \<times> bytes option" where
  "hermas_result_writer_append writer r scratch =
    (case (writer, scratch) of
       (Some w, Some buf) \<Rightarrow>
         (case result_writer_append w r buf of (result, w', buf') \<Rightarrow> (result, Some w', Some buf'))
     | _ \<Rightarrow> (HERMAS_RESULT_STORE_INVALID_ARGUMENT, writer, scratch))"

section \<open>The loops as record logs\<close>

text \<open>The scan's records carry their bytes, which the duplicate check reads again.\<close>

definition result_parse :: "bytes \<Rightarrow> hermas_result_store_result + (hermas_result_record \<times> bytes) \<times> nat" where
  "result_parse bs = map_sum id (\<lambda>(r, n). ((r, take n bs), n)) (result_decode bs)"

lemma result_parse_Inr:
  "result_parse bs = Inr (x, n) \<longleftrightarrow> (\<exists>r. result_decode bs = Inr (r, n) \<and> x = (r, take n bs))"
  by (auto simp: result_parse_def)

interpretation result_find_log: record_log result_decode "result_find_record key"
  "\<lambda>out e. (e, out)" "result_find_from key"
  for key
proof unfold_locales
  fix bs :: bytes and s
  show "result_find_from key [] s = Inr s" by (simp add: result_find_from.simps)
  show "result_find_from key bs s =
      (case result_decode bs of Inl d \<Rightarrow> Inl (d, s)
       | Inr (r, n) \<Rightarrow> (case result_find_record key s r of Inl e \<Rightarrow> Inl e
           | Inr s' \<Rightarrow> result_find_from key (drop n bs) s'))" if "bs \<noteq> []"
    using that by (subst result_find_from.simps) simp
next
  fix bs cs :: bytes and r n
  assume dec: "result_decode bs = Inr (r, n)"
  show "0 < n \<and> n \<le> length bs" using result_decode_reads(1,2) [OF dec] by simp
  show "result_decode (take n bs @ cs) = Inr (r, n)" by (rule result_decode_local [OF dec])
qed

interpretation result_log: record_log result_parse "result_scan_record visitor"
  "\<lambda>state e. (e, snd (snd state))" "result_scan_from visitor"
  for visitor :: "'c result_visitor"
proof unfold_locales
  fix bs :: bytes and s :: "'c result_scan_state"
  show "result_scan_from visitor [] s = Inr s" by (simp add: result_scan_from.simps)
  show "result_scan_from visitor bs s =
      (case result_parse bs of Inl d \<Rightarrow> Inl (d, snd (snd s))
       | Inr (r, n) \<Rightarrow> (case result_scan_record visitor s r of Inl e \<Rightarrow> Inl e
           | Inr s' \<Rightarrow> result_scan_from visitor (drop n bs) s'))" if "bs \<noteq> []"
    using that by (subst result_scan_from.simps) (auto simp: result_parse_def split: sum.split)
next
  fix bs cs :: bytes and x n
  assume "result_parse bs = Inr (x, n)"
  then obtain r where dec: "result_decode bs = Inr (r, n)" and x: "x = (r, take n bs)"
    by (auto simp: result_parse_Inr)
  show n: "0 < n \<and> n \<le> length bs" using result_decode_reads(1,2) [OF dec] by simp
  show "result_parse (take n bs @ cs) = Inr (x, n)"
    using result_decode_local [OF dec, of cs] x n by (simp add: result_parse_Inr min_absorb2)
qed

text \<open>The duplicate check on a framed prefix looks through exactly its records.\<close>

lemma prior_check_framed:
  "framed result_decode prior rs \<Longrightarrow>
   result_prior_check key prior =
     (if key \<in> rr_key ` set rs then HERMAS_RESULT_STORE_DUPLICATE_RESULT else HERMAS_RESULT_STORE_OK)"
proof (induction rule: framed.induct)
  case framed_nil
  then show ?case by (simp add: result_prior_check.simps)
next
  case (framed_cons bs r n rs)
  then show ?case by (subst result_prior_check.simps) auto
qed

text \<open>The invariant of the scan: the prefix is framed, its keys are pairwise distinct.\<close>

definition result_scan_inv :: "(hermas_result_record \<times> bytes) list \<Rightarrow> 'c result_scan_state \<Rightarrow> bool" where
  "result_scan_inv xs state \<longleftrightarrow>
     (case state of (result, prior, context) \<Rightarrow>
        framed result_decode prior (map fst xs) \<and> distinct (map (rr_key \<circ> fst) xs) \<and>
        rs_next_sequence result = of_nat (length xs) + 1 \<and>
        (\<forall>i < length xs. rr_sequence (fst (xs ! i)) = of_nat (i + 1)))"

lemma result_scan_inv_step:
  assumes inv: "result_scan_inv xs s" and step: "result_scan_record visitor s (r, raw) = Inr s'"
    and raw: "result_decode raw = Inr (r, length raw)"
  shows "result_scan_inv (xs @ [(r, raw)]) s'"
proof -
  obtain result prior c where s: "s = (result, prior, c)" by (cases s) auto
  have frame: "framed result_decode prior (map fst xs)" using inv by (simp add: result_scan_inv_def s)
  from step obtain c' where seq: "rr_sequence r = rs_next_sequence result"
    and new: "result_prior_check (rr_key r) prior = HERMAS_RESULT_STORE_OK"
    and s': "s' = (\<lparr>rs_record_count = rs_record_count result + 1,
       rs_next_sequence = rs_next_sequence result + 1\<rparr>, prior @ raw, c')"
    by (auto simp: result_scan_record_def s Let_def split: if_splits prod.splits)
  have "rr_key r \<notin> set (map (rr_key \<circ> fst) xs)"
    using new prior_check_framed [OF frame] by (auto split: if_splits)
  moreover have "framed result_decode (prior @ raw) (map fst xs @ [r])"
    using result_find_log.framed_append [OF frame raw] .
  ultimately show ?thesis
    using inv seq by (auto simp: result_scan_inv_def s s' nth_append less_Suc_eq)
qed

lemma framed_result_raw:
  "framed result_parse bs xs \<Longrightarrow> x \<in> set xs \<Longrightarrow> result_decode (snd x) = Inr (fst x, length (snd x))"
proof (induction rule: framed.induct)
  case framed_nil
  then show ?case by simp
next
  case (framed_cons bs y n xs)
  from framed_cons(2) obtain r where dec: "result_decode bs = Inr (r, n)" "y = (r, take n bs)"
    by (auto simp: result_parse_Inr)
  then show ?case
    using framed_cons result_decode_local [OF dec(1), of "[]"] result_decode_reads(2) [OF dec(1)] by auto
qed

lemma framed_result_fst:
  "framed result_parse bs xs \<Longrightarrow> framed result_decode bs (map fst xs)"
  by (induction rule: framed.induct) (auto simp: result_parse_Inr intro: framed.intros)

lemma result_run_inv:
  "run_records (result_scan_record visitor) (\<lparr>rs_record_count = 0, rs_next_sequence = 1\<rparr>, [], c) xs = Inr s \<Longrightarrow>
   \<forall>x \<in> set xs. result_decode (snd x) = Inr (fst x, length (snd x)) \<Longrightarrow> result_scan_inv xs s"
proof (induction xs arbitrary: s rule: rev_induct)
  case Nil
  then show ?case by (auto simp: result_scan_inv_def)
next
  case (snoc x xs)
  then show ?case
    by (cases x) (auto simp: run_records_snoc_Inr intro!: result_scan_inv_step)
qed

lemma result_scan_errors:
  "result_decode p \<noteq> Inl HERMAS_RESULT_STORE_OK"
  "result_scan_from visitor bs st \<noteq> Inl (HERMAS_RESULT_STORE_OK, c)"
proof -
  show no: "result_decode p \<noteq> Inl HERMAS_RESULT_STORE_OK" for p
    by (auto simp: result_decode_def Let_def)
  show "result_scan_from visitor bs st \<noteq> Inl (HERMAS_RESULT_STORE_OK, c)"
  proof (induction visitor bs st rule: result_scan_from.induct)
    case (1 v bs st)
    have "result_scan_record v st x \<noteq> Inl (HERMAS_RESULT_STORE_OK, c)" for x
      by (auto simp: result_scan_record_def Let_def split: prod.splits option.splits if_splits)
    with 1 show ?case using no [of bs] by (subst result_scan_from.simps) (auto split: sum.split)
  qed
qed

lemma result_scan_framed:
  assumes "hermas_result_scan (Some bs) (length bs) visitor c summary = (HERMAS_RESULT_STORE_OK, Some rs, c')"
  obtains ts where "framed result_decode bs ts" and "distinct (map rr_key ts)"
    and "rs_next_sequence rs = of_nat (length ts) + 1"
    and "\<forall>i < length ts. rr_sequence (ts ! i) = of_nat (i + 1)"
proof -
  from assms obtain prior where
    scan: "result_scan_from visitor bs (\<lparr>rs_record_count = 0, rs_next_sequence = 1\<rparr>, [], c) = Inr (rs, prior, c')"
    by (auto simp: hermas_result_scan_def result_scan_errors split: if_splits sum.splits)
  then obtain xs where xs: "framed result_parse bs xs"
    and run: "run_records (result_scan_record visitor) (\<lparr>rs_record_count = 0, rs_next_sequence = 1\<rparr>, [], c) xs =
      Inr (rs, prior, c')"
    unfolding result_log.scan_iff by blast
  have "result_scan_inv xs (rs, prior, c')"
    using result_run_inv [OF run] framed_result_raw [OF xs] by blast
  then show thesis
    using that [OF framed_result_fst [OF xs]] by (simp add: result_scan_inv_def)
qed

lemma find_run_absent:
  "key \<notin> rr_key ` set rs \<Longrightarrow> run_records (result_find_record key) out rs = Inr out"
  by (induction rs) (auto simp: result_find_record_def)

definition found_result :: "result_out \<Rightarrow> hermas_result_record \<Rightarrow> result_out" where
  "found_result out r =
    (let value = value_bytes r @ drop (length (value_bytes r)) (ro_value out)
     in \<lparr>ro_record = r\<lparr>rr_value := Some value\<rparr>, ro_value = value, ro_found = True\<rparr>)"

lemma find_run_present:
  assumes "distinct (map rr_key rs)" and "r \<in> set rs" and "rr_key r = key" and "\<not> ro_found out"
  shows "run_records (result_find_record key) out rs =
    (if unat (rr_value_length r) > length (ro_value out) then Inl (HERMAS_RESULT_STORE_BUFFER_TOO_SMALL, out)
     else Inr (found_result out r))"
  using assms(1,2)
proof (induction rs)
  case Nil
  then show ?case by simp
next
  case (Cons a rs)
  show ?case
  proof (cases "a = r")
    case True
    then have "key \<notin> rr_key ` set rs" using Cons.prems assms(3) by auto
    moreover have "result_find_record key out r =
        (if unat (rr_value_length r) > length (ro_value out) then Inl (HERMAS_RESULT_STORE_BUFFER_TOO_SMALL, out)
         else Inr (found_result out r))"
      using assms(3,4) by (simp add: result_find_record_def found_result_def write_bytes_def Let_def)
    ultimately show ?thesis
      using True find_run_absent [of key rs "found_result out r"] by simp
  next
    case False
    then have "rr_key a \<noteq> key" using Cons.prems assms(3) by auto
    then show ?thesis using Cons False by (auto simp: result_find_record_def)
  qed
qed

text \<open>C7: A result store that \<open>hermas_result_scan\<close> accepts holds at most one result per execution, so
  \<open>hermas_result_find\<close> on it never reports a duplicate: it finds the one record with the key
  and copies its value, refuses a value longer than the buffer, or reports not found.\<close>

theorem result_store_functional:
  assumes "hermas_result_scan (Some bs) (length bs) visitor c summary = (HERMAS_RESULT_STORE_OK, Some ss, c')"
  shows "\<exists>rs. framed result_decode bs rs \<and> distinct (map rr_key rs) \<and>
    (\<forall>key out. hermas_result_find (Some bs) (length bs) key (Some out) =
      (case find (\<lambda>r. rr_key r = key) rs of
         None \<Rightarrow> (HERMAS_RESULT_STORE_OK, Some (out\<lparr>ro_found := False\<rparr>))
       | Some r \<Rightarrow>
           if unat (rr_value_length r) > length (ro_value out)
           then (HERMAS_RESULT_STORE_BUFFER_TOO_SMALL, Some (out\<lparr>ro_found := False\<rparr>))
           else (HERMAS_RESULT_STORE_OK, Some (found_result out r))))"
proof -
  obtain ts where frame: "framed result_decode bs ts" and keys: "distinct (map rr_key ts)"
    using result_scan_framed [OF assms] by blast
  have "hermas_result_find (Some bs) (length bs) key (Some out) =
      (case find (\<lambda>r. rr_key r = key) ts of
         None \<Rightarrow> (HERMAS_RESULT_STORE_OK, Some (out\<lparr>ro_found := False\<rparr>))
       | Some r \<Rightarrow>
           if unat (rr_value_length r) > length (ro_value out)
           then (HERMAS_RESULT_STORE_BUFFER_TOO_SMALL, Some (out\<lparr>ro_found := False\<rparr>))
           else (HERMAS_RESULT_STORE_OK, Some (found_result out r)))" for key out
  proof (cases "find (\<lambda>r. rr_key r = key) ts")
    case None
    then have "key \<notin> rr_key ` set ts" by (auto simp: find_None_iff)
    then show ?thesis
      using None by (simp add: hermas_result_find_def result_find_log.framed_scan [OF frame] find_run_absent)
  next
    case (Some r)
    then have "r \<in> set ts" "rr_key r = key" by (auto simp: find_Some_iff)
    then show ?thesis
      using Some find_run_present [OF keys, of r key "out\<lparr>ro_found := False\<rparr>"]
      by (simp add: hermas_result_find_def result_find_log.framed_scan [OF frame] found_result_def Let_def)
  qed
  with frame keys show ?thesis by blast
qed

text \<open>C28: The result codec is a bijection between the valid records and the accepted spellings: what
  \<open>hermas_result_encode\<close> writes decodes to the record, with its length, the rest of the buffer untouched;
  and whatever bytes \<open>hermas_result_decode\<close> accepts, encoding the record it returns writes exactly the
  bytes it consumed, so an accepted record has no second spelling.\<close>

theorem result_round_trip:
  "(\<forall>r d n d' sz old m. hermas_result_encode (Some r) (Some d) (Some n) = (HERMAS_RESULT_STORE_OK, Some d', Some sz) \<and>
      value_readable r \<longrightarrow>
      hermas_result_decode (Some (take sz d')) (Some old) (Some m) =
        (HERMAS_RESULT_STORE_OK, Some (r\<lparr>rr_value := Some (value_bytes r)\<rparr>), Some sz) \<and>
      drop sz d' = drop sz d) \<and>
   (\<forall>s old m r sz d n. hermas_result_decode (Some s) (Some old) (Some m) = (HERMAS_RESULT_STORE_OK, Some r, Some sz) \<and>
      sz \<le> length d \<longrightarrow>
      hermas_result_encode (Some r) (Some d) (Some n) =
        (HERMAS_RESULT_STORE_OK, Some (take sz s @ drop sz d), Some sz))"
proof (intro conjI allI impI)
  fix r d n d' sz old m
  assume encoded: "hermas_result_encode (Some r) (Some d) (Some n) = (HERMAS_RESULT_STORE_OK, Some d', Some sz) \<and>
    value_readable r"
  then have "result_encode r d = Inr (d', sz)"
    by (auto simp: hermas_result_encode_def result_encode_def Let_def split: if_splits)
  note read_back = result_encode_decode [OF this encoded [THEN conjunct2]]
  show "hermas_result_decode (Some (take sz d')) (Some old) (Some m) =
      (HERMAS_RESULT_STORE_OK, Some (r\<lparr>rr_value := Some (value_bytes r)\<rparr>), Some sz)"
    and "drop sz d' = drop sz d"
    using read_back by (simp_all add: hermas_result_decode_def)
next
  fix s :: bytes and old m r sz and d :: bytes and n
  assume decoded: "hermas_result_decode (Some s) (Some old) (Some m) = (HERMAS_RESULT_STORE_OK, Some r, Some sz) \<and>
    sz \<le> length d"
  then have dec: "result_decode s = Inr (r, sz)"
    by (auto simp: hermas_result_decode_def result_scan_errors split: sum.splits)
  have len: "length (take sz s) = sz" using result_decode_reads(2) [OF dec] by simp
  then have "result_encode r d = Inr (take sz s @ drop sz d, sz)"
    using result_decode_encode [of "take sz s" r d] result_decode_local [OF dec, of "[]"] decoded by simp
  then show "hermas_result_encode (Some r) (Some d) (Some n) =
      (HERMAS_RESULT_STORE_OK, Some (take sz s @ drop sz d), Some sz)"
    by (simp add: hermas_result_encode_def)
qed

section \<open>A concrete store\<close>

definition sample_result :: hermas_result_record where
  "sample_result = \<lparr>rr_sequence = 1,
     rr_key = \<lparr>rk_execution_id = 41, rk_workflow_id = 7, rk_image_fingerprint = 99\<rparr>,
     rr_outcome = 1, rr_source_type = 5, rr_destination_type = 6, rr_value = Some [8, 9], rr_value_length = 2\<rparr>"

lemma sample_result_simps:
  "result_record_valid sample_result" "value_readable sample_result" "value_bytes sample_result = [8, 9]"
  "sample_result\<lparr>rr_value := Some [8, 9]\<rparr> = sample_result" "unat (rr_value_length sample_result) = 2"
  "rr_sequence sample_result = 1"
  by (simp_all add: sample_result_def result_record_valid_def value_readable_def value_bytes_def)

lemma sample_result_encodes: "\<exists>d. result_encode sample_result (replicate 80 0) = Inr (d, 66)"
  using sample_result_simps by (simp add: result_encode_def Let_def)

definition sample_result_store :: bytes where
  "sample_result_store = (case result_encode sample_result (replicate 80 0) of Inl _ \<Rightarrow> [] | Inr (d, sz) \<Rightarrow> take sz d)"

lemma sample_result_parse:
  "result_decode sample_result_store = Inr (sample_result, length sample_result_store)"
  "sample_result_store \<noteq> []"
proof -
  obtain d where enc: "result_encode sample_result (replicate 80 0) = Inr (d, 66)"
    using sample_result_encodes by blast
  have "length (take 66 d) = 66"
    using result_encode_decode(3) [OF enc sample_result_simps(2)] by simp
  then show "result_decode sample_result_store = Inr (sample_result, length sample_result_store)"
    "sample_result_store \<noteq> []"
    using result_encode_decode(1) [OF enc sample_result_simps(2)] enc
    by (auto simp: sample_result_store_def sample_result_simps)
qed

lemma sample_result_scan:
  "hermas_result_scan (Some sample_result_store) (length sample_result_store) None () (Some ss) =
     (HERMAS_RESULT_STORE_OK, Some \<lparr>rs_record_count = 1, rs_next_sequence = 2\<rparr>, ())"
  by (simp add: hermas_result_scan_def result_log.scan_cons [OF sample_result_parse(2)] result_parse_def
      sample_result_parse(1) result_scan_record_def sample_result_simps result_prior_check.simps
      result_log.scan_nil)

theorem result_store_functional_witness:
  "\<exists>rs. framed result_decode sample_result_store rs \<and> distinct (map rr_key rs)"
  using result_store_functional [OF sample_result_scan [of "\<lparr>rs_record_count = 0, rs_next_sequence = 0\<rparr>"]]
  by blast

theorem result_round_trip_witness:
  "\<exists>d'. hermas_result_encode (Some sample_result) (Some (replicate 80 0)) (Some 0) =
      (HERMAS_RESULT_STORE_OK, Some d', Some 66) \<and>
    hermas_result_decode (Some (take 66 d')) (Some sample_result) (Some 0) =
      (HERMAS_RESULT_STORE_OK, Some sample_result, Some 66) \<and>
    hermas_result_encode (Some sample_result) (Some (replicate 70 1)) (Some 0) =
      (HERMAS_RESULT_STORE_OK, Some (take 66 d' @ replicate 4 1), Some 66)"
proof -
  obtain d' where enc: "hermas_result_encode (Some sample_result) (Some (replicate 80 0)) (Some 0) =
      (HERMAS_RESULT_STORE_OK, Some d', Some 66)"
    using sample_result_encodes by (auto simp: hermas_result_encode_def)
  have dec: "hermas_result_decode (Some (take 66 d')) (Some sample_result) (Some 0) =
      (HERMAS_RESULT_STORE_OK, Some sample_result, Some 66)"
    using result_round_trip enc sample_result_simps(2-4) by metis
  moreover have "hermas_result_encode (Some sample_result) (Some (replicate 70 1)) (Some 0) =
      (HERMAS_RESULT_STORE_OK, Some (take 66 (take 66 d') @ drop 66 (replicate 70 1)), Some 66)"
    by (rule result_round_trip [THEN conjunct2, rule_format]) (use dec in simp)
  ultimately show ?thesis using enc by simp
qed

end
