(* ===== verification/Hermas_Utf8.thy ===== *)
theory Hermas_Utf8
  imports Hermas_Bytes
begin

text \<open>
  The UTF-8 check of the graph image reader (\<open>valid_utf8\<close> of image.c), and its specification: the
  accepted byte strings are exactly the UTF-8 encodings of lists of Unicode scalar values.
\<close>

section \<open>The check\<close>

text \<open>The inner loop over the continuation bytes; \<open>None\<close> is its \<open>return false\<close>.\<close>

fun utf8_continuation :: "u32 \<Rightarrow> bytes \<Rightarrow> u32 option" where
  "utf8_continuation codepoint [] = Some codepoint"
| "utf8_continuation codepoint (next_byte # rest) =
    (if (next_byte AND 0xc0) \<noteq> 0x80 then None
     else utf8_continuation (push_bit 6 codepoint OR ucast (next_byte AND 0x3f)) rest)"

text \<open>The bits of the first byte and the number of continuation bytes it announces.\<close>

definition utf8_first :: "u8 \<Rightarrow> (u32 \<times> nat) option" where
  "utf8_first b =
    (if b \<ge> 0xc2 \<and> b \<le> 0xdf then Some (ucast (b AND 0x1f), 1)
     else if b \<ge> 0xe0 \<and> b \<le> 0xef then Some (ucast (b AND 0x0f), 2)
     else if b \<ge> 0xf0 \<and> b \<le> 0xf4 then Some (ucast (b AND 0x07), 3)
     else None)"

definition utf8_out_of_range :: "u32 \<Rightarrow> nat \<Rightarrow> bool" where
  "utf8_out_of_range codepoint continuation \<longleftrightarrow>
     continuation = 2 \<and> codepoint < 0x800 \<or>
     continuation = 3 \<and> codepoint < 0x10000 \<or>
     codepoint \<ge> 0xd800 \<and> codepoint \<le> 0xdfff \<or>
     codepoint > 0x10ffff"

text \<open>The outer loop, over the bytes from \<open>index\<close> on.\<close>

function valid_utf8 :: "bytes \<Rightarrow> bool" where
  "valid_utf8 [] = True"
| "valid_utf8 (b # rest) =
    (if b \<le> 0x7f then valid_utf8 rest
     else case utf8_first b of
       None \<Rightarrow> False
     | Some (bits, continuation) \<Rightarrow>
         if continuation > length rest then False
         else case utf8_continuation bits (take continuation rest) of
           None \<Rightarrow> False
         | Some codepoint \<Rightarrow>
             if utf8_out_of_range codepoint continuation then False
             else valid_utf8 (drop continuation rest))"
  by pat_completeness auto
termination by (relation "measure length") auto

section \<open>Specification\<close>

definition unicode_scalar :: "nat \<Rightarrow> bool" where
  "unicode_scalar n \<longleftrightarrow> n \<le> 0x10ffff \<and> \<not> (0xd800 \<le> n \<and> n \<le> 0xdfff)"

definition utf8_encode :: "nat \<Rightarrow> bytes" where
  "utf8_encode n =
    (if n < 0x80 then [of_nat n]
     else if n < 0x800 then [of_nat (0xc0 + n div 64), of_nat (0x80 + n mod 64)]
     else if n < 0x10000 then
       [of_nat (0xe0 + n div 4096), of_nat (0x80 + n div 64 mod 64), of_nat (0x80 + n mod 64)]
     else [of_nat (0xf0 + n div 262144), of_nat (0x80 + n div 4096 mod 64),
           of_nat (0x80 + n div 64 mod 64), of_nat (0x80 + n mod 64)])"

text \<open>A continuation byte carries a six-bit digit; the loop reads the digits in base 64.\<close>

definition digit_byte :: "nat \<Rightarrow> u8" where
  "digit_byte d = of_nat (0x80 + d)"

lemma unat_mask_byte: "unat (b AND mask n) = unat b mod 2 ^ n" for b :: u8
proof -
  have "unat (b AND mask n) = unat (take_bit n b)" by (simp only: take_bit_eq_mask)
  also have "\<dots> = take_bit n (unat b)" by (rule unsigned_take_bit_eq)
  also have "\<dots> = unat b mod 2 ^ n" by (rule take_bit_eq_mod)
  finally show ?thesis .
qed

lemma mask_as_mod:
  "unat (b AND 0x1f) = unat b mod 32" "unat (b AND 0x0f) = unat b mod 16"
  "unat (b AND 0x07) = unat b mod 8" "unat (b AND 0x3f) = unat b mod 64" for b :: u8
  using unat_mask_byte [of b 5] unat_mask_byte [of b 4] unat_mask_byte [of b 3] unat_mask_byte [of b 6]
  by (simp_all add: mask_eq_exp_minus_1)

lemma continuation_range: "(b AND 0xc0) = 0x80 \<longleftrightarrow> 0x80 \<le> unat b \<and> unat b < 0xc0" for b :: u8
proof -
  have "NOT (mask 6) = (0xc0 :: u8)" by (simp add: mask_eq_exp_minus_1)
  moreover have "push_bit 6 (drop_bit 6 b) = b AND NOT (mask 6)"
    by (rule bit_eqI) (auto simp: bit_push_bit_iff bit_drop_bit_eq bit_and_iff bit_not_iff bit_mask_iff)
  ultimately have "b AND 0xc0 = push_bit 6 (drop_bit 6 b)" by simp
  then have "unat (b AND 0xc0) = take_bit 8 (push_bit 6 (drop_bit 6 (unat b)))"
    by (simp only: unsigned_push_bit_eq unat_drop_bit_eq) simp
  then have "unat (b AND 0xc0) = unat b div 64 * 64 mod 256"
    by (simp add: push_bit_eq_mult drop_bit_eq_div take_bit_eq_mod)
  moreover have "unat b < 256" using unsigned_less [of b] by simp
  ultimately have "unat (b AND 0xc0) = unat b div 64 * 64" by auto
  moreover have "(b AND 0xc0) = 0x80 \<longleftrightarrow> unat (b AND 0xc0) = 128" by (simp add: word_unat_eq_iff)
  ultimately show ?thesis by auto
qed

text \<open>One step of the inner loop appends a digit, as long as the codepoint stays small.\<close>

lemma unat_digit_byte: "d < 64 \<Longrightarrow> unat (digit_byte d) = 0x80 + d"
  unfolding digit_byte_def unat_of_nat by simp

lemma append_digit:
  assumes "unat codepoint < 2 ^ 20" and "d < 64"
  shows "unat (push_bit 6 codepoint OR ucast (digit_byte d AND 0x3f) :: u32) = unat codepoint * 64 + d"
proof -
  have low: "unat (digit_byte d AND 0x3f) = d"
    using assms(2) mod_mult_self1 [of d 2 64]
    by (simp only: mask_as_mod unat_digit_byte add.commute) simp
  have m: "(0x3f :: u8) = mask 6" by (simp add: mask_eq_exp_minus_1)
  have "push_bit 6 codepoint AND ucast (digit_byte d AND 0x3f) = 0"
    unfolding m by (rule bit_eqI) (auto simp: bit_and_iff bit_push_bit_iff bit_ucast_iff bit_mask_iff)
  then have "push_bit 6 codepoint OR ucast (digit_byte d AND 0x3f) =
        push_bit 6 codepoint + (ucast (digit_byte d AND 0x3f) :: u32)"
    by (simp add: disjunctive_add_eq_or)
  then show ?thesis using assms low
    by (simp add: unat_word_ariths unsigned_push_bit_eq push_bit_eq_mult take_bit_eq_mod unsigned_ucast_eq)
qed

lemma digit_byte_iff: "(b AND 0xc0) = 0x80 \<longleftrightarrow> (\<exists>d < 64. b = digit_byte d)"
proof
  assume "(b AND 0xc0) = 0x80"
  then have d: "unat b - 0x80 < 64" "0x80 \<le> unat b" by (auto simp: continuation_range)
  then have "b = digit_byte (unat b - 0x80)" by (simp add: word_unat_eq_iff unat_digit_byte)
  with d(1) show "\<exists>d < 64. b = digit_byte d" by blast
qed (auto simp: continuation_range unat_digit_byte)

text \<open>The inner loop succeeds exactly on continuation bytes and reads them in base 64.\<close>

lemma utf8_continuation_Some:
  assumes "(unat codepoint + 1) * 64 ^ length bs \<le> 2 ^ 26"
  shows "utf8_continuation codepoint bs = Some c \<longleftrightarrow>
    (\<exists>ds. bs = map digit_byte ds \<and> (\<forall>d \<in> set ds. d < 64) \<and>
       unat c = foldl (\<lambda>n d. n * 64 + d) (unat codepoint) ds)"
  using assms
proof (induction bs arbitrary: codepoint)
  case Nil
  then show ?case by (auto simp: word_unat_eq_iff)
next
  case (Cons b bs)
  show ?case
  proof (cases "(b AND 0xc0) = 0x80")
    case False
    then show ?thesis by (auto simp: digit_byte_iff)
  next
    case True
    then obtain d where d: "d < 64" "b = digit_byte d" by (auto simp: digit_byte_iff)
    have "(unat codepoint + 1) * 64 * 1 \<le> (unat codepoint + 1) * 64 * 64 ^ length bs"
      by (intro mult_le_mono) auto
    also have "\<dots> = (unat codepoint + 1) * 64 ^ length (b # bs)" by (simp add: algebra_simps)
    finally have "(unat codepoint + 1) * 64 \<le> 2 ^ 26" using Cons.prems by simp
    then have "unat codepoint < 2 ^ 20" by simp
    note appended = append_digit [OF this d(1)]
    have "(unat codepoint * 64 + d + 1) * 64 ^ length bs \<le> (unat codepoint + 1) * 64 * 64 ^ length bs"
      using d(1) by (intro mult_le_mono) auto
    also have "\<dots> = (unat codepoint + 1) * 64 ^ length (b # bs)" by (simp add: algebra_simps)
    finally have "(unat codepoint * 64 + d + 1) * 64 ^ length bs \<le> 2 ^ 26" using Cons.prems by simp
    with True have "utf8_continuation codepoint (b # bs) = Some c \<longleftrightarrow>
        (\<exists>ds. bs = map digit_byte ds \<and> (\<forall>d \<in> set ds. d < 64) \<and>
           unat c = foldl (\<lambda>n d. n * 64 + d) (unat codepoint * 64 + d) ds)"
      using Cons.IH [of "push_bit 6 codepoint OR ucast (digit_byte d AND 0x3f)"] d appended by simp
    also have "\<dots> \<longleftrightarrow> (\<exists>ds. b # bs = map digit_byte ds \<and> (\<forall>d \<in> set ds. d < 64) \<and>
           unat c = foldl (\<lambda>n d. n * 64 + d) (unat codepoint) ds)"
    proof
      assume "\<exists>ds. bs = map digit_byte ds \<and> (\<forall>d \<in> set ds. d < 64) \<and>
           unat c = foldl (\<lambda>n d. n * 64 + d) (unat codepoint * 64 + d) ds"
      then obtain ds where "bs = map digit_byte ds" "\<forall>d \<in> set ds. d < 64"
          "unat c = foldl (\<lambda>n d. n * 64 + d) (unat codepoint * 64 + d) ds" by blast
      then show "\<exists>ds. b # bs = map digit_byte ds \<and> (\<forall>d \<in> set ds. d < 64) \<and>
           unat c = foldl (\<lambda>n d. n * 64 + d) (unat codepoint) ds"
        using d by (intro exI [of _ "d # ds"]) simp
    next
      assume "\<exists>ds. b # bs = map digit_byte ds \<and> (\<forall>d \<in> set ds. d < 64) \<and>
           unat c = foldl (\<lambda>n d. n * 64 + d) (unat codepoint) ds"
      then obtain d' ds where "b = digit_byte d'" "d' < 64" "bs = map digit_byte ds" "\<forall>d \<in> set ds. d < 64"
          "unat c = foldl (\<lambda>n d. n * 64 + d) (unat codepoint * 64 + d') ds"
        by (auto simp: Cons_eq_map_conv)
      moreover have "d' = d"
        using calculation(1,2) d unat_digit_byte [of d'] unat_digit_byte [of d] by simp
      ultimately show "\<exists>ds. bs = map digit_byte ds \<and> (\<forall>d \<in> set ds. d < 64) \<and>
           unat c = foldl (\<lambda>n d. n * 64 + d) (unat codepoint * 64 + d) ds" by blast
    qed
    finally show ?thesis .
  qed
qed

text \<open>One encoded scalar value, read by the check.\<close>

lemma unat_byte_of_nat: "n < 256 \<Longrightarrow> unat (of_nat n :: u8) = n"
  unfolding unat_of_nat by simp

lemma mod_offset: "q * m \<le> n \<Longrightarrow> n < q * m + m \<Longrightarrow> n mod m = n - q * m" for n m q :: nat
  by (metis add_diff_inverse_nat add_less_cancel_left leD mod_less mod_mult_self3)

lemma unat_first_bits:
  "0xc2 \<le> unat b \<Longrightarrow> unat b \<le> 0xdf \<Longrightarrow> unat (ucast (b AND 0x1f) :: u32) = unat b - 0xc0"
  "0xe0 \<le> unat b \<Longrightarrow> unat b \<le> 0xef \<Longrightarrow> unat (ucast (b AND 0x0f) :: u32) = unat b - 0xe0"
  "0xf0 \<le> unat b \<Longrightarrow> unat b \<le> 0xf4 \<Longrightarrow> unat (ucast (b AND 0x07) :: u32) = unat b - 0xf0" for b :: u8
  using mod_offset [of 6 32 "unat b"] mod_offset [of 14 16 "unat b"] mod_offset [of 30 8 "unat b"]
  by (simp_all add: unsigned_ucast_eq mask_as_mod take_bit_eq_mod)

lemma utf8_first_Some:
  "utf8_first b = Some (bits, k) \<longleftrightarrow>
     k = 1 \<and> 0xc2 \<le> unat b \<and> unat b \<le> 0xdf \<and> unat bits = unat b - 0xc0 \<or>
     k = 2 \<and> 0xe0 \<le> unat b \<and> unat b \<le> 0xef \<and> unat bits = unat b - 0xe0 \<or>
     k = 3 \<and> 0xf0 \<le> unat b \<and> unat b \<le> 0xf4 \<and> unat bits = unat b - 0xf0"
proof -
  have eq: "(x = bits) = (unat bits = unat x)" for x by (auto simp: word_unat_eq_iff)
  show ?thesis
    unfolding utf8_first_def word_le_nat_alt
    by (auto simp: eq unat_first_bits split: if_splits)
qed


abbreviation digits_value :: "nat \<Rightarrow> nat list \<Rightarrow> nat" where
  "digits_value \<equiv> foldl (\<lambda>n d. n * 64 + d)"

lemma base64: "n = x * 64 + d \<Longrightarrow> d < 64 \<Longrightarrow> n div 64 = x \<and> n mod 64 = d" for n x d :: nat
  by simp

lemma length_cases_3:
  "length xs = 1 \<longleftrightarrow> (\<exists>a. xs = [a])" "length xs = 2 \<longleftrightarrow> (\<exists>a b. xs = [a, b])"
  "length xs = 3 \<longleftrightarrow> (\<exists>a b c. xs = [a, b, c])"
  by (auto simp: length_Suc_conv numeral_2_eq_2 numeral_3_eq_3)

text \<open>What the check reads of a multi-byte character is the character's encoding.\<close>

lemma utf8_read_encode:
  assumes "utf8_first b = Some (bits, length ds)" and "\<forall>d \<in> set ds. d < 64"
    and "n = digits_value (unat bits) ds"
    and "\<not> (length ds = 2 \<and> n < 0x800 \<or> length ds = 3 \<and> n < 0x10000)"
  shows "0x80 \<le> n \<and> utf8_encode n = b # map digit_byte ds"
proof -
  have b: "b = of_nat (unat b)" by simp
  consider a where "ds = [a]" "0xc2 \<le> unat b" "unat b \<le> 0xdf" "unat bits = unat b - 0xc0"
    | a c where "ds = [a, c]" "0xe0 \<le> unat b" "unat b \<le> 0xef" "unat bits = unat b - 0xe0"
    | a c e where "ds = [a, c, e]" "0xf0 \<le> unat b" "unat b \<le> 0xf4" "unat bits = unat b - 0xf0"
    using assms(1) by (auto simp: utf8_first_Some length_cases_3 [unfolded One_nat_def])
  then show ?thesis
  proof cases
    case 1
    then have n: "n = (unat b - 0xc0) * 64 + a" "a < 64" using assms by simp_all
    then have "n div 64 = unat b - 0xc0" "n mod 64 = a" "0x80 \<le> n" "n < 0x800"
      using 1 by auto
    then show ?thesis using 1 b by (simp add: utf8_encode_def digit_byte_def flip: of_nat_add)
  next
    case 2
    then have n: "n = ((unat b - 0xe0) * 64 + a) * 64 + c" "a < 64" "c < 64" using assms by simp_all
    note outer = base64 [OF n(1) n(3)]
    then have "n div 64 = (unat b - 0xe0) * 64 + a" "n mod 64 = c" by simp_all
    moreover have "n < 0x10000" using 2 n by simp
    moreover have "n div 4096 = unat b - 0xe0" "n div 64 mod 64 = a"
      using div_mult2_eq [of n 64 64] base64 [OF conjunct1 [OF outer] n(2)] by simp_all
    ultimately show ?thesis
      using 2 b assms(4) by (simp add: utf8_encode_def digit_byte_def flip: of_nat_add)
  next
    case 3
    then have n: "n = (((unat b - 0xf0) * 64 + a) * 64 + c) * 64 + e" "a < 64" "c < 64" "e < 64"
      using assms by simp_all
    note outer = base64 [OF n(1) n(4)]
    note middle = base64 [OF conjunct1 [OF outer] n(3)]
    note inner = base64 [OF conjunct1 [OF middle] n(2)]
    have "n div 4096 = n div 64 div 64" "n div 262144 = n div 64 div 64 div 64"
      by (simp_all flip: div_mult2_eq)
    then have "n div 64 mod 64 = c" "n mod 64 = e" "n div 4096 mod 64 = a" "n div 262144 = unat b - 0xf0"
      using outer middle inner by simp_all
    then show ?thesis
      using 3 b assms(4) by (simp add: utf8_encode_def digit_byte_def flip: of_nat_add)
  qed
qed

lemma utf8_encode_read:
  assumes "unicode_scalar n" and "0x80 \<le> n"
  obtains b bits ds where "utf8_encode n = b # map digit_byte ds" and "\<forall>d \<in> set ds. d < 64"
    and "utf8_first b = Some (bits, length ds)" and "n = digits_value (unat bits) ds"
    and "\<not> (length ds = 2 \<and> n < 0x800 \<or> length ds = 3 \<and> n < 0x10000)" and "0x7f < b"
proof -
  have le: "n \<le> 0x10ffff" using assms(1) by (simp add: unicode_scalar_def)
  have word: "unat (of_nat k :: u32) = k" if "k < 256" for k unfolding unat_of_nat using that by simp
  consider "n < 0x800" | "0x800 \<le> n" "n < 0x10000" | "0x10000 \<le> n" by linarith
  then show thesis
  proof cases
    case 1
    then have h: "2 \<le> n div 64" "n div 64 < 32" using assms(2) by auto
    show thesis
      by (rule that [of "of_nat (0xc0 + n div 64)" "[n mod 64]" "of_nat (n div 64)"])
        (use 1 h assms(2) in \<open>simp_all add: utf8_encode_def digit_byte_def utf8_first_Some
           unat_byte_of_nat word word_less_nat_alt del: of_nat_add\<close>)
  next
    case 2
    then have h: "n div 4096 < 16" by auto
    have "n = (n div 4096 * 64 + n div 64 mod 64) * 64 + n mod 64"
      using div_mult2_eq [of n 64 64] by simp
    then show thesis
      by (intro that [of "of_nat (0xe0 + n div 4096)" "[n div 64 mod 64, n mod 64]" "of_nat (n div 4096)"])
        (use 2 h in \<open>simp_all add: utf8_encode_def digit_byte_def utf8_first_Some
           unat_byte_of_nat word word_less_nat_alt del: of_nat_add\<close>)
  next
    case 3
    then have h: "n div 262144 < 5" using le by auto
    have "n = ((n div 262144 * 64 + n div 4096 mod 64) * 64 + n div 64 mod 64) * 64 + n mod 64"
      using div_mult2_eq [of n 64 64] div_mult2_eq [of n 4096 64] by simp
    then show thesis
      by (intro that [of "of_nat (0xf0 + n div 262144)" "[n div 4096 mod 64, n div 64 mod 64, n mod 64]"
          "of_nat (n div 262144)"])
        (use 3 h in \<open>simp_all add: utf8_encode_def digit_byte_def utf8_first_Some
           unat_byte_of_nat word word_less_nat_alt del: of_nat_add\<close>)
  qed
qed


lemma utf8_loop_bits:
  assumes "utf8_first b = Some (bits, k)" and "length cs = k"
  shows "utf8_continuation bits cs = Some codepoint \<longleftrightarrow>
    (\<exists>ds. cs = map digit_byte ds \<and> (\<forall>d \<in> set ds. d < 64) \<and>
       unat codepoint = digits_value (unat bits) ds)"
  by (rule utf8_continuation_Some) (use assms in \<open>auto simp: utf8_first_Some\<close>)

lemma utf8_out_of_range_iff:
  "utf8_out_of_range c k \<longleftrightarrow>
     \<not> unicode_scalar (unat c) \<or> k = 2 \<and> unat c < 0x800 \<or> k = 3 \<and> unat c < 0x10000"
  by (auto simp: utf8_out_of_range_def unicode_scalar_def word_le_nat_alt word_less_nat_alt)

lemma valid_utf8_encode:
  assumes "unicode_scalar n"
  shows "valid_utf8 (utf8_encode n @ rest) = valid_utf8 rest"
proof (cases "n < 0x80")
  case True
  then show ?thesis
    by (simp add: utf8_encode_def word_le_nat_alt unat_byte_of_nat)
next
  case False
  then obtain b bits ds where enc: "utf8_encode n = b # map digit_byte ds" "\<forall>d \<in> set ds. d < 64"
    and first: "utf8_first b = Some (bits, length ds)" and n: "n = digits_value (unat bits) ds"
    and range: "\<not> (length ds = 2 \<and> n < 0x800 \<or> length ds = 3 \<and> n < 0x10000)" and b: "0x7f < b"
    using utf8_encode_read [of n] assms by (metis not_less)
  have c: "unat (of_nat n :: u32) = n"
    unfolding unat_of_nat using assms by (simp add: unicode_scalar_def)
  have "utf8_continuation bits (map digit_byte ds) = Some (of_nat n)"
    using enc(2) n c by (subst utf8_loop_bits [OF first]) auto
  then show ?thesis
    using enc first b range assms c by (auto simp: utf8_out_of_range_iff)
qed

lemma valid_utf8_split:
  assumes "valid_utf8 (b # rest)"
  obtains n rest' where "unicode_scalar n" and "b # rest = utf8_encode n @ rest'"
    and "valid_utf8 rest'" and "length rest' < Suc (length rest)"
proof (cases "b \<le> 0x7f")
  case True
  then have "unat b < 0x80" by (simp add: word_le_nat_alt)
  then show thesis
    using that [of "unat b" rest] assms True by (simp add: unicode_scalar_def utf8_encode_def)
next
  case False
  then obtain bits k codepoint where first: "utf8_first b = Some (bits, k)" and k: "k \<le> length rest"
    and cont: "utf8_continuation bits (take k rest) = Some codepoint"
    and range: "\<not> utf8_out_of_range codepoint k" and rest: "valid_utf8 (drop k rest)"
    using assms by (auto split: option.splits prod.splits if_splits)
  have "length (take k rest) = k" using k by simp
  from cont [unfolded utf8_loop_bits [OF first this]] obtain ds where ds: "take k rest = map digit_byte ds"
      "\<forall>d \<in> set ds. d < 64" "unat codepoint = digits_value (unat bits) ds" by blast
  have len: "length ds = k" using k ds(1) by (metis length_map length_take min_absorb2)
  have "utf8_encode (unat codepoint) = b # take k rest"
    using utf8_read_encode [of b bits ds "unat codepoint"] first ds range len
    by (simp add: utf8_out_of_range_iff)
  then show thesis
    using that [of "unat codepoint" "drop k rest"] range rest by (auto simp: utf8_out_of_range_iff)
qed

text \<open>C24: \<open>valid_utf8\<close> is exactly UTF-8: it accepts a byte string if and only if the string is the
  concatenation of the shortest UTF-8 encodings of Unicode scalar values, so overlong forms,
  surrogates, stray continuation bytes and values above U+10FFFF are refused and nothing else.\<close>

theorem valid_utf8_iff:
  "valid_utf8 bs = (\<exists>ns. list_all unicode_scalar ns \<and> bs = concat (map utf8_encode ns))"
proof
  assume "valid_utf8 bs"
  then show "\<exists>ns. list_all unicode_scalar ns \<and> bs = concat (map utf8_encode ns)"
  proof (induction "length bs" arbitrary: bs rule: less_induct)
    case less
    show ?case
    proof (cases bs)
      case Nil
      then show ?thesis by (intro exI [of _ "[]"]) simp
    next
      case (Cons b rest)
      with less.prems obtain n rest' where "unicode_scalar n" "bs = utf8_encode n @ rest'"
        "valid_utf8 rest'" "length rest' < length bs" using valid_utf8_split by (metis length_Cons)
      moreover from this less.hyps obtain ns where "list_all unicode_scalar ns"
        "rest' = concat (map utf8_encode ns)" by blast
      ultimately show ?thesis by (intro exI [of _ "n # ns"]) simp
    qed
  qed
next
  assume "\<exists>ns. list_all unicode_scalar ns \<and> bs = concat (map utf8_encode ns)"
  then obtain ns where "list_all unicode_scalar ns" "bs = concat (map utf8_encode ns)" by blast
  then show "valid_utf8 bs"
    by (induction ns arbitrary: bs) (simp_all add: valid_utf8_encode)
qed

end
