(* ===== verification/Hermas_Image.thy ===== *)
theory Hermas_Image
  imports Hermas_Utf8
begin

text \<open>
  The reader of graph images (image.c): result codes, table bounds, type representations and the
  check of a payload against a representation. An image is a byte list and its \<open>size\<close>; offsets
  are \<open>size_t\<close> values, kept as \<open>nat\<close> since every one of them is at most \<open>HERMAS_IMAGE_MAX_SIZE\<close>
  plus a record size. A cursor that C passes by address is returned with the result.
\<close>

section \<open>Constants and result codes\<close>

definition HERMAS_GRAPH_IMAGE_VERSION :: u16 where [simp]: "HERMAS_GRAPH_IMAGE_VERSION = 1"
definition HERMAS_HEADER_SIZE :: nat where [simp]: "HERMAS_HEADER_SIZE = 80"
definition HERMAS_IMAGE_MAX_SIZE :: nat where [simp]: "HERMAS_IMAGE_MAX_SIZE = 1048576"
definition HERMAS_ACTION_CONTRACT_RECORD_SIZE :: nat where [simp]: "HERMAS_ACTION_CONTRACT_RECORD_SIZE = 36"
definition HERMAS_TYPE_RECORD_SIZE :: nat where [simp]: "HERMAS_TYPE_RECORD_SIZE = 8"
definition HERMAS_NODE_RECORD_SIZE :: nat where [simp]: "HERMAS_NODE_RECORD_SIZE = 8"
definition HERMAS_EDGE_RECORD_SIZE :: nat where [simp]: "HERMAS_EDGE_RECORD_SIZE = 16"
definition HERMAS_REGION_RECORD_SIZE :: nat where [simp]: "HERMAS_REGION_RECORD_SIZE = 16"
definition HERMAS_MAX_NODES :: nat where [simp]: "HERMAS_MAX_NODES = 64"
definition HERMAS_MAX_ACTION_CONTRACTS :: nat where [simp]: "HERMAS_MAX_ACTION_CONTRACTS = 80"
definition HERMAS_MAX_EDGES :: nat where [simp]: "HERMAS_MAX_EDGES = 192"
definition HERMAS_MAX_ERRORS :: nat where [simp]: "HERMAS_MAX_ERRORS = 256"
definition HERMAS_MAX_ALL_BRANCHES :: nat where [simp]: "HERMAS_MAX_ALL_BRANCHES = 8"
definition SIZE_MAX :: nat where "SIZE_MAX = 2 ^ 64 - 1"

datatype hermas_image_result =
    HERMAS_IMAGE_OK
  | HERMAS_IMAGE_TRUNCATED
  | HERMAS_IMAGE_BAD_MAGIC
  | HERMAS_IMAGE_UNSUPPORTED_VERSION
  | HERMAS_IMAGE_INVALID_HEADER
  | HERMAS_IMAGE_INVALID_OFFSET
  | HERMAS_IMAGE_INVALID_COUNT
  | HERMAS_IMAGE_INVALID_STRING
  | HERMAS_IMAGE_INVALID_RECORD
  | HERMAS_IMAGE_DUPLICATE_RECORD
  | HERMAS_IMAGE_INVALID_TOPOLOGY
  | HERMAS_IMAGE_INVALID_VALUE
  | HERMAS_IMAGE_ACTION_NOT_FOUND

section \<open>Loops that may stop with an error\<close>

text \<open>\<open>for\<close> over \<open>is\<close> with the loop's variables as state; \<open>Inl\<close> is a \<open>return\<close> from the body.\<close>

fun for_each :: "('i \<Rightarrow> 's \<Rightarrow> 'e + 's) \<Rightarrow> 'i list \<Rightarrow> 's \<Rightarrow> 'e + 's" where
  "for_each body [] s = Inr s"
| "for_each body (i # is) s = (case body i s of Inl e \<Rightarrow> Inl e | Inr s' \<Rightarrow> for_each body is s')"

lemma for_each_cong [fundef_cong]:
  assumes "is = js" and "s = t" and "\<And>i s. i \<in> set js \<Longrightarrow> f i s = g i s"
  shows "for_each f is s = for_each g js t"
  using assms(3) unfolding assms(1,2)
  by (induction js arbitrary: t) (auto split: sum.split)

lemma for_each_append:
  "for_each f (is @ js) s = (case for_each f is s of Inl e \<Rightarrow> Inl e | Inr s' \<Rightarrow> for_each f js s')"
  by (induction "is" arbitrary: s) (auto split: sum.split)

lemma for_each_snoc_Inr:
  "for_each f (is @ [i]) s = Inr s'' \<longleftrightarrow> (\<exists>s'. for_each f is s = Inr s' \<and> f i s' = Inr s'')"
  by (auto simp: for_each_append split: sum.splits)

text \<open>An invariant of a loop over \<open>0..<n\<close>, indexed by the iterations done.\<close>

lemma for_each_invariant:
  assumes "for_each f [0..<n] s = Inr s'" and "I 0 s"
    and "\<And>i t t'. i < n \<Longrightarrow> I i t \<Longrightarrow> f i t = Inr t' \<Longrightarrow> I (Suc i) t'"
  shows "I n s'"
  using assms(1,3)
proof (induction n arbitrary: s')
  case 0
  then show ?case using assms(2) by simp
next
  case (Suc n)
  from Suc.prems(1) obtain t where "for_each f [0..<n] s = Inr t" "f n t = Inr s'"
    by (auto simp: for_each_snoc_Inr simp del: upt_Suc simp: upt_Suc_append)
  with Suc show ?case by (metis less_Suc_eq)
qed

section \<open>Table bounds and searches\<close>

definition checked_table_end :: "nat \<Rightarrow> nat \<Rightarrow> nat \<Rightarrow> nat option" where
  "checked_table_end offset count record_size =
    (if count > (SIZE_MAX - offset) div record_size then None
     else Some (offset + count * record_size))"

definition contains_u16 :: "bytes \<Rightarrow> nat \<Rightarrow> nat \<Rightarrow> nat \<Rightarrow> u16 \<Rightarrow> bool" where
  "contains_u16 bs offset count stride v \<longleftrightarrow>
     list_ex (\<lambda>index. read_u16 bs (offset + index * stride) = v) [0..<count]"

definition contains_action_contract :: "bytes \<Rightarrow> nat \<Rightarrow> nat \<Rightarrow> u16 \<Rightarrow> u16 \<Rightarrow> bool" where
  "contains_action_contract bs offset count app action \<longleftrightarrow>
     list_ex (\<lambda>index. let rec = offset + index * HERMAS_ACTION_CONTRACT_RECORD_SIZE
                      in read_u16 bs rec = app \<and> read_u16 bs (rec + 2) = action) [0..<count]"

text \<open>The representation of a type: where it starts, and where the next one starts.\<close>

definition type_descriptor :: "bytes \<Rightarrow> nat \<Rightarrow> nat \<Rightarrow> nat \<Rightarrow> u16 \<Rightarrow> (nat \<times> nat) option" where
  "type_descriptor bs types_offset type_count strings_offset type_id =
    (case first_index (\<lambda>index.
            read_u16 bs (types_offset + index * HERMAS_TYPE_RECORD_SIZE) = type_id) type_count of
       None \<Rightarrow> None
     | Some index \<Rightarrow>
         (let rec = types_offset + index * HERMAS_TYPE_RECORD_SIZE
          in Some (unat (read_u32 bs (rec + 4)),
               if index + 1 < type_count
               then unat (read_u32 bs (rec + HERMAS_TYPE_RECORD_SIZE + 4))
               else strings_offset)))"

section \<open>Type representations\<close>

text \<open>
  A representation is a tree in prefix order, eight bytes a node: kind, a zero byte, the number
  of children and a bound. C counts the depth up and refuses a depth above 64; here the first
  argument is the number of levels left, \<open>65 - depth\<close>, so the refused depth is \<open>0\<close>.
\<close>

definition representation_valid :: "u8 \<Rightarrow> u8 \<Rightarrow> u16 \<Rightarrow> u32 \<Rightarrow> bool" where
  "representation_valid kind reserved children bound \<longleftrightarrow>
     reserved = 0 \<and>
     (kind \<ge> 1 \<and> kind \<le> 3 \<and> children = 0 \<and> bound = 0 \<or>
      (kind = 4 \<or> kind = 5) \<and> children = 0 \<and> bound \<ge> 1 \<and> bound \<le> 1048576 \<or>
      kind = 6 \<and> bound = 0 \<or>
      kind = 7 \<and> children = 1 \<and> bound \<ge> 1 \<and> bound \<le> 256 \<or>
      kind = 8 \<and> children \<noteq> 0 \<and> bound = 0)"

fun representation_walk :: "nat \<Rightarrow> bytes \<Rightarrow> nat \<Rightarrow> nat \<Rightarrow> hermas_image_result + nat" where
  "representation_walk 0 bs rend cursor = Inl HERMAS_IMAGE_INVALID_RECORD"
| "representation_walk (Suc left) bs rend cursor =
    (if cursor > rend \<or> rend - cursor < 8 then Inl HERMAS_IMAGE_INVALID_RECORD
     else if \<not> representation_valid (bs ! cursor) (bs ! (cursor + 1))
                 (read_u16 bs (cursor + 2)) (read_u32 bs (cursor + 4))
     then Inl HERMAS_IMAGE_INVALID_RECORD
     else for_each (\<lambda>child c. representation_walk left bs rend c)
            [0..<unat (read_u16 bs (cursor + 2))] (cursor + 8))"

definition validate_representation :: "bytes \<Rightarrow> nat \<Rightarrow> nat \<Rightarrow> nat \<Rightarrow> hermas_image_result + nat" where
  "validate_representation bs rend cursor depth = representation_walk (65 - depth) bs rend cursor"

text \<open>Where child \<open>child_index\<close> of a representation starts and ends.\<close>

definition representation_child :: "bytes \<Rightarrow> nat \<Rightarrow> nat \<Rightarrow> nat \<Rightarrow> (nat \<times> nat) option" where
  "representation_child bs descriptor descriptor_end child_index =
    (let children = unat (read_u16 bs (descriptor + 2)) in
     if child_index \<ge> children then None
     else case for_each (\<lambda>index start.
                 case validate_representation bs descriptor_end start 1 of
                   Inl _ \<Rightarrow> Inl None
                 | Inr cursor \<Rightarrow>
                     if index = child_index then Inl (Some (start, cursor)) else Inr cursor)
               [0..<children] (descriptor + 8) of
            Inl found \<Rightarrow> found
          | Inr _ \<Rightarrow> None)"

section \<open>Values\<close>

definition payload_u32 :: "bytes \<Rightarrow> nat \<Rightarrow> nat \<Rightarrow> u32 option" where
  "payload_u32 payload payload_size offset =
    (if offset > payload_size \<or> payload_size - offset < 4 then None
     else Some (read_u32 payload offset))"

text \<open>The eight-byte head of a string, byte string, list or variant: a number and four zero bytes.\<close>

definition value_head :: "bytes \<Rightarrow> nat \<Rightarrow> nat \<Rightarrow> u32 option" where
  "value_head payload payload_size cursor =
    (case payload_u32 payload payload_size cursor of
       None \<Rightarrow> None
     | Some v \<Rightarrow>
         (case payload_u32 payload payload_size (cursor + 4) of
            None \<Rightarrow> None
          | Some reserved \<Rightarrow> if reserved \<noteq> 0 then None else Some v))"

text \<open>
  The state of the walk is the cursor into the image's representation and the cursor into the
  payload. Every failure of \<open>validate_value_inner\<close> is \<open>HERMAS_IMAGE_INVALID_VALUE\<close>.
\<close>

fun value_walk ::
  "nat \<Rightarrow> bytes \<Rightarrow> nat \<Rightarrow> bytes \<Rightarrow> nat \<Rightarrow> nat \<times> nat \<Rightarrow> hermas_image_result + nat \<times> nat" where
  "value_walk 0 img rend payload payload_size cursors = Inl HERMAS_IMAGE_INVALID_VALUE"
| "value_walk (Suc left) img rend payload payload_size (representation, cursor) =
    (if representation > rend \<or> rend - representation < 8 then Inl HERMAS_IMAGE_INVALID_VALUE
     else
       let kind = img ! representation;
           children = unat (read_u16 img (representation + 2));
           bound = read_u32 img (representation + 4);
           child_start = representation + 8
       in if kind = 1 then Inr (child_start, cursor)
          else if kind = 2 then
            (if cursor > payload_size \<or> payload_size - cursor < 8
             then Inl HERMAS_IMAGE_INVALID_VALUE
             else Inr (child_start, cursor + 8))
          else if kind = 3 then
            (if cursor \<ge> payload_size \<or> payload ! cursor > 1
             then Inl HERMAS_IMAGE_INVALID_VALUE
             else Inr (child_start, cursor + 1))
          else if kind = 4 \<or> kind = 5 then
            (case value_head payload payload_size cursor of
               None \<Rightarrow> Inl HERMAS_IMAGE_INVALID_VALUE
             | Some len \<Rightarrow>
                 if len > bound \<or> cursor > payload_size - 8 \<or>
                    unat len > payload_size - (cursor + 8)
                 then Inl HERMAS_IMAGE_INVALID_VALUE
                 else
                   let data = chunk payload (cursor + 8) (unat len) in
                   if kind = 4 \<and> (\<not> valid_utf8 data \<or> 0 \<in> set data)
                   then Inl HERMAS_IMAGE_INVALID_VALUE
                   else Inr (child_start, cursor + (8 + unat len)))
          else if kind = 6 then
            for_each (\<lambda>child cursors. value_walk left img rend payload payload_size cursors)
              [0..<children] (child_start, cursor)
          else if kind = 7 then
            (case value_head payload payload_size cursor of
               None \<Rightarrow> Inl HERMAS_IMAGE_INVALID_VALUE
             | Some count \<Rightarrow>
                 if count > bound then Inl HERMAS_IMAGE_INVALID_VALUE
                 else case representation_walk left img rend child_start of
                     Inl _ \<Rightarrow> Inl HERMAS_IMAGE_INVALID_VALUE
                   | Inr child_end \<Rightarrow>
                       (case for_each (\<lambda>item item_cursor.
                               case value_walk left img rend payload payload_size
                                      (child_start, item_cursor) of
                                 Inl _ \<Rightarrow> Inl HERMAS_IMAGE_INVALID_VALUE
                               | Inr (child_cursor, item_cursor') \<Rightarrow>
                                   if child_cursor \<noteq> child_end then Inl HERMAS_IMAGE_INVALID_VALUE
                                   else Inr item_cursor')
                             [0..<unat count] (cursor + 8) of
                          Inl e \<Rightarrow> Inl e
                        | Inr cursor' \<Rightarrow> Inr (child_end, cursor')))
          else if kind = 8 then
            (case value_head payload payload_size cursor of
               None \<Rightarrow> Inl HERMAS_IMAGE_INVALID_VALUE
             | Some tag \<Rightarrow>
                 if unat tag \<ge> children then Inl HERMAS_IMAGE_INVALID_VALUE
                 else for_each (\<lambda>child (child_cursor, value_cursor).
                        if child = unat tag
                        then value_walk left img rend payload payload_size
                               (child_cursor, value_cursor)
                        else case representation_walk left img rend child_cursor of
                            Inl _ \<Rightarrow> Inl HERMAS_IMAGE_INVALID_VALUE
                          | Inr child_cursor' \<Rightarrow> Inr (child_cursor', value_cursor))
                      [0..<children] (child_start, cursor + 8))
          else Inl HERMAS_IMAGE_INVALID_VALUE)"

definition validate_value_inner ::
  "bytes \<Rightarrow> nat \<Rightarrow> nat \<Rightarrow> bytes \<Rightarrow> nat \<Rightarrow> nat \<Rightarrow> nat \<Rightarrow> hermas_image_result + nat \<times> nat" where
  "validate_value_inner img rend representation_cursor payload payload_size payload_cursor depth =
     value_walk (65 - depth) img rend payload payload_size (representation_cursor, payload_cursor)"

end
