(* ===== verification/Hermas_Image_Types.thy ===== *)
theory Hermas_Image_Types
  imports Hermas_Image
begin

text \<open>
  What a type representation and a payload mean: the types and values of the graph language, their
  byte forms, and the theorem that the checks of image.c accept exactly those forms.
\<close>

section \<open>Types and values\<close>

datatype ty =
    TUnit
  | TInteger
  | TBoolean
  | TString nat
  | TBytes nat
  | TRecord "ty list"
  | TList nat ty
  | TVariant "ty list"

datatype val =
    VUnit
  | VInteger u64
  | VBoolean bool
  | VString bytes
  | VBytes bytes
  | VRecord "val list"
  | VList "val list"
  | VVariant nat val

text \<open>The types a representation can spell, and the depth of their representation.\<close>

fun ty_ok :: "ty \<Rightarrow> bool" where
  "ty_ok TUnit = True"
| "ty_ok TInteger = True"
| "ty_ok TBoolean = True"
| "ty_ok (TString n) = (1 \<le> n \<and> n \<le> 1048576)"
| "ty_ok (TBytes n) = (1 \<le> n \<and> n \<le> 1048576)"
| "ty_ok (TRecord ts) = (length ts < 65536 \<and> list_all ty_ok ts)"
| "ty_ok (TList n t) = (1 \<le> n \<and> n \<le> 256 \<and> ty_ok t)"
| "ty_ok (TVariant ts) = (ts \<noteq> [] \<and> length ts < 65536 \<and> list_all ty_ok ts)"

fun ty_depth :: "ty \<Rightarrow> nat" where
  "ty_depth (TRecord ts) = Suc (foldr max (map ty_depth ts) 0)"
| "ty_depth (TList n t) = Suc (ty_depth t)"
| "ty_depth (TVariant ts) = Suc (foldr max (map ty_depth ts) 0)"
| "ty_depth _ = 1"

definition type_head :: "u8 \<Rightarrow> nat \<Rightarrow> nat \<Rightarrow> bytes" where
  "type_head kind children bound =
     [kind, 0] @ le_bytes 2 (of_nat children :: u16) @ le_bytes 4 (of_nat bound :: u32)"

fun ty_bytes :: "ty \<Rightarrow> bytes" where
  "ty_bytes TUnit = type_head 1 0 0"
| "ty_bytes TInteger = type_head 2 0 0"
| "ty_bytes TBoolean = type_head 3 0 0"
| "ty_bytes (TString n) = type_head 4 0 n"
| "ty_bytes (TBytes n) = type_head 5 0 n"
| "ty_bytes (TRecord ts) = type_head 6 (length ts) 0 @ concat (map ty_bytes ts)"
| "ty_bytes (TList n t) = type_head 7 1 n @ ty_bytes t"
| "ty_bytes (TVariant ts) = type_head 8 (length ts) 0 @ concat (map ty_bytes ts)"

fun has_type :: "ty \<Rightarrow> val \<Rightarrow> bool" where
  "has_type TUnit VUnit = True"
| "has_type TInteger (VInteger _) = True"
| "has_type TBoolean (VBoolean _) = True"
| "has_type (TString n) (VString bs) = (length bs \<le> n \<and> valid_utf8 bs \<and> 0 \<notin> set bs)"
| "has_type (TBytes n) (VBytes bs) = (length bs \<le> n)"
| "has_type (TRecord ts) (VRecord vs) = list_all2 has_type ts vs"
| "has_type (TList n t) (VList vs) = (length vs \<le> n \<and> list_all (has_type t) vs)"
| "has_type (TVariant ts) (VVariant k v) = (k < length ts \<and> has_type (ts ! k) v)"
| "has_type _ _ = False"

definition value_header :: "nat \<Rightarrow> bytes" where
  "value_header n = le_bytes 4 (of_nat n :: u32) @ [0, 0, 0, 0]"

fun val_bytes :: "val \<Rightarrow> bytes" where
  "val_bytes VUnit = []"
| "val_bytes (VInteger w) = le_bytes 8 w"
| "val_bytes (VBoolean b) = [if b then 1 else 0]"
| "val_bytes (VString bs) = value_header (length bs) @ bs"
| "val_bytes (VBytes bs) = value_header (length bs) @ bs"
| "val_bytes (VRecord vs) = concat (map val_bytes vs)"
| "val_bytes (VList vs) = value_header (length vs) @ concat (map val_bytes vs)"
| "val_bytes (VVariant k v) = value_header k @ val_bytes v"

section \<open>Bytes at an offset\<close>

definition holds_at :: "bytes \<Rightarrow> nat \<Rightarrow> bytes \<Rightarrow> bool" where
  "holds_at bs off xs \<longleftrightarrow> chunk bs off (length xs) = xs"

lemma holds_at_length:
  assumes "holds_at bs off xs" and "xs \<noteq> []"
  shows "off + length xs \<le> length bs"
proof -
  have "length xs \<le> length bs - off"
    using assms(1) by (metis holds_at_def length_chunk min.cobounded2)
  moreover have "0 < length xs" using assms(2) by simp
  ultimately show ?thesis by arith
qed

lemma holds_at_nil [simp]: "holds_at bs off []"
  by (simp add: holds_at_def del: length_chunk)

lemma holds_at_append:
  "holds_at bs off (xs @ ys) \<longleftrightarrow> holds_at bs off xs \<and> holds_at bs (off + length xs) ys"
proof
  assume h: "holds_at bs off (xs @ ys)"
  then have e: "chunk bs off (length xs) @ chunk bs (off + length xs) (length ys) = xs @ ys"
    by (simp add: holds_at_def chunk_split)
  have "length (chunk bs off (length xs)) = length xs"
  proof (cases "xs = []")
    case False
    then show ?thesis using holds_at_length [OF h] by simp
  qed simp
  with e show "holds_at bs off xs \<and> holds_at bs (off + length xs) ys"
    by (auto simp: holds_at_def)
qed (simp add: holds_at_def chunk_split)

lemma holds_at_Cons: "holds_at bs off (x # xs) \<longleftrightarrow> off < length bs \<and> bs ! off = x \<and> holds_at bs (Suc off) xs"
proof -
  have "holds_at bs off (x # xs) \<longleftrightarrow> holds_at bs off [x] \<and> holds_at bs (Suc off) xs"
    using holds_at_append [of bs off "[x]" xs] by simp
  moreover have "holds_at bs off [x] \<longleftrightarrow> off < length bs \<and> bs ! off = x"
  proof (cases "off < length bs")
    case True
    then show ?thesis by (simp add: holds_at_def chunk_Cons)
  next
    case False
    then show ?thesis by (simp add: holds_at_def chunk_def)
  qed
  ultimately show ?thesis by simp
qed

lemma holds_at_le_bytes:
  "holds_at bs off (le_bytes 2 v) \<longleftrightarrow> off + 2 \<le> length bs \<and> read_u16 bs off = v"
  "holds_at bs off (le_bytes 4 w) \<longleftrightarrow> off + 4 \<le> length bs \<and> read_u32 bs off = w"
  "holds_at bs off (le_bytes 8 x) \<longleftrightarrow> off + 8 \<le> length bs \<and> read_u64 bs off = x"
proof -
  have ne: "le_bytes 2 v \<noteq> []" "le_bytes 4 w \<noteq> []" "le_bytes 8 x \<noteq> []"
    by (simp_all add: le_bytes_def)
  show "holds_at bs off (le_bytes 2 v) \<longleftrightarrow> off + 2 \<le> length bs \<and> read_u16 bs off = v"
    using holds_at_length [OF _ ne(1), of bs off] le_bytes_read_u16 [of off bs]
    by (auto simp: holds_at_def read_u16_chunk)
  show "holds_at bs off (le_bytes 4 w) \<longleftrightarrow> off + 4 \<le> length bs \<and> read_u32 bs off = w"
    using holds_at_length [OF _ ne(2), of bs off] le_bytes_read_u32 [of off bs]
    by (auto simp: holds_at_def read_u32_chunk)
  show "holds_at bs off (le_bytes 8 x) \<longleftrightarrow> off + 8 \<le> length bs \<and> read_u64 bs off = x"
    using holds_at_length [OF _ ne(3), of bs off] le_bytes_read_u64 [of off bs]
    by (auto simp: holds_at_def read_u64_chunk)
qed

lemma length_type_head [simp]: "length (type_head k n b) = 8"
  by (simp add: type_head_def)

lemma length_value_header [simp]: "length (value_header n) = 8"
  by (simp add: value_header_def)

lemma holds_at_type_head:
  "holds_at bs off (type_head k n b) \<longleftrightarrow>
     off + 8 \<le> length bs \<and> bs ! off = k \<and> bs ! (off + 1) = 0 \<and>
     read_u16 bs (off + 2) = of_nat n \<and> read_u32 bs (off + 4) = of_nat b"
proof -
  have "holds_at bs off (type_head k n b) \<longleftrightarrow>
      holds_at bs off [k, 0] \<and> holds_at bs (off + 2) (le_bytes 2 (of_nat n :: u16)) \<and>
      holds_at bs (off + 4) (le_bytes 4 (of_nat b :: u32))"
    unfolding type_head_def holds_at_append by (simp add: numeral_eq_Suc)
  then show ?thesis by (auto simp: holds_at_Cons holds_at_le_bytes)
qed

lemma holds_at_value_header:
  assumes "n < 2 ^ 32"
  shows "holds_at bs off (value_header n) \<longleftrightarrow>
     off + 8 \<le> length bs \<and> unat (read_u32 bs off) = n \<and> read_u32 bs (off + 4) = 0"
proof -
  have "value_header n = le_bytes 4 (of_nat n :: u32) @ le_bytes 4 (0 :: u32)"
    by (simp add: value_header_def le_bytes_def upt_4)
  then have "holds_at bs off (value_header n) \<longleftrightarrow>
      off + 8 \<le> length bs \<and> read_u32 bs off = of_nat n \<and> read_u32 bs (off + 4) = 0"
    by (auto simp only: holds_at_append holds_at_le_bytes length_le_bytes)
  moreover have "read_u32 bs off = of_nat n \<longleftrightarrow> unat (read_u32 bs off) = n"
    using assms by (simp add: word_unat_eq_iff unat_of_nat)
  ultimately show ?thesis by blast
qed

lemma value_head_Some:
  "psize \<le> length payload \<Longrightarrow> value_head payload psize cursor = Some v \<longleftrightarrow>
     cursor + 8 \<le> psize \<and> holds_at payload cursor (value_header (unat v))"
proof -
  assume p: "psize \<le> length payload"
  have "unat v < 2 ^ 32" using unsigned_less [of v] by simp
  then show ?thesis
    using p by (auto simp: holds_at_value_header value_head_def payload_u32_def word_unat_eq_iff
        split: option.splits if_splits)
qed

section \<open>Representations\<close>

text \<open>A well-formed type spelled at \<open>c\<close>, within \<open>rend\<close> and at most \<open>left\<close> deep.\<close>

definition spelled :: "nat \<Rightarrow> bytes \<Rightarrow> nat \<Rightarrow> nat \<Rightarrow> ty \<Rightarrow> bool" where
  "spelled left bs rend c t \<longleftrightarrow>
     ty_ok t \<and> ty_depth t \<le> left \<and> c + length (ty_bytes t) \<le> rend \<and> holds_at bs c (ty_bytes t)"

fun spelled_list :: "nat \<Rightarrow> bytes \<Rightarrow> nat \<Rightarrow> nat \<Rightarrow> ty list \<Rightarrow> bool" where
  "spelled_list left bs rend c [] = True"
| "spelled_list left bs rend c (t # ts) =
    (spelled left bs rend c t \<and> spelled_list left bs rend (c + length (ty_bytes t)) ts)"

lemma spelled_list_iff:
  "c \<le> rend \<Longrightarrow> spelled_list left bs rend c ts \<longleftrightarrow>
     list_all ty_ok ts \<and> foldr max (map ty_depth ts) 0 \<le> left \<and>
     c + length (concat (map ty_bytes ts)) \<le> rend \<and> holds_at bs c (concat (map ty_bytes ts))"
proof (induction ts arbitrary: c)
  case (Cons t ts)
  show ?case
    using Cons.IH [of "c + length (ty_bytes t)"]
    by (cases "c + length (ty_bytes t) \<le> rend") (auto simp: spelled_def holds_at_append)
qed simp

lemma ex_length_Suc: "(\<exists>xs. length xs = Suc n \<and> P xs) \<longleftrightarrow> (\<exists>x xs. length xs = n \<and> P (x # xs))"
  by (auto simp: length_Suc_conv)

lemma spelled_loop:
  assumes "\<And>c c'. walk c = Inr c' \<longleftrightarrow> (\<exists>t. spelled left bs rend c t \<and> c' = c + length (ty_bytes t))"
  shows "for_each (\<lambda>child. walk) is c = Inr c' \<longleftrightarrow>
    (\<exists>ts. length ts = length is \<and> spelled_list left bs rend c ts \<and>
       c' = c + length (concat (map ty_bytes ts)))"
proof (induction "is" arbitrary: c)
  case Nil
  then show ?case by auto
next
  case (Cons i "is")
  have "for_each (\<lambda>child. walk) (i # is) c = Inr c' \<longleftrightarrow>
      (\<exists>d. walk c = Inr d \<and> for_each (\<lambda>child. walk) is d = Inr c')"
    by (auto split: sum.splits)
  also have "\<dots> \<longleftrightarrow> (\<exists>t ts. spelled left bs rend c t \<and> length ts = length is \<and>
      spelled_list left bs rend (c + length (ty_bytes t)) ts \<and>
      c' = c + length (ty_bytes t) + length (concat (map ty_bytes ts)))"
    using Cons.IH by (auto simp: assms)
  also have "\<dots> \<longleftrightarrow> (\<exists>ts. length ts = Suc (length is) \<and> spelled_list left bs rend c ts \<and>
       c' = c + length (concat (map ty_bytes ts)))"
    unfolding ex_length_Suc by (auto simp: add.assoc)
  finally show ?case by simp
qed

text \<open>A type as the node of a representation: its kind, its children and its bound.\<close>

fun ty_kind :: "ty \<Rightarrow> u8" where
  "ty_kind TUnit = 1" | "ty_kind TInteger = 2" | "ty_kind TBoolean = 3" | "ty_kind (TString _) = 4"
| "ty_kind (TBytes _) = 5" | "ty_kind (TRecord _) = 6" | "ty_kind (TList _ _) = 7"
| "ty_kind (TVariant _) = 8"

fun ty_children :: "ty \<Rightarrow> ty list" where
  "ty_children (TRecord ts) = ts"
| "ty_children (TList _ t) = [t]"
| "ty_children (TVariant ts) = ts"
| "ty_children _ = []"

fun ty_bound :: "ty \<Rightarrow> nat" where
  "ty_bound (TString n) = n"
| "ty_bound (TBytes n) = n"
| "ty_bound (TList n _) = n"
| "ty_bound _ = 0"

lemma ty_bytes_node:
  "ty_bytes t = type_head (ty_kind t) (length (ty_children t)) (ty_bound t) @
     concat (map ty_bytes (ty_children t))"
  by (cases t) simp_all

lemma ty_depth_node: "ty_depth t = Suc (foldr max (map ty_depth (ty_children t)) 0)"
  by (cases t) simp_all

lemma unat_small_words:
  "n < 65536 \<Longrightarrow> unat (of_nat n :: u16) = n" "b < 4294967296 \<Longrightarrow> unat (of_nat b :: u32) = b"
  unfolding unat_of_nat by simp_all

lemma ty_ok_node:
  "ty_ok t \<longleftrightarrow> representation_valid (ty_kind t) 0 (of_nat (length (ty_children t))) (of_nat (ty_bound t)) \<and>
     length (ty_children t) < 65536 \<and> ty_bound t < 4294967296 \<and> list_all ty_ok (ty_children t)"
proof -
  have nz: "(of_nat n :: u16) = 0 \<longleftrightarrow> n = 0" if "n < 65536" for n
    using unat_small_words(1) [OF that] by (simp add: unat_eq_zero [symmetric])
  show ?thesis
    by (cases t) (auto simp: representation_valid_def nz word_le_nat_alt unat_small_words)
qed

lemma node_is_ty:
  assumes "representation_valid kind reserved children bound" and "length ts = unat children"
  shows "\<exists>t. ty_kind t = kind \<and> ty_children t = ts \<and> ty_bound t = unat bound"
proof -
  have leaf: "ts = []" if "children = 0" using that assms(2) by simp
  have one: "\<exists>t. ts = [t]" if "children = 1" using that assms(2) by (simp add: length_Suc_conv)
  have three: "kind = 1 \<or> kind = 2 \<or> kind = 3" if "1 \<le> kind" "kind \<le> 3"
  proof -
    have "unat kind = 1 \<or> unat kind = 2 \<or> unat kind = 3" using that by (auto simp: word_le_nat_alt)
    then show ?thesis by (auto simp: word_unat_eq_iff)
  qed
  from assms(1) consider
      "kind = 1" "children = 0" "bound = 0" | "kind = 2" "children = 0" "bound = 0"
    | "kind = 3" "children = 0" "bound = 0" | "kind = 4" "children = 0" | "kind = 5" "children = 0"
    | "kind = 6" "bound = 0" | "kind = 7" "children = 1" | "kind = 8" "bound = 0"
    using three by (auto simp: representation_valid_def)
  then show ?thesis
  proof cases
    case 1 then show ?thesis using leaf by (intro exI [of _ TUnit]) simp
  next
    case 2 then show ?thesis using leaf by (intro exI [of _ TInteger]) simp
  next
    case 3 then show ?thesis using leaf by (intro exI [of _ TBoolean]) simp
  next
    case 4 then show ?thesis using leaf by (intro exI [of _ "TString (unat bound)"]) simp
  next
    case 5 then show ?thesis using leaf by (intro exI [of _ "TBytes (unat bound)"]) simp
  next
    case 6 then show ?thesis by (intro exI [of _ "TRecord ts"]) simp
  next
    case 7
    then obtain t where "ts = [t]" using one by blast
    with 7 show ?thesis by (intro exI [of _ "TList (unat bound) t"]) simp
  next
    case 8 then show ?thesis by (intro exI [of _ "TVariant ts"]) simp
  qed
qed

text \<open>The representation check accepts exactly the spellings of types, and moves past them.\<close>

lemma representation_walk_iff:
  assumes "rend \<le> length bs"
  shows "representation_walk left bs rend c = Inr c' \<longleftrightarrow>
    (\<exists>t. spelled left bs rend c t \<and> c' = c + length (ty_bytes t))"
proof (induction left arbitrary: c c')
  case 0
  then show ?case by (auto simp: spelled_def ty_depth_node)
next
  case (Suc left)
  let ?n = "unat (read_u16 bs (c + 2))" and ?b = "unat (read_u32 bs (c + 4))"
  note loop = spelled_loop [of "representation_walk left bs rend", OF Suc.IH]
  have bounds: "?n < 65536" "?b < 4294967296"
    using unsigned_less [of "read_u16 bs (c + 2)"] unsigned_less [of "read_u32 bs (c + 4)"] by simp_all
  show ?case
  proof
    assume "representation_walk (Suc left) bs rend c = Inr c'"
    then have c: "c + 8 \<le> rend" and valid: "representation_valid (bs ! c) (bs ! (c + 1))
        (read_u16 bs (c + 2)) (read_u32 bs (c + 4))"
      and "for_each (\<lambda>child. representation_walk left bs rend) [0..<?n] (c + 8) = Inr c'"
      by (auto split: if_splits)
    then obtain ts where ts: "length ts = ?n" "spelled_list left bs rend (c + 8) ts"
      "c' = c + 8 + length (concat (map ty_bytes ts))" unfolding loop by auto
    obtain t where t: "ty_kind t = bs ! c" "ty_children t = ts" "ty_bound t = ?b"
      using node_is_ty [OF valid ts(1)] by blast
    have "bs ! (c + 1) = 0" using valid by (simp add: representation_valid_def)
    then have "spelled (Suc left) bs rend c t"
      using valid bounds t ts(1,2) c assms
      by (simp add: spelled_def ty_ok_node [of t] ty_depth_node [of t] ty_bytes_node [of t]
          holds_at_append holds_at_type_head spelled_list_iff)
    moreover have "c' = c + length (ty_bytes t)" using t ts(3) by (simp add: ty_bytes_node [of t])
    ultimately show "\<exists>t. spelled (Suc left) bs rend c t \<and> c' = c + length (ty_bytes t)" by blast
  next
    assume "\<exists>t. spelled (Suc left) bs rend c t \<and> c' = c + length (ty_bytes t)"
    then obtain t where t: "spelled (Suc left) bs rend c t" "c' = c + length (ty_bytes t)" by blast
    let ?ts = "ty_children t"
    have c: "c + 8 \<le> rend" and rec: "bs ! c = ty_kind t" "bs ! (c + 1) = 0"
      "read_u16 bs (c + 2) = of_nat (length ?ts)" "read_u32 bs (c + 4) = of_nat (ty_bound t)"
      and ok: "ty_ok t"
      using t(1) by (auto simp: spelled_def ty_bytes_node [of t] holds_at_append holds_at_type_head)
    have "spelled_list left bs rend (c + 8) ?ts"
      using t(1) c by (simp add: spelled_def ty_ok_node [of t] ty_depth_node [of t] ty_bytes_node [of t]
          holds_at_append spelled_list_iff)
    moreover have "?n = length ?ts" using rec(3) ok by (simp add: ty_ok_node [of t] unat_small_words)
    ultimately have "for_each (\<lambda>child. representation_walk left bs rend) [0..<?n] (c + 8) = Inr c'"
      unfolding loop using t(2) by (auto simp: ty_bytes_node [of t])
    then show "representation_walk (Suc left) bs rend c = Inr c'"
      using c rec ok by (simp add: ty_ok_node [of t])
  qed
qed

lemma spelled_node:
  assumes "spelled left bs rend c t"
  obtains left' where "left = Suc left'" and "c + 8 \<le> rend" and "bs ! c = ty_kind t"
    and "unat (read_u16 bs (c + 2)) = length (ty_children t)"
    and "unat (read_u32 bs (c + 4)) = ty_bound t"
    and "spelled_list left' bs rend (c + 8) (ty_children t)"
proof -
  obtain left' where left: "left = Suc left'"
    using assms by (cases left) (auto simp: spelled_def ty_depth_node)
  have "holds_at bs c (type_head (ty_kind t) (length (ty_children t)) (ty_bound t))" "c + 8 \<le> rend"
    "ty_ok t"
    using assms by (auto simp: spelled_def ty_bytes_node [of t] holds_at_append)
  moreover have "spelled_list left' bs rend (c + 8) (ty_children t)"
    using assms left by (simp add: spelled_def ty_ok_node [of t] ty_depth_node [of t] ty_bytes_node [of t]
        holds_at_append spelled_list_iff)
  ultimately show thesis
    using that [OF left] by (simp add: holds_at_type_head ty_ok_node [of t] unat_small_words)
qed

section \<open>Payloads\<close>

text \<open>The payload spells the value \<open>v\<close> of type \<open>t\<close> from \<open>c\<close> up to \<open>c'\<close>.\<close>

definition spells_value :: "bytes \<Rightarrow> nat \<Rightarrow> nat \<Rightarrow> nat \<Rightarrow> ty \<Rightarrow> val \<Rightarrow> bool" where
  "spells_value payload psize c c' t v \<longleftrightarrow>
     has_type t v \<and> c' = c + length (val_bytes v) \<and> c' \<le> psize \<and> holds_at payload c (val_bytes v)"

definition spells_values :: "bytes \<Rightarrow> nat \<Rightarrow> nat \<Rightarrow> nat \<Rightarrow> ty list \<Rightarrow> val list \<Rightarrow> bool" where
  "spells_values payload psize c c' ts vs \<longleftrightarrow>
     list_all2 has_type ts vs \<and> c' = c + length (concat (map val_bytes vs)) \<and> c' \<le> psize \<and>
     holds_at payload c (concat (map val_bytes vs))"

lemma spells_values_nil:
  "c \<le> psize \<Longrightarrow> (\<exists>vs. spells_values payload psize c c' [] vs) \<longleftrightarrow> c' = c"
  by (auto simp: spells_values_def)

lemma spells_values_Cons:
  "(\<exists>vs. spells_values payload psize c c' (t # ts) vs) \<longleftrightarrow>
     (\<exists>d v vs. spells_value payload psize c d t v \<and> spells_values payload psize d c' ts vs)"
  (is "?l \<longleftrightarrow> ?r")
proof
  assume ?l
  then obtain v vs where "spells_values payload psize c c' (t # ts) (v # vs)"
    by (auto simp: spells_values_def list_all2_Cons1)
  then have "spells_value payload psize c (c + length (val_bytes v)) t v \<and>
      spells_values payload psize (c + length (val_bytes v)) c' ts vs"
    by (auto simp: spells_values_def spells_value_def holds_at_append)
  then show ?r by blast
next
  assume ?r
  then obtain d v vs where "spells_value payload psize c d t v" "spells_values payload psize d c' ts vs" by blast
  then have "spells_values payload psize c c' (t # ts) (v # vs)"
    by (auto simp: spells_values_def spells_value_def holds_at_append)
  then show ?l by blast
qed

lemma spells_value_le: "spells_value payload psize c d t v \<Longrightarrow> d \<le> psize"
  by (simp add: spells_value_def)

text \<open>The walk is right for the type \<open>t\<close>; the loops of the walk are right if it is for their types.\<close>

definition walk_right :: "nat \<Rightarrow> bytes \<Rightarrow> nat \<Rightarrow> bytes \<Rightarrow> nat \<Rightarrow> ty \<Rightarrow> bool" where
  "walk_right left img rend payload psize t \<longleftrightarrow>
    (\<forall>c p c' p'. spelled left img rend c t \<longrightarrow> p \<le> psize \<longrightarrow>
       value_walk left img rend payload psize (c, p) = Inr (c', p') \<longleftrightarrow>
         c' = c + length (ty_bytes t) \<and> (\<exists>v. spells_value payload psize p p' t v))"

lemma walk_rightD:
  "walk_right left img rend payload psize t \<Longrightarrow> spelled left img rend c t \<Longrightarrow> p \<le> psize \<Longrightarrow>
   value_walk left img rend payload psize (c, p) = Inr (c', p') \<longleftrightarrow>
     c' = c + length (ty_bytes t) \<and> (\<exists>v. spells_value payload psize p p' t v)"
  by (simp add: walk_right_def)

lemma record_loop:
  assumes "\<forall>t \<in> set ts. walk_right left img rend payload psize t"
    and "spelled_list left img rend c ts" and "p \<le> psize" and "length is = length ts"
  shows "for_each (\<lambda>child. value_walk left img rend payload psize) is (c, p) = Inr (c', p') \<longleftrightarrow>
    c' = c + length (concat (map ty_bytes ts)) \<and> (\<exists>vs. spells_values payload psize p p' ts vs)"
  using assms
proof (induction ts arbitrary: c p "is")
  case Nil
  then show ?case by (auto simp: spells_values_nil)
next
  case (Cons t ts)
  obtain i js where js: "is = i # js" "length js = length ts"
    using Cons.prems(4) by (auto simp: length_Suc_conv)
  have walk: "value_walk left img rend payload psize (c, p) = Inr (d, q) \<longleftrightarrow>
      d = c + length (ty_bytes t) \<and> (\<exists>v. spells_value payload psize p q t v)" for d q
    using Cons.prems by (intro walk_rightD) auto
  have rest: "for_each (\<lambda>child. value_walk left img rend payload psize) js (c + length (ty_bytes t), q) =
        Inr (c', p') \<longleftrightarrow> c' = c + length (ty_bytes t) + length (concat (map ty_bytes ts)) \<and>
        (\<exists>vs. spells_values payload psize q p' ts vs)" if "q \<le> psize" for q
    using Cons.prems that js(2) by (intro Cons.IH) auto
  have "for_each (\<lambda>child. value_walk left img rend payload psize) is (c, p) = Inr (c', p') \<longleftrightarrow>
      (\<exists>d q. value_walk left img rend payload psize (c, p) = Inr (d, q) \<and>
         for_each (\<lambda>child. value_walk left img rend payload psize) js (d, q) = Inr (c', p'))"
    using js(1) by (auto split: sum.splits)
  also have "\<dots> \<longleftrightarrow> (\<exists>q. (\<exists>v. spells_value payload psize p q t v) \<and>
         for_each (\<lambda>child. value_walk left img rend payload psize) js (c + length (ty_bytes t), q) = Inr (c', p'))"
    unfolding walk by blast
  also have "\<dots> \<longleftrightarrow> (\<exists>q. (\<exists>v. spells_value payload psize p q t v) \<and>
         c' = c + length (ty_bytes t) + length (concat (map ty_bytes ts)) \<and>
         (\<exists>vs. spells_values payload psize q p' ts vs))"
    using rest spells_value_le by (metis (lifting))
  also have "\<dots> \<longleftrightarrow> c' = c + length (concat (map ty_bytes (t # ts))) \<and>
      (\<exists>vs. spells_values payload psize p p' (t # ts) vs)"
    unfolding spells_values_Cons by (auto simp: add.assoc)
  finally show ?case .
qed

definition list_item ::
  "nat \<Rightarrow> bytes \<Rightarrow> nat \<Rightarrow> bytes \<Rightarrow> nat \<Rightarrow> nat \<Rightarrow> nat \<Rightarrow> nat \<Rightarrow> hermas_image_result + nat" where
  "list_item left img rend payload psize child_start child_end item_cursor =
    (case value_walk left img rend payload psize (child_start, item_cursor) of
       Inl _ \<Rightarrow> Inl HERMAS_IMAGE_INVALID_VALUE
     | Inr (child_cursor, item_cursor') \<Rightarrow>
         if child_cursor \<noteq> child_end then Inl HERMAS_IMAGE_INVALID_VALUE else Inr item_cursor')"

lemma list_loop:
  assumes "walk_right left img rend payload psize t" and "spelled left img rend c t" and "p \<le> psize"
  shows "for_each (\<lambda>item. list_item left img rend payload psize c (c + length (ty_bytes t))) is p = Inr p' \<longleftrightarrow>
    (\<exists>vs. spells_values payload psize p p' (replicate (length is) t) vs)"
  using assms(3)
proof (induction "is" arbitrary: p)
  case Nil
  then show ?case by (auto simp: spells_values_nil)
next
  case (Cons i "is")
  let ?body = "list_item left img rend payload psize c (c + length (ty_bytes t))"
  have item: "?body p = Inr q \<longleftrightarrow> (\<exists>v. spells_value payload psize p q t v)" for q
  proof -
    have "?body p = Inr q \<longleftrightarrow> value_walk left img rend payload psize (c, p) = Inr (c + length (ty_bytes t), q)"
      by (auto simp: list_item_def split: sum.splits)
    then show ?thesis using walk_rightD [OF assms(1,2) Cons.prems] by simp
  qed
  have "for_each (\<lambda>item. ?body) (i # is) p = Inr p' \<longleftrightarrow>
      (\<exists>q. ?body p = Inr q \<and> for_each (\<lambda>item. ?body) is q = Inr p')"
    by (auto split: sum.splits)
  also have "\<dots> \<longleftrightarrow> (\<exists>q. (\<exists>v. spells_value payload psize p q t v) \<and>
      (\<exists>vs. spells_values payload psize q p' (replicate (length is) t) vs))"
    unfolding item using Cons.IH spells_value_le by (metis (lifting))
  also have "\<dots> \<longleftrightarrow> (\<exists>vs. spells_values payload psize p p' (replicate (length (i # is)) t) vs)"
    by (auto simp: spells_values_Cons)
  finally show ?case .
qed

definition variant_child ::
  "nat \<Rightarrow> bytes \<Rightarrow> nat \<Rightarrow> bytes \<Rightarrow> nat \<Rightarrow> nat \<Rightarrow> nat \<Rightarrow> nat \<times> nat \<Rightarrow> hermas_image_result + nat \<times> nat" where
  "variant_child left img rend payload psize tag child =
    (\<lambda>(child_cursor, value_cursor).
       if child = tag
       then value_walk left img rend payload psize (child_cursor, value_cursor)
       else case representation_walk left img rend child_cursor of
           Inl _ \<Rightarrow> Inl HERMAS_IMAGE_INVALID_VALUE
         | Inr child_cursor' \<Rightarrow> Inr (child_cursor', value_cursor))"

lemma variant_loop:
  assumes "rend \<le> length img" and "\<forall>t \<in> set ts. walk_right left img rend payload psize t"
    and "spelled_list left img rend c ts" and "p \<le> psize"
  shows "for_each (variant_child left img rend payload psize tag) [i..<i + length ts] (c, p) = Inr (c', p') \<longleftrightarrow>
    c' = c + length (concat (map ty_bytes ts)) \<and>
    (if i \<le> tag \<and> tag < i + length ts then \<exists>v. spells_value payload psize p p' (ts ! (tag - i)) v
     else p' = p)"
  using assms(2-4)
proof (induction ts arbitrary: c p i)
  case Nil
  then show ?case by auto
next
  case (Cons t ts)
  let ?loop = "for_each (variant_child left img rend payload psize tag)"
  let ?c = "c + length (ty_bytes t)"
  have sp: "spelled left img rend c t" and right: "walk_right left img rend payload psize t"
    using Cons.prems by simp_all
  have upt: "[i..<i + length (t # ts)] = i # [Suc i..<Suc i + length ts]"
  proof -
    have eq: "i + length (t # ts) = Suc i + length ts" by simp
    show ?thesis unfolding eq by (rule upt_conv_Cons) simp
  qed
  have rest: "?loop [Suc i..<Suc i + length ts] (?c, q) = Inr (c', p') \<longleftrightarrow>
      c' = ?c + length (concat (map ty_bytes ts)) \<and>
      (if Suc i \<le> tag \<and> tag < Suc i + length ts
       then \<exists>v. spells_value payload psize q p' (ts ! (tag - Suc i)) v else p' = q)" if "q \<le> psize" for q
    using Cons.prems that by (intro Cons.IH) auto
  show ?case
  proof (cases "i = tag")
    case True
    have skip: "?loop [Suc i..<Suc i + length ts] (?c, q) = Inr (c', p') \<longleftrightarrow>
        c' = ?c + length (concat (map ty_bytes ts)) \<and> p' = q" if "q \<le> psize" for q
      using rest [OF that] True by auto
    have "?loop (i # [Suc i..<Suc i + length ts]) (c, p) = Inr (c', p') \<longleftrightarrow>
        (\<exists>d q. value_walk left img rend payload psize (c, p) = Inr (d, q) \<and>
           ?loop [Suc i..<Suc i + length ts] (d, q) = Inr (c', p'))"
      using True by (auto simp: variant_child_def split: sum.splits)
    also have "\<dots> \<longleftrightarrow> (\<exists>q. (\<exists>v. spells_value payload psize p q t v) \<and>
           ?loop [Suc i..<Suc i + length ts] (?c, q) = Inr (c', p'))"
      unfolding walk_rightD [OF right sp Cons.prems(3)] by blast
    also have "\<dots> \<longleftrightarrow> (\<exists>q. (\<exists>v. spells_value payload psize p q t v) \<and>
           c' = ?c + length (concat (map ty_bytes ts)) \<and> p' = q)"
      using skip spells_value_le by (metis (lifting))
    finally show ?thesis unfolding upt using True by (auto simp: add.assoc)
  next
    case False
    have "representation_walk left img rend c = Inr ?c"
      using sp representation_walk_iff [OF assms(1)] by blast
    then have "?loop (i # [Suc i..<Suc i + length ts]) (c, p) = ?loop [Suc i..<Suc i + length ts] (?c, p)"
      using False by (simp add: variant_child_def)
    then show ?thesis
      unfolding upt using rest [OF Cons.prems(3)] False
      by (auto simp: add.assoc nth_Cons' Suc_le_eq)
  qed
qed

text \<open>The main case analysis: one node of the walk.\<close>

lemma spells_value_record:
  "(\<exists>v. spells_value payload psize p p' (TRecord ts) v) \<longleftrightarrow> (\<exists>vs. spells_values payload psize p p' ts vs)"
proof
  assume "\<exists>v. spells_value payload psize p p' (TRecord ts) v"
  then obtain v where v: "spells_value payload psize p p' (TRecord ts) v" by blast
  then obtain vs where "v = VRecord vs" by (cases v) (auto simp: spells_value_def)
  with v show "\<exists>vs. spells_values payload psize p p' ts vs"
    by (auto simp: spells_value_def spells_values_def)
next
  assume "\<exists>vs. spells_values payload psize p p' ts vs"
  then obtain vs where "spells_values payload psize p p' ts vs" by blast
  then have "spells_value payload psize p p' (TRecord ts) (VRecord vs)"
    by (simp add: spells_value_def spells_values_def)
  then show "\<exists>v. spells_value payload psize p p' (TRecord ts) v" by blast
qed

lemma list_all2_replicate: "list_all2 P (replicate n t) vs \<longleftrightarrow> length vs = n \<and> list_all (P t) vs"
  by (auto simp: list_all2_conv_all_nth list_all_length)

lemma spells_value_list:
  assumes "n \<le> 256"
  shows "(\<exists>v. spells_value payload psize p p' (TList n t) v) \<longleftrightarrow>
    (\<exists>k vs. k \<le> n \<and> p + 8 \<le> psize \<and> holds_at payload p (value_header k) \<and>
       spells_values payload psize (p + 8) p' (replicate k t) vs)"
proof
  assume "\<exists>v. spells_value payload psize p p' (TList n t) v"
  then obtain v where v: "spells_value payload psize p p' (TList n t) v" by blast
  then obtain vs where "v = VList vs" by (cases v) (auto simp: spells_value_def)
  with v have "length vs \<le> n \<and> p + 8 \<le> psize \<and> holds_at payload p (value_header (length vs)) \<and>
       spells_values payload psize (p + 8) p' (replicate (length vs) t) vs"
    by (auto simp: spells_value_def spells_values_def holds_at_append list_all2_replicate)
  then show "\<exists>k vs. k \<le> n \<and> p + 8 \<le> psize \<and> holds_at payload p (value_header k) \<and>
       spells_values payload psize (p + 8) p' (replicate k t) vs" by blast
next
  assume "\<exists>k vs. k \<le> n \<and> p + 8 \<le> psize \<and> holds_at payload p (value_header k) \<and>
       spells_values payload psize (p + 8) p' (replicate k t) vs"
  then obtain vs where "length vs \<le> n" "holds_at payload p (value_header (length vs))"
      "spells_values payload psize (p + 8) p' (replicate (length vs) t) vs"
    by (auto simp: spells_values_def list_all2_replicate)
  then have "spells_value payload psize p p' (TList n t) (VList vs)"
    by (simp add: spells_value_def spells_values_def holds_at_append list_all2_replicate add.assoc)
  then show "\<exists>v. spells_value payload psize p p' (TList n t) v" by blast
qed

lemma spells_value_variant:
  "(\<exists>v. spells_value payload psize p p' (TVariant ts) v) \<longleftrightarrow>
    (\<exists>k v. k < length ts \<and> p + 8 \<le> psize \<and> holds_at payload p (value_header k) \<and>
       spells_value payload psize (p + 8) p' (ts ! k) v)"
proof
  assume "\<exists>v. spells_value payload psize p p' (TVariant ts) v"
  then obtain v where v: "spells_value payload psize p p' (TVariant ts) v" by blast
  then obtain k w where "v = VVariant k w" by (cases v) (auto simp: spells_value_def)
  with v have "k < length ts \<and> p + 8 \<le> psize \<and> holds_at payload p (value_header k) \<and>
       spells_value payload psize (p + 8) p' (ts ! k) w"
    by (auto simp: spells_value_def holds_at_append)
  then show "\<exists>k v. k < length ts \<and> p + 8 \<le> psize \<and> holds_at payload p (value_header k) \<and>
       spells_value payload psize (p + 8) p' (ts ! k) v" by blast
next
  assume "\<exists>k v. k < length ts \<and> p + 8 \<le> psize \<and> holds_at payload p (value_header k) \<and>
       spells_value payload psize (p + 8) p' (ts ! k) v"
  then obtain k w where "k < length ts" "holds_at payload p (value_header k)"
       "spells_value payload psize (p + 8) p' (ts ! k) w" by blast
  then have "spells_value payload psize p p' (TVariant ts) (VVariant k w)"
    by (simp add: spells_value_def holds_at_append add.assoc)
  then show "\<exists>v. spells_value payload psize p p' (TVariant ts) v" by blast
qed

lemma spells_value_data:
  "(\<exists>v. spells_value payload psize p p' (TBytes n) v) \<longleftrightarrow>
    (\<exists>k. k \<le> n \<and> holds_at payload p (value_header k) \<and> p' = p + (8 + k) \<and> p' \<le> psize \<and>
       length (chunk payload (p + 8) k) = k)"
  "(\<exists>v. spells_value payload psize p p' (TString n) v) \<longleftrightarrow>
    (\<exists>k. k \<le> n \<and> holds_at payload p (value_header k) \<and> p' = p + (8 + k) \<and> p' \<le> psize \<and>
       length (chunk payload (p + 8) k) = k \<and>
       valid_utf8 (chunk payload (p + 8) k) \<and> 0 \<notin> set (chunk payload (p + 8) k))"
proof -
  have b: "spells_value payload psize p p' (TBytes n) v \<Longrightarrow> \<exists>bs. v = VBytes bs"
    and s: "spells_value payload psize p p' (TString n) v \<Longrightarrow> \<exists>bs. v = VString bs" for v
    by (cases v; simp add: spells_value_def)+
  show "(\<exists>v. spells_value payload psize p p' (TBytes n) v) \<longleftrightarrow>
    (\<exists>k. k \<le> n \<and> holds_at payload p (value_header k) \<and> p' = p + (8 + k) \<and> p' \<le> psize \<and>
       length (chunk payload (p + 8) k) = k)" (is "?l \<longleftrightarrow> (\<exists>k. ?r k)")
  proof
    assume ?l
    then obtain bs where "spells_value payload psize p p' (TBytes n) (VBytes bs)" using b by blast
    then have "?r (length bs)" by (simp add: spells_value_def holds_at_append del: length_chunk) (simp add: holds_at_def del: length_chunk)
    then show "\<exists>k. ?r k" by blast
  next
    assume "\<exists>k. ?r k"
    then obtain k where "?r k" by blast
    then have "spells_value payload psize p p' (TBytes n) (VBytes (chunk payload (p + 8) k))"
      by (simp add: spells_value_def holds_at_append del: length_chunk) (simp add: holds_at_def del: length_chunk)
    then show ?l by blast
  qed
  show "(\<exists>v. spells_value payload psize p p' (TString n) v) \<longleftrightarrow>
    (\<exists>k. k \<le> n \<and> holds_at payload p (value_header k) \<and> p' = p + (8 + k) \<and> p' \<le> psize \<and>
       length (chunk payload (p + 8) k) = k \<and>
       valid_utf8 (chunk payload (p + 8) k) \<and> 0 \<notin> set (chunk payload (p + 8) k))" (is "?l \<longleftrightarrow> (\<exists>k. ?r k)")
  proof
    assume ?l
    then obtain bs where "spells_value payload psize p p' (TString n) (VString bs)" using s by blast
    then have "?r (length bs)" by (simp add: spells_value_def holds_at_append del: length_chunk) (simp add: holds_at_def del: length_chunk)
    then show "\<exists>k. ?r k" by blast
  next
    assume "\<exists>k. ?r k"
    then obtain k where "?r k" by blast
    then have "spells_value payload psize p p' (TString n) (VString (chunk payload (p + 8) k))"
      by (simp add: spells_value_def holds_at_append del: length_chunk) (simp add: holds_at_def del: length_chunk)
    then show ?l by blast
  qed
qed

text \<open>The head that the walk reads is the one of the value.\<close>

lemma value_head_iff:
  assumes "psize \<le> length payload" and "k < 2 ^ 32"
  shows "p + 8 \<le> psize \<and> holds_at payload p (value_header k) \<longleftrightarrow>
    value_head payload psize p = Some (of_nat k)"
  using value_head_Some [OF assms(1), of p "of_nat k"] assms(2) by (simp add: unat_small_words)

lemma ex_value_head:
  assumes "psize \<le> length payload" and "n \<le> 1048576"
  shows "(\<exists>k. k \<le> n \<and> p + 8 \<le> psize \<and> holds_at payload p (value_header k) \<and> P k) \<longleftrightarrow>
    (\<exists>w. value_head payload psize p = Some w \<and> unat w \<le> n \<and> P (unat w))"
proof
  assume "\<exists>k. k \<le> n \<and> p + 8 \<le> psize \<and> holds_at payload p (value_header k) \<and> P k"
  then obtain k where k: "k \<le> n" "p + 8 \<le> psize" "holds_at payload p (value_header k)" "P k" by blast
  then have "value_head payload psize p = Some (of_nat k)" "unat (of_nat k :: u32) = k"
    using value_head_iff [OF assms(1), of k p] assms(2) by (simp_all add: unat_small_words)
  with k show "\<exists>w. value_head payload psize p = Some w \<and> unat w \<le> n \<and> P (unat w)" by metis
next
  assume "\<exists>w. value_head payload psize p = Some w \<and> unat w \<le> n \<and> P (unat w)"
  then show "\<exists>k. k \<le> n \<and> p + 8 \<le> psize \<and> holds_at payload p (value_header k) \<and> P k"
    using value_head_Some [OF assms(1)] by blast
qed

lemma unat_le_bound: "unat b = n \<Longrightarrow> w \<le> b \<longleftrightarrow> unat w \<le> n" for w b :: u32
  by (simp add: word_le_nat_alt)

lemma unat_gt_bound: "unat b = n \<Longrightarrow> b < w \<longleftrightarrow> n < unat w" for w b :: u32
  by (simp add: word_less_nat_alt)

lemma walk_right_leaf:
  assumes "t = TUnit \<or> t = TInteger \<or> t = TBoolean"
    and "rend \<le> length img" and "psize \<le> length payload"
  shows "walk_right left img rend payload psize t"
  unfolding walk_right_def
proof (intro allI impI)
  fix c p c' p'
  assume sp: "spelled left img rend c t" and p: "p \<le> psize"
  obtain left' where left: "left = Suc left'" and c: "c + 8 \<le> rend" "img ! c = ty_kind t"
    using spelled_node [OF sp] .
  have unit: "(\<exists>v. spells_value payload psize p p' TUnit v) \<longleftrightarrow> p' = p"
  proof -
    have "spells_value payload psize p p' TUnit v \<longleftrightarrow> v = VUnit \<and> p' = p" for v
      using p by (cases v) (auto simp: spells_value_def)
    then show ?thesis by simp
  qed
  have int: "(\<exists>v. spells_value payload psize p p' TInteger v) \<longleftrightarrow> p + 8 \<le> psize \<and> p' = p + 8"
  proof -
    have "spells_value payload psize p p' TInteger v \<longleftrightarrow>
        (\<exists>w. v = VInteger w \<and> p' = p + 8 \<and> p' \<le> psize \<and> holds_at payload p (le_bytes 8 w))" for v
      by (cases v) (auto simp: spells_value_def)
    then show ?thesis using assms(3) by (auto simp: holds_at_le_bytes)
  qed
  have bool: "(\<exists>v. spells_value payload psize p p' TBoolean v) \<longleftrightarrow>
      p < psize \<and> \<not> payload ! p > 1 \<and> p' = p + 1"
  proof -
    have "spells_value payload psize p p' TBoolean v \<longleftrightarrow>
        (\<exists>b. v = VBoolean b \<and> p' = p + 1 \<and> p' \<le> psize \<and> payload ! p = (if b then 1 else 0))" for v
      using assms(3) by (cases v) (auto simp: spells_value_def holds_at_Cons)
    moreover have "\<not> payload ! p > 1 \<longleftrightarrow> (\<exists>b. payload ! p = (if b then 1 else 0))"
    proof -
      have "\<not> payload ! p > 1 \<longleftrightarrow> unat (payload ! p) = 0 \<or> unat (payload ! p) = 1"
        by (auto simp: word_less_nat_alt)
      also have "\<dots> \<longleftrightarrow> payload ! p = 0 \<or> payload ! p = 1" by (simp add: word_unat_eq_iff)
      finally show ?thesis by (auto intro: exI [of _ True] exI [of _ False])
    qed
    ultimately show ?thesis by auto
  qed
  show "value_walk left img rend payload psize (c, p) = Inr (c', p') \<longleftrightarrow>
      c' = c + length (ty_bytes t) \<and> (\<exists>v. spells_value payload psize p p' t v)"
    using assms(1) c by (elim disjE) (auto simp: left unit int bool Let_def)
qed

lemma walk_right_data:
  assumes "t = TString n \<or> t = TBytes n"
    and "rend \<le> length img" and "psize \<le> length payload"
  shows "walk_right left img rend payload psize t"
  unfolding walk_right_def
proof (intro allI impI)
  fix c p c' p'
  assume sp: "spelled left img rend c t" and p: "p \<le> psize"
  obtain left' where left: "left = Suc left'" and c: "c + 8 \<le> rend" "img ! c = ty_kind t"
    and bound: "unat (read_u32 img (c + 4)) = ty_bound t"
    using spelled_node [OF sp] .
  have n: "n \<le> 1048576" "ty_bound t = n" using sp assms(1) by (auto simp: spelled_def)
  have le: "w \<le> read_u32 img (c + 4) \<longleftrightarrow> unat w \<le> n" for w
    using unat_le_bound [OF bound] n(2) by simp
  let ?data = "\<lambda>w. chunk payload (p + 8) (unat w)"
  let ?fits = "\<lambda>w. value_head payload psize p = Some w \<and> unat w \<le> n \<and> p + 8 + unat w \<le> psize"
  have full: "length (chunk payload (p + 8) k) = k" if "p + 8 + k \<le> psize" for k
    using that assms(3) by simp
  have shape: "(\<exists>k. k \<le> n \<and> holds_at payload p (value_header k) \<and> p' = p + (8 + k) \<and> p' \<le> psize \<and>
       length (chunk payload (p + 8) k) = k \<and> Q (chunk payload (p + 8) k)) \<longleftrightarrow>
    (\<exists>w. ?fits w \<and> p' = p + (8 + unat w) \<and> Q (?data w))" for Q
  proof -
    have "(\<exists>k. k \<le> n \<and> holds_at payload p (value_header k) \<and> p' = p + (8 + k) \<and> p' \<le> psize \<and>
       length (chunk payload (p + 8) k) = k \<and> Q (chunk payload (p + 8) k)) \<longleftrightarrow>
      (\<exists>k. k \<le> n \<and> p + 8 \<le> psize \<and> holds_at payload p (value_header k) \<and>
        p + 8 + k \<le> psize \<and> p' = p + (8 + k) \<and> Q (chunk payload (p + 8) k))"
      using full by (intro ex_cong1) auto
    also have "\<dots> \<longleftrightarrow> (\<exists>w. ?fits w \<and> p' = p + (8 + unat w) \<and> Q (?data w))"
      unfolding ex_value_head [OF assms(3) n(1)] by auto
    finally show ?thesis .
  qed
  have bytes: "(\<exists>v. spells_value payload psize p p' (TBytes n) v) \<longleftrightarrow>
      (\<exists>w. ?fits w \<and> p' = p + (8 + unat w))"
    unfolding spells_value_data using shape [of "\<lambda>_. True"] by (simp del: length_chunk)
  have str: "(\<exists>v. spells_value payload psize p p' (TString n) v) \<longleftrightarrow>
      (\<exists>w. ?fits w \<and> p' = p + (8 + unat w) \<and> valid_utf8 (?data w) \<and> 0 \<notin> set (?data w))"
    unfolding spells_value_data by (rule shape)
  have head: "value_head payload psize p = Some w \<Longrightarrow> p + 8 \<le> psize" for w
    using value_head_Some [OF assms(3)] by blast
  show "value_walk left img rend payload psize (c, p) = Inr (c', p') \<longleftrightarrow>
      c' = c + length (ty_bytes t) \<and> (\<exists>v. spells_value payload psize p p' t v)"
  proof (cases "value_head payload psize p")
    case None
    then show ?thesis
      using assms(1) c by (elim disjE) (simp_all add: left bytes str Let_def)
  next
    case (Some w)
    have walk: "value_walk left img rend payload psize (c, p) =
        (if unat w \<le> n \<and> p + 8 + unat w \<le> psize \<and>
            (ty_kind t = 4 \<longrightarrow> valid_utf8 (?data w) \<and> 0 \<notin> set (?data w))
         then Inr (c + 8, p + (8 + unat w)) else Inl HERMAS_IMAGE_INVALID_VALUE)"
      using assms(1) c Some le [of w] head [OF Some]
      by (elim disjE) (auto simp: left Let_def not_le not_less)
    show ?thesis
      unfolding walk using assms(1) Some by (elim disjE) (auto simp: bytes str)
  qed
qed

lemma walk_right_list:
  assumes "\<And>left. walk_right left img rend payload psize t"
    and "rend \<le> length img" and "psize \<le> length payload"
  shows "walk_right left img rend payload psize (TList n t)"
  unfolding walk_right_def
proof (intro allI impI)
  fix c p c' p'
  assume sp: "spelled left img rend c (TList n t)" and p: "p \<le> psize"
  obtain left' where left: "left = Suc left'" and c: "c + 8 \<le> rend" "img ! c = 7"
    and bound: "unat (read_u32 img (c + 4)) = n" and child: "spelled left' img rend (c + 8) t"
    using spelled_node [OF sp] by auto
  have n: "n \<le> 256" using sp by (simp add: spelled_def)
  let ?stop = "c + 8 + length (ty_bytes t)"
  have walked: "representation_walk left' img rend (c + 8) = Inr ?stop"
    using child representation_walk_iff [OF assms(2)] by blast
  show "value_walk left img rend payload psize (c, p) = Inr (c', p') \<longleftrightarrow>
      c' = c + length (ty_bytes (TList n t)) \<and> (\<exists>v. spells_value payload psize p p' (TList n t) v)"
  proof (cases "\<exists>w. value_head payload psize p = Some w \<and> unat w \<le> n")
    case False
    then have "\<not> (\<exists>v. spells_value payload psize p p' (TList n t) v)"
      using ex_value_head [OF assms(3), of n p] n unfolding spells_value_list [OF n] by auto
    then show ?thesis
      using c False unat_gt_bound [OF bound] by (auto simp: left Let_def split: option.splits)
  next
    case True
    then obtain w where w: "value_head payload psize p = Some w" "unat w \<le> n" by blast
    then have p8: "p + 8 \<le> psize" using value_head_Some [OF assms(3)] by blast
    have room: "\<not> (c > rend \<or> rend - c < 8)" using c(1) by arith
    have "value_walk left img rend payload psize (c, p) =
        (case for_each (\<lambda>item. list_item left' img rend payload psize (c + 8) ?stop) [0..<unat w] (p + 8) of
           Inl e \<Rightarrow> Inl e | Inr cursor \<Rightarrow> Inr (?stop, cursor))"
      using w unat_gt_bound [OF bound, of w] walked room c(2)
      by (simp add: left Let_def list_item_def cong: for_each_cong)
    then have "value_walk left img rend payload psize (c, p) = Inr (c', p') \<longleftrightarrow> c' = ?stop \<and>
        for_each (\<lambda>item. list_item left' img rend payload psize (c + 8) ?stop) [0..<unat w] (p + 8) = Inr p'"
      by (auto split: sum.splits)
    also have "\<dots> \<longleftrightarrow> c' = ?stop \<and> (\<exists>vs. spells_values payload psize (p + 8) p' (replicate (unat w) t) vs)"
      unfolding list_loop [OF assms(1) child p8] by simp
    also have "\<dots> \<longleftrightarrow> c' = c + length (ty_bytes (TList n t)) \<and>
        (\<exists>v. spells_value payload psize p p' (TList n t) v)"
      using ex_value_head [OF assms(3), of n p
          "\<lambda>k. \<exists>vs. spells_values payload psize (p + 8) p' (replicate k t) vs"] w n
      unfolding spells_value_list [OF n] by (auto simp: add.assoc)
    finally show ?thesis .
  qed
qed

lemma walk_right_variant:
  assumes "\<And>left. \<forall>t \<in> set ts. walk_right left img rend payload psize t"
    and "rend \<le> length img" and "psize \<le> length payload"
  shows "walk_right left img rend payload psize (TVariant ts)"
  unfolding walk_right_def
proof (intro allI impI)
  fix c p c' p'
  assume sp: "spelled left img rend c (TVariant ts)" and p: "p \<le> psize"
  obtain left' where left: "left = Suc left'" and c: "c + 8 \<le> rend" "img ! c = 8"
    and count: "unat (read_u16 img (c + 2)) = length ts"
    and children: "spelled_list left' img rend (c + 8) ts"
    using spelled_node [OF sp] by auto
  have n: "0 < length ts" "length ts - 1 \<le> 1048576" using sp by (auto simp: spelled_def)
  have lt: "k < length ts \<longleftrightarrow> k \<le> length ts - 1" for k using n(1) by arith
  have spec: "(\<exists>v. spells_value payload psize p p' (TVariant ts) v) \<longleftrightarrow>
      (\<exists>w. value_head payload psize p = Some w \<and> unat w < length ts \<and>
         (\<exists>v. spells_value payload psize (p + 8) p' (ts ! unat w) v))"
    unfolding spells_value_variant lt
    using ex_value_head [OF assms(3) n(2), of p "\<lambda>k. \<exists>v. spells_value payload psize (p + 8) p' (ts ! k) v"]
    by blast
  show "value_walk left img rend payload psize (c, p) = Inr (c', p') \<longleftrightarrow>
      c' = c + length (ty_bytes (TVariant ts)) \<and> (\<exists>v. spells_value payload psize p p' (TVariant ts) v)"
  proof (cases "\<exists>w. value_head payload psize p = Some w \<and> unat w < length ts")
    case False
    then show ?thesis
      unfolding spec using c count by (auto simp: left Let_def split: option.splits)
  next
    case True
    then obtain w where w: "value_head payload psize p = Some w" "unat w < length ts" by blast
    then have p8: "p + 8 \<le> psize" using value_head_Some [OF assms(3)] by blast
    have "value_walk left img rend payload psize (c, p) =
        for_each (variant_child left' img rend payload psize (unat w)) [0..<0 + length ts] (c + 8, p + 8)"
      using c w count by (simp add: left Let_def variant_child_def cong: for_each_cong)
    then show ?thesis
      unfolding spec using w variant_loop [OF assms(2,1) children p8, of "unat w" 0]
      by (auto simp: add.assoc)
  qed
qed

text \<open>The walk over a spelled type accepts exactly the spellings of the values of the type.\<close>

lemma value_walk_right:
  assumes "rend \<le> length img" and "psize \<le> length payload"
  shows "walk_right left img rend payload psize t"
proof (induction t arbitrary: left)
  case (TRecord ts)
  show ?case
    unfolding walk_right_def
  proof (intro allI impI)
    fix c p c' p'
    assume sp: "spelled left img rend c (TRecord ts)" and p: "p \<le> psize"
    obtain left' where left: "left = Suc left'" and c: "c + 8 \<le> rend" "img ! c = 6"
      and count: "unat (read_u16 img (c + 2)) = length ts"
      and children: "spelled_list left' img rend (c + 8) ts"
      using spelled_node [OF sp] by auto
    have "\<forall>t \<in> set ts. walk_right left' img rend payload psize t" using TRecord by blast
    note loop = record_loop [OF this children p, of "[0..<length ts]"]
    have "\<not> rend - c < 8" using c(1) by arith
    with c count loop show
      "value_walk left img rend payload psize (c, p) = Inr (c', p') \<longleftrightarrow>
        c' = c + length (ty_bytes (TRecord ts)) \<and> (\<exists>v. spells_value payload psize p p' (TRecord ts) v)"
      unfolding spells_value_record by (auto simp: left Let_def add.assoc)
  qed
qed (use assms in \<open>auto intro: walk_right_leaf walk_right_data walk_right_list walk_right_variant\<close>)

end
