(* ===== verification/Hermas_Image_Validate.thy ===== *)
theory Hermas_Image_Validate
  imports Hermas_Image_Types
begin

text \<open>
  \<open>hermas_image_validate\<close> of image.c, stage by stage in the order of the function: header and counts,
  table offsets, the workflow name, error types, action contracts, type table, nodes, regions,
  edges, topology, reachability. Every stage returns \<open>Inl\<close> with the result code the function
  returns there, or \<open>Inr\<close> with what the later stages use. The function's local arrays, indexed by
  node or region number, are functions from \<open>nat\<close> that start as constantly zero.
\<close>

section \<open>Header and counts\<close>

record image_header =
  ih_name_offset :: nat
  ih_name_length :: nat
  ih_input_type :: u16
  ih_success_type :: u16
  ih_error_count :: nat
  ih_contract_count :: nat
  ih_node_count :: nat
  ih_edge_count :: nat
  ih_type_count :: nat
  ih_region_count :: nat
  ih_errors :: nat
  ih_contracts :: nat
  ih_types :: nat
  ih_nodes :: nat
  ih_edges :: nat
  ih_representations :: nat
  ih_strings :: nat
  ih_representations_length :: nat
  ih_regions :: nat

text \<open>\<open>HGI1\<close>, the image magic.\<close>

definition image_magic :: bytes where
  "image_magic = [0x48, 0x47, 0x49, 0x31]"

definition read_header :: "bytes \<Rightarrow> image_header" where
  "read_header img =
    \<lparr>ih_name_offset = unat (read_u32 img 16),
     ih_name_length = unat (read_u16 img 20),
     ih_input_type = read_u16 img 22,
     ih_success_type = read_u16 img 24,
     ih_error_count = unat (read_u16 img 26),
     ih_contract_count = unat (read_u16 img 28),
     ih_node_count = unat (read_u16 img 30),
     ih_edge_count = unat (read_u16 img 32),
     ih_type_count = unat (read_u16 img 34),
     ih_region_count = unat (read_u16 img 68),
     ih_errors = unat (read_u32 img 36),
     ih_contracts = unat (read_u32 img 40),
     ih_types = unat (read_u32 img 44),
     ih_nodes = unat (read_u32 img 48),
     ih_edges = unat (read_u32 img 52),
     ih_representations = unat (read_u32 img 56),
     ih_strings = unat (read_u32 img 60),
     ih_representations_length = unat (read_u32 img 64),
     ih_regions = unat (read_u32 img 72)\<rparr>"

definition counts_valid :: "image_header \<Rightarrow> bool" where
  "counts_valid h \<longleftrightarrow>
     \<not> (ih_input_type h = 0 \<or> ih_success_type h = 0 \<or> ih_error_count h = 0 \<or>
        ih_error_count h > HERMAS_MAX_ERRORS \<or> ih_contract_count h = 0 \<or>
        ih_contract_count h > HERMAS_MAX_ACTION_CONTRACTS \<or> ih_type_count h = 0 \<or>
        ih_type_count h > HERMAS_MAX_ERRORS \<or> ih_node_count h > HERMAS_MAX_NODES \<or>
        ih_edge_count h > HERMAS_MAX_EDGES \<or> ih_region_count h > 40)"

definition check_header :: "bytes \<Rightarrow> nat \<Rightarrow> hermas_image_result + image_header" where
  "check_header img image_size =
    (if image_size < HERMAS_HEADER_SIZE then Inl HERMAS_IMAGE_TRUNCATED
     else if image_size > HERMAS_IMAGE_MAX_SIZE then Inl HERMAS_IMAGE_INVALID_HEADER
     else if chunk img 0 4 \<noteq> image_magic then Inl HERMAS_IMAGE_BAD_MAGIC
     else if read_u16 img 4 \<noteq> HERMAS_GRAPH_IMAGE_VERSION then Inl HERMAS_IMAGE_UNSUPPORTED_VERSION
     else if unat (read_u16 img 6) \<noteq> HERMAS_HEADER_SIZE \<or> image_size > 2 ^ 32 - 1 \<or>
             read_u32 img 8 \<noteq> of_nat image_size \<or> read_u32 img 12 \<noteq> 0 \<or>
             read_u16 img 70 \<noteq> 0 \<or> read_u32 img 76 \<noteq> 0
     then Inl HERMAS_IMAGE_INVALID_HEADER
     else if \<not> counts_valid (read_header img) then Inl HERMAS_IMAGE_INVALID_COUNT
     else Inr (read_header img))"

section \<open>Table offsets and the workflow name\<close>

definition expected_contracts :: "nat \<Rightarrow> nat" where
  "expected_contracts error_count =
     unat ((of_nat (HERMAS_HEADER_SIZE + error_count * 2 + 3) :: u64) AND NOT 3)"

definition offsets_valid :: "nat \<Rightarrow> image_header \<Rightarrow> bool" where
  "offsets_valid image_size h =
    (let contracts = expected_contracts (ih_error_count h) in
     case checked_table_end contracts (ih_contract_count h) HERMAS_ACTION_CONTRACT_RECORD_SIZE of
       None \<Rightarrow> False
     | Some types \<Rightarrow>
     case checked_table_end types (ih_type_count h) HERMAS_TYPE_RECORD_SIZE of
       None \<Rightarrow> False
     | Some nodes \<Rightarrow>
     case checked_table_end nodes (ih_node_count h) HERMAS_NODE_RECORD_SIZE of
       None \<Rightarrow> False
     | Some edges \<Rightarrow>
     case checked_table_end edges (ih_edge_count h) HERMAS_EDGE_RECORD_SIZE of
       None \<Rightarrow> False
     | Some regions \<Rightarrow>
     case checked_table_end regions (ih_region_count h) HERMAS_REGION_RECORD_SIZE of
       None \<Rightarrow> False
     | Some strings \<Rightarrow>
         \<not> (ih_representations_length h > SIZE_MAX - strings \<or>
            ih_errors h \<noteq> HERMAS_HEADER_SIZE \<or> ih_contracts h \<noteq> contracts \<or>
            ih_types h \<noteq> types \<or> ih_nodes h \<noteq> nodes \<or> ih_edges h \<noteq> edges \<or>
            ih_regions h \<noteq> regions \<or> ih_representations h \<noteq> strings \<or>
            ih_strings h \<noteq> strings + ih_representations_length h \<or>
            ih_name_offset h \<noteq> ih_strings h \<or> ih_name_offset h > image_size \<or>
            ih_name_length h \<noteq> image_size - ih_name_offset h))"

definition name_valid :: "bytes \<Rightarrow> image_header \<Rightarrow> bool" where
  "name_valid img h \<longleftrightarrow>
     \<not> (ih_name_length h = 0 \<or> \<not> valid_utf8 (chunk img (ih_name_offset h) (ih_name_length h)))"

section \<open>Error types, action contracts and types\<close>

definition check_errors :: "bytes \<Rightarrow> image_header \<Rightarrow> hermas_image_result + unit" where
  "check_errors img h =
     for_each (\<lambda>left _.
       let v = read_u16 img (ih_errors h + left * 2) in
       if v = 0 then Inl HERMAS_IMAGE_DUPLICATE_RECORD
       else if list_ex (\<lambda>right. v = read_u16 img (ih_errors h + right * 2)) [0..<left]
       then Inl HERMAS_IMAGE_DUPLICATE_RECORD
       else Inr ()) [0..<ih_error_count h] ()"

definition check_contracts :: "bytes \<Rightarrow> image_header \<Rightarrow> hermas_image_result + unit" where
  "check_contracts img h =
     for_each (\<lambda>left _.
       let offset = ih_contracts h + left * HERMAS_ACTION_CONTRACT_RECORD_SIZE;
           app = read_u16 img offset;
           action = read_u16 img (offset + 2)
       in if app = 0 \<or> action = 0 then Inl HERMAS_IMAGE_INVALID_RECORD
          else if list_ex (\<lambda>right.
                  let previous = ih_contracts h + right * HERMAS_ACTION_CONTRACT_RECORD_SIZE
                  in app = read_u16 img previous \<and> action = read_u16 img (previous + 2)) [0..<left]
          then Inl HERMAS_IMAGE_INVALID_RECORD
          else Inr ()) [0..<ih_contract_count h] ()"

text \<open>The type table; the loop state is the representation cursor.\<close>

definition check_type :: "bytes \<Rightarrow> image_header \<Rightarrow> nat \<Rightarrow> nat \<Rightarrow> hermas_image_result + nat" where
  "check_type img h left cursor =
    (let offset = ih_types h + left * HERMAS_TYPE_RECORD_SIZE;
         type_id = read_u16 img offset
     in if type_id = 0 \<or> read_u16 img (offset + 2) \<noteq> 0 \<or>
           unat (read_u32 img (offset + 4)) \<noteq> cursor
        then Inl HERMAS_IMAGE_INVALID_RECORD
        else if list_ex (\<lambda>right. type_id = read_u16 img (ih_types h + right * HERMAS_TYPE_RECORD_SIZE))
                  [0..<left]
        then Inl HERMAS_IMAGE_INVALID_RECORD
        else case validate_representation img (ih_strings h) cursor 0 of
            Inl _ \<Rightarrow> Inl HERMAS_IMAGE_INVALID_RECORD
          | Inr cursor' \<Rightarrow> Inr cursor')"

definition known_type :: "bytes \<Rightarrow> image_header \<Rightarrow> u16 \<Rightarrow> bool" where
  "known_type img h type_id =
     contains_u16 img (ih_types h) (ih_type_count h) HERMAS_TYPE_RECORD_SIZE type_id"

definition check_types :: "bytes \<Rightarrow> image_header \<Rightarrow> hermas_image_result + unit" where
  "check_types img h =
    (case for_each (check_type img h) [0..<ih_type_count h] (ih_representations h) of
       Inl e \<Rightarrow> Inl e
     | Inr cursor \<Rightarrow>
         if cursor \<noteq> ih_strings h \<or> \<not> known_type img h (ih_input_type h) \<or>
            \<not> known_type img h (ih_success_type h)
         then Inl HERMAS_IMAGE_INVALID_RECORD
         else for_each (\<lambda>index _.
                if \<not> known_type img h (read_u16 img (ih_errors h + index * 2))
                then Inl HERMAS_IMAGE_INVALID_RECORD else Inr ()) [0..<ih_error_count h] ())"

section \<open>Nodes\<close>

definition image_descriptor :: "bytes \<Rightarrow> image_header \<Rightarrow> u16 \<Rightarrow> (nat \<times> nat) option" where
  "image_descriptor img h type_id =
     type_descriptor img (ih_types h) (ih_type_count h) (ih_strings h) type_id"

record node_tables =
  nt_action :: "nat \<Rightarrow> bool"
  nt_dispatch_type :: "nat \<Rightarrow> u16"
  nt_dispatch_cases :: "nat \<Rightarrow> u16"
  nt_fork_type :: "nat \<Rightarrow> u16"
  nt_fork_branches :: "nat \<Rightarrow> u8"
  nt_join_branches :: "nat \<Rightarrow> u8"
  nt_terminal :: "nat \<Rightarrow> u8"
  nt_terminal_kinds :: "nat \<Rightarrow> bool"

definition no_nodes :: node_tables where
  "no_nodes =
    \<lparr>nt_action = \<lambda>_. False, nt_dispatch_type = \<lambda>_. 0, nt_dispatch_cases = \<lambda>_. 0,
     nt_fork_type = \<lambda>_. 0, nt_fork_branches = \<lambda>_. 0, nt_join_branches = \<lambda>_. 0,
     nt_terminal = \<lambda>_. 0, nt_terminal_kinds = \<lambda>_. False\<rparr>"

definition check_node ::
  "bytes \<Rightarrow> image_header \<Rightarrow> nat \<Rightarrow> node_tables \<Rightarrow> hermas_image_result + node_tables" where
  "check_node img h index nt =
    (let offset = ih_nodes h + index * HERMAS_NODE_RECORD_SIZE;
         kind = img ! offset;
         subtype = img ! (offset + 1);
         action = read_u16 img (offset + 2);
         app = read_u16 img (offset + 4);
         reserved = read_u16 img (offset + 6);
         node = index + 1
     in if kind = 1 \<and> subtype = 0 \<and> action \<noteq> 0 \<and> reserved = 0 \<and>
           contains_action_contract img (ih_contracts h) (ih_contract_count h) app action
        then Inr (nt\<lparr>nt_action := (nt_action nt)(node := True)\<rparr>)
        else if kind = 3 \<and> subtype = 0 \<and> action \<noteq> 0 \<and> app = 0 \<and> reserved = 0 then
          (case image_descriptor img h action of
             None \<Rightarrow> Inl HERMAS_IMAGE_INVALID_RECORD
           | Some (descriptor, descriptor_end) \<Rightarrow>
               if img ! descriptor \<noteq> 8 \<or>
                  unat (read_u16 img (descriptor + 2)) > HERMAS_MAX_EDGES
               then Inl HERMAS_IMAGE_INVALID_RECORD
               else Inr (nt\<lparr>nt_dispatch_type := (nt_dispatch_type nt)(node := action),
                      nt_dispatch_cases :=
                        (nt_dispatch_cases nt)(node := read_u16 img (descriptor + 2))\<rparr>))
        else if kind = 4 \<and> subtype \<ge> 2 \<and> unat subtype \<le> HERMAS_MAX_ALL_BRANCHES \<and>
                action \<noteq> 0 \<and> app = 0 \<and> reserved = 0 \<and> known_type img h action
        then Inr (nt\<lparr>nt_fork_type := (nt_fork_type nt)(node := action),
               nt_fork_branches := (nt_fork_branches nt)(node := subtype)\<rparr>)
        else if kind = 5 \<and> subtype \<ge> 2 \<and> unat subtype \<le> HERMAS_MAX_ALL_BRANCHES \<and>
                action = 0 \<and> app = 0 \<and> reserved = 0
        then Inr (nt\<lparr>nt_join_branches := (nt_join_branches nt)(node := subtype)\<rparr>)
        else if kind = 2 \<and> subtype \<ge> 1 \<and> subtype \<le> 4 \<and> action = 0 \<and> app = 0 \<and>
                reserved = 0 \<and> \<not> nt_terminal_kinds nt (unat subtype)
        then Inr (nt\<lparr>nt_terminal_kinds := (nt_terminal_kinds nt)(unat subtype := True),
               nt_terminal := (nt_terminal nt)(node := subtype)\<rparr>)
        else Inl HERMAS_IMAGE_INVALID_RECORD)"

definition check_nodes :: "bytes \<Rightarrow> image_header \<Rightarrow> hermas_image_result + node_tables" where
  "check_nodes img h =
    (case for_each (check_node img h) [0..<ih_node_count h] no_nodes of
       Inl e \<Rightarrow> Inl e
     | Inr nt \<Rightarrow>
         if \<not> nt_terminal_kinds nt 1 \<or> \<not> nt_terminal_kinds nt 2 \<or>
            \<not> nt_terminal_kinds nt 3 \<or> \<not> nt_terminal_kinds nt 4
         then Inl HERMAS_IMAGE_INVALID_TOPOLOGY
         else Inr nt)"

section \<open>Regions\<close>

text \<open>Whether two representations are the same bytes (equal lengths, then \<open>memcmp\<close>).\<close>

definition same_representation :: "bytes \<Rightarrow> nat \<times> nat \<Rightarrow> nat \<times> nat \<Rightarrow> bool" where
  "same_representation img a b =
    (snd a - fst a = snd b - fst b \<and>
     chunk img (fst a) (snd a - fst a) = chunk img (fst b) (snd a - fst a))"

record region_tables =
  rt_deadline_first :: "nat \<Rightarrow> u16"
  rt_deadline_last :: "nat \<Rightarrow> u16"
  rt_deadline_count :: nat
  rt_each_count :: nat
  rt_each_template :: "nat \<Rightarrow> u16"
  rt_each_source_list :: "nat \<Rightarrow> u16"
  rt_each_item_input :: "nat \<Rightarrow> u16"
  rt_each_item_output :: "nat \<Rightarrow> u16"
  rt_each_collected :: "nat \<Rightarrow> u16"
  rt_each_bound :: "nat \<Rightarrow> u16"
  rt_each_concurrency :: "nat \<Rightarrow> u8"
  rt_saga_count :: nat
  rt_saga_outcome_count :: nat
  rt_last_saga_forward :: u16
  rt_saga_source_type :: "nat \<Rightarrow> u16"
  rt_saga_success_type :: "nat \<Rightarrow> u16"
  rt_saga_error_type :: "nat \<Rightarrow> u16"

definition no_regions :: region_tables where
  "no_regions =
    \<lparr>rt_deadline_first = \<lambda>_. 0, rt_deadline_last = \<lambda>_. 0, rt_deadline_count = 0,
     rt_each_count = 0, rt_each_template = \<lambda>_. 0, rt_each_source_list = \<lambda>_. 0,
     rt_each_item_input = \<lambda>_. 0, rt_each_item_output = \<lambda>_. 0, rt_each_collected = \<lambda>_. 0,
     rt_each_bound = \<lambda>_. 0, rt_each_concurrency = \<lambda>_. 0, rt_saga_count = 0,
     rt_saga_outcome_count = 0, rt_last_saga_forward = 0, rt_saga_source_type = \<lambda>_. 0,
     rt_saga_success_type = \<lambda>_. 0, rt_saga_error_type = \<lambda>_. 0\<rparr>"

text \<open>
  A deadline region. \<open>last\<close> is \<open>first + count - 1\<close> in \<open>size_t\<close>; it could only wrap for
  \<open>first = 0\<close>, which is refused.
\<close>

definition check_deadline ::
  "bytes \<Rightarrow> image_header \<Rightarrow> nat \<Rightarrow> region_tables \<Rightarrow> hermas_image_result + region_tables" where
  "check_deadline img h offset rt =
    (let first = read_u16 img (offset + 2);
         count = read_u16 img (offset + 4);
         parent = unat (read_u16 img (offset + 6));
         last = unat first + unat count - 1;
         n = rt_deadline_count rt;
         within_parent =
           (parent = 0 \<or>
            parent \<le> n \<and> first \<ge> rt_deadline_first rt (parent - 1) \<and>
            last \<le> unat (rt_deadline_last rt (parent - 1)))
     in if n \<ge> 8 \<or> rt_each_count rt \<noteq> 0 \<or> rt_saga_count rt \<noteq> 0 \<or> img ! (offset + 1) \<noteq> 0 \<or>
           first = 0 \<or> count = 0 \<or> last > ih_node_count h \<or> parent > n \<or> \<not> within_parent \<or>
           n = 0 \<and> (first \<noteq> 1 \<or> unat count \<noteq> ih_node_count h \<or> parent \<noteq> 0) \<or>
           read_u64 img (offset + 8) = 0
        then Inl HERMAS_IMAGE_INVALID_RECORD
        else Inr (rt\<lparr>rt_deadline_first := (rt_deadline_first rt)(n := first),
               rt_deadline_last := (rt_deadline_last rt)(n := of_nat last),
               rt_deadline_count := n + 1\<rparr>))"

text \<open>The list type \<open>listed\<close> has items of type \<open>item\<close>, and its bound satisfies \<open>bound_ok\<close>.\<close>

definition list_of_items ::
  "bytes \<Rightarrow> image_header \<Rightarrow> u16 \<Rightarrow> u16 \<Rightarrow> (u32 \<Rightarrow> bool) \<Rightarrow> bool" where
  "list_of_items img h listed item bound_ok =
    (case image_descriptor img h listed of
       None \<Rightarrow> False
     | Some (list_start, list_end) \<Rightarrow>
         (case image_descriptor img h item of
            None \<Rightarrow> False
          | Some item_range \<Rightarrow>
              img ! list_start = 7 \<and> bound_ok (read_u32 img (list_start + 4)) \<and>
              (case representation_child img list_start list_end 0 of
                 None \<Rightarrow> False
               | Some child \<Rightarrow> same_representation img child item_range)))"

definition check_each ::
  "bytes \<Rightarrow> image_header \<Rightarrow> node_tables \<Rightarrow> nat \<Rightarrow> region_tables \<Rightarrow>
   hermas_image_result + region_tables" where
  "check_each img h nt offset rt =
    (if rt_each_count rt \<ge> 8 \<or> rt_saga_count rt \<noteq> 0 then Inl HERMAS_IMAGE_INVALID_RECORD
     else
       let n = rt_each_count rt + 1;
           concurrency = img ! (offset + 1);
           template = read_u16 img (offset + 2);
           source_list = read_u16 img (offset + 4);
           item_input = read_u16 img (offset + 6);
           item_output = read_u16 img (offset + 8);
           collected = read_u16 img (offset + 10);
           bound = read_u16 img (offset + 12);
           source_matches = list_of_items img h source_list item_input (\<lambda>b. b = ucast bound);
           output_matches = list_of_items img h collected item_output (\<lambda>b. b \<ge> ucast bound)
       in if concurrency = 0 \<or> unat concurrency > HERMAS_MAX_ALL_BRANCHES \<or>
             ucast concurrency > bound \<or> template = 0 \<or> unat template > ih_node_count h \<or>
             \<not> nt_action nt (unat template) \<or> \<not> source_matches \<or> \<not> output_matches \<or>
             read_u16 img (offset + 14) \<noteq> 0
          then Inl HERMAS_IMAGE_INVALID_RECORD
          else Inr (rt\<lparr>rt_each_count := n,
                 rt_each_concurrency := (rt_each_concurrency rt)(n := concurrency),
                 rt_each_template := (rt_each_template rt)(n := template),
                 rt_each_source_list := (rt_each_source_list rt)(n := source_list),
                 rt_each_item_input := (rt_each_item_input rt)(n := item_input),
                 rt_each_item_output := (rt_each_item_output rt)(n := item_output),
                 rt_each_collected := (rt_each_collected rt)(n := collected),
                 rt_each_bound := (rt_each_bound rt)(n := bound)\<rparr>))"

definition check_saga_step ::
  "bytes \<Rightarrow> image_header \<Rightarrow> node_tables \<Rightarrow> nat \<Rightarrow> region_tables \<Rightarrow>
   hermas_image_result + region_tables" where
  "check_saga_step img h nt offset rt =
    (let forward = read_u16 img (offset + 2);
         compensation_app = read_u16 img (offset + 4);
         compensation_action = read_u16 img (offset + 6);
         source_type = read_u16 img (offset + 8);
         destination_type = read_u16 img (offset + 10);
         ordinal = read_u16 img (offset + 12);
         compatible =
           (case image_descriptor img h source_type of
              None \<Rightarrow> False
            | Some source_range \<Rightarrow>
                (case image_descriptor img h destination_type of
                   None \<Rightarrow> False
                 | Some destination_range \<Rightarrow>
                     same_representation img source_range destination_range))
     in if img ! (offset + 1) \<noteq> 0 \<or> forward = 0 \<or> unat forward > ih_node_count h \<or>
           \<not> nt_action nt (unat forward) \<or> compensation_app = 0 \<or> compensation_action = 0 \<or>
           \<not> contains_action_contract img (ih_contracts h) (ih_contract_count h)
               compensation_app compensation_action \<or>
           unat ordinal \<noteq> rt_saga_count rt + 1 \<or>
           rt_saga_source_type rt (unat forward) \<noteq> 0 \<or> \<not> compatible \<or>
           read_u16 img (offset + 14) \<noteq> 0
        then Inl HERMAS_IMAGE_INVALID_RECORD
        else Inr (rt\<lparr>rt_saga_source_type := (rt_saga_source_type rt)(unat forward := source_type),
               rt_last_saga_forward := forward,
               rt_saga_count := rt_saga_count rt + 1\<rparr>))"

definition check_saga_outcome ::
  "bytes \<Rightarrow> image_header \<Rightarrow> nat \<Rightarrow> region_tables \<Rightarrow> hermas_image_result + region_tables" where
  "check_saga_outcome img h offset rt =
    (let forward = read_u16 img (offset + 2);
         success_type = read_u16 img (offset + 4);
         error_type = read_u16 img (offset + 6)
     in if img ! (offset + 1) \<noteq> 0 \<or> forward = 0 \<or> unat forward > ih_node_count h \<or>
           rt_saga_source_type rt (unat forward) = 0 \<or>
           rt_saga_count rt \<noteq> rt_saga_outcome_count rt + 1 \<or>
           forward \<noteq> rt_last_saga_forward rt \<or>
           rt_saga_success_type rt (unat forward) \<noteq> 0 \<or>
           \<not> known_type img h success_type \<or> \<not> known_type img h error_type \<or>
           read_u64 img (offset + 8) \<noteq> 0
        then Inl HERMAS_IMAGE_INVALID_RECORD
        else Inr (rt\<lparr>rt_saga_success_type := (rt_saga_success_type rt)(unat forward := success_type),
               rt_saga_error_type := (rt_saga_error_type rt)(unat forward := error_type),
               rt_saga_outcome_count := rt_saga_outcome_count rt + 1\<rparr>))"

definition check_region ::
  "bytes \<Rightarrow> image_header \<Rightarrow> node_tables \<Rightarrow> nat \<Rightarrow> region_tables \<Rightarrow>
   hermas_image_result + region_tables" where
  "check_region img h nt index rt =
    (let offset = ih_regions h + index * HERMAS_REGION_RECORD_SIZE;
         kind = img ! offset
     in if kind = 1 then check_deadline img h offset rt
        else if kind = 2 then check_each img h nt offset rt
        else if kind = 3 then check_saga_step img h nt offset rt
        else if kind = 4 then check_saga_outcome img h offset rt
        else Inl HERMAS_IMAGE_INVALID_RECORD)"

definition check_regions ::
  "bytes \<Rightarrow> image_header \<Rightarrow> node_tables \<Rightarrow> hermas_image_result + region_tables" where
  "check_regions img h nt = for_each (check_region img h nt) [0..<ih_region_count h] no_regions"

section \<open>Edges\<close>

record image_edge =
  ie_source_kind :: u8
  ie_target_kind :: u8
  ie_flags :: u8
  ie_case_tag :: u8
  ie_source_node :: u16
  ie_target_node :: u16
  ie_source_type :: u16
  ie_target_type :: u16
  ie_presentation :: u16

definition read_edge :: "bytes \<Rightarrow> image_header \<Rightarrow> nat \<Rightarrow> image_edge" where
  "read_edge img h index =
    (let offset = ih_edges h + index * HERMAS_EDGE_RECORD_SIZE in
     \<lparr>ie_source_kind = img ! offset, ie_target_kind = img ! (offset + 1),
      ie_flags = img ! (offset + 2), ie_case_tag = img ! (offset + 3),
      ie_source_node = read_u16 img (offset + 4), ie_target_node = read_u16 img (offset + 6),
      ie_source_type = read_u16 img (offset + 8), ie_target_type = read_u16 img (offset + 10),
      ie_presentation = read_u16 img (offset + 12)\<rparr>)"

definition valid_dispatch_source :: "bytes \<Rightarrow> image_header \<Rightarrow> node_tables \<Rightarrow> image_edge \<Rightarrow> bool" where
  "valid_dispatch_source img h nt e =
    (let source_node = unat (ie_source_node e) in
     ie_source_kind e = 5 \<and> source_node \<le> ih_node_count h \<and>
     nt_dispatch_type nt source_node \<noteq> 0 \<and>
     unat (ie_case_tag e) < unat (nt_dispatch_cases nt source_node) \<and>
     (case image_descriptor img h (nt_dispatch_type nt source_node) of
        None \<Rightarrow> False
      | Some (variant_start, variant_end) \<Rightarrow>
          (case image_descriptor img h (ie_source_type e) of
             None \<Rightarrow> False
           | Some source_range \<Rightarrow>
               (case representation_child img variant_start variant_end (unat (ie_case_tag e)) of
                  None \<Rightarrow> False
                | Some child \<Rightarrow> same_representation img child source_range))))"

definition valid_source ::
  "bytes \<Rightarrow> image_header \<Rightarrow> node_tables \<Rightarrow> region_tables \<Rightarrow> image_edge \<Rightarrow> bool" where
  "valid_source img h nt rt e =
    (let kind = ie_source_kind e; node = unat (ie_source_node e);
         tag = ie_case_tag e; source_type = ie_source_type e
     in kind = 0 \<and> node = 0 \<and> source_type = ih_input_type h \<and> known_type img h source_type \<or>
        (kind = 1 \<or> kind = 2) \<and> node \<le> ih_node_count h \<and> nt_action nt node \<and>
          known_type img h source_type \<or>
        (kind = 3 \<or> kind = 4) \<and> node \<le> ih_node_count h \<and> nt_action nt node \<and>
          source_type = 0 \<and> ie_target_type e = 0 \<or>
        valid_dispatch_source img h nt e \<or>
        kind = 6 \<and> node \<le> ih_node_count h \<and> nt_fork_type nt node \<noteq> 0 \<and>
          tag < nt_fork_branches nt node \<and> source_type = nt_fork_type nt node \<or>
        kind = 7 \<and> node \<le> ih_node_count h \<and> nt_join_branches nt node \<noteq> 0 \<and>
          tag < nt_join_branches nt node \<and> known_type img h source_type \<or>
        kind = 8 \<and> node > 0 \<and> node \<le> rt_each_count rt \<and> tag = 0 \<and>
          source_type = rt_each_item_input rt node \<or>
        kind = 9 \<and> node > 0 \<and> node \<le> rt_each_count rt \<and> tag = 0 \<and>
          source_type = rt_each_collected rt node)"

definition valid_target ::
  "bytes \<Rightarrow> image_header \<Rightarrow> node_tables \<Rightarrow> region_tables \<Rightarrow> image_edge \<Rightarrow> bool" where
  "valid_target img h nt rt e =
    (let kind = ie_target_kind e; node = unat (ie_target_node e);
         tag = ie_case_tag e; target_type = ie_target_type e
     in node > 0 \<and> node \<le> ih_node_count h \<and>
        (if kind = 1 then nt_action nt node \<and> known_type img h target_type
         else if kind = 2 then
           (let terminal = nt_terminal nt node in
            terminal = 1 \<and> target_type = ih_success_type h \<or>
            terminal = 2 \<and> contains_u16 img (ih_errors h) (ih_error_count h) 2 target_type \<or>
            (terminal = 3 \<or> terminal = 4) \<and> target_type = 0)
         else if kind = 3 then
           nt_dispatch_type nt node \<noteq> 0 \<and> target_type = nt_dispatch_type nt node
         else if kind = 4 then
           nt_fork_type nt node \<noteq> 0 \<and> target_type = nt_fork_type nt node
         else if kind = 5 then
           nt_join_branches nt node \<noteq> 0 \<and> tag < nt_join_branches nt node \<and>
           known_type img h target_type
         else if kind = 6 then
           node \<le> rt_each_count rt \<and> target_type = rt_each_source_list rt node \<and> tag = 0
         else if kind = 7 then
           node \<le> rt_each_count rt \<and> target_type = rt_each_item_output rt node \<and> tag = 0
         else False))"

definition valid_presentation :: "image_edge \<Rightarrow> bool" where
  "valid_presentation e \<longleftrightarrow>
     ie_flags e = 0 \<and> ie_presentation e = 0 \<or>
     ie_flags e = 1 \<and> ie_presentation e = ie_target_type e"

definition same_edge :: "image_edge \<Rightarrow> image_edge \<Rightarrow> bool" where
  "same_edge e previous \<longleftrightarrow>
     ie_source_kind e = ie_source_kind previous \<and> ie_source_node e = ie_source_node previous \<and>
     ie_case_tag e = ie_case_tag previous \<and> ie_target_kind e = ie_target_kind previous \<and>
     ie_target_node e = ie_target_node previous"

record edge_tables =
  et_input :: "nat \<Rightarrow> u8"
  et_success :: "nat \<Rightarrow> u8"
  et_error :: "nat \<Rightarrow> u8"
  et_not_sent :: "nat \<Rightarrow> u8"
  et_unknown :: "nat \<Rightarrow> u8"
  et_dispatch_case :: "nat \<times> nat \<Rightarrow> u8"
  et_fork_branch :: "nat \<times> nat \<Rightarrow> u8"
  et_join_input :: "nat \<times> nat \<Rightarrow> u8"
  et_join_output :: "nat \<times> nat \<Rightarrow> u8"
  et_join_input_type :: "nat \<times> nat \<Rightarrow> u16"
  et_join_output_type :: "nat \<times> nat \<Rightarrow> u16"
  et_each_input :: "nat \<Rightarrow> u8"
  et_each_collect :: "nat \<Rightarrow> u8"
  et_each_item :: "nat \<Rightarrow> u8"
  et_each_output :: "nat \<Rightarrow> u8"
  et_action_success_type :: "nat \<Rightarrow> u16"
  et_reachable :: "nat \<Rightarrow> bool"
  et_workflow_input :: nat

definition no_edges :: edge_tables where
  "no_edges =
    \<lparr>et_input = \<lambda>_. 0, et_success = \<lambda>_. 0, et_error = \<lambda>_. 0, et_not_sent = \<lambda>_. 0,
     et_unknown = \<lambda>_. 0, et_dispatch_case = \<lambda>_. 0, et_fork_branch = \<lambda>_. 0,
     et_join_input = \<lambda>_. 0, et_join_output = \<lambda>_. 0, et_join_input_type = \<lambda>_. 0,
     et_join_output_type = \<lambda>_. 0, et_each_input = \<lambda>_. 0, et_each_collect = \<lambda>_. 0,
     et_each_item = \<lambda>_. 0, et_each_output = \<lambda>_. 0, et_action_success_type = \<lambda>_. 0,
     et_reachable = \<lambda>_. False, et_workflow_input = 0\<rparr>"

text \<open>\<open>++counts[i]\<close> on an array of bytes.\<close>

definition bump :: "('i \<Rightarrow> u8) \<Rightarrow> 'i \<Rightarrow> ('i \<Rightarrow> u8)" where
  "bump counts i = counts(i := counts i + 1)"

definition count_target :: "image_edge \<Rightarrow> edge_tables \<Rightarrow> hermas_image_result + edge_tables" where
  "count_target e et =
    (let kind = ie_target_kind e; node = unat (ie_target_node e); tag = unat (ie_case_tag e) in
     if kind = 1 \<or> kind = 3 \<or> kind = 4 then
       (let input = bump (et_input et) node in
        if input node > 1 then Inl HERMAS_IMAGE_INVALID_TOPOLOGY else Inr (et\<lparr>et_input := input\<rparr>))
     else if kind = 5 then
       (let input = bump (et_join_input et) (node, tag) in
        if input (node, tag) > 1 then Inl HERMAS_IMAGE_INVALID_TOPOLOGY
        else Inr (et\<lparr>et_join_input := input,
               et_join_input_type := (et_join_input_type et)((node, tag) := ie_target_type e)\<rparr>))
     else if kind = 6 then
       (let input = bump (et_each_input et) node in
        if input node > 1 then Inl HERMAS_IMAGE_INVALID_TOPOLOGY else Inr (et\<lparr>et_each_input := input\<rparr>))
     else if kind = 7 then
       (let collect = bump (et_each_collect et) node in
        if collect node > 1 then Inl HERMAS_IMAGE_INVALID_TOPOLOGY else Inr (et\<lparr>et_each_collect := collect\<rparr>))
     else Inr et)"

text \<open>The node that an edge enters, or leaves, as the reachability loop sees it.\<close>

definition graph_target :: "region_tables \<Rightarrow> image_edge \<Rightarrow> nat" where
  "graph_target rt e =
    (if ie_target_kind e = 6 then unat (rt_each_template rt (unat (ie_target_node e)))
     else if ie_target_kind e = 7 then 0
     else unat (ie_target_node e))"

definition graph_source :: "region_tables \<Rightarrow> image_edge \<Rightarrow> nat" where
  "graph_source rt e =
    (if ie_source_kind e = 8 then 0
     else if ie_source_kind e = 9 then unat (rt_each_template rt (unat (ie_source_node e)))
     else unat (ie_source_node e))"

definition count_source ::
  "region_tables \<Rightarrow> image_edge \<Rightarrow> edge_tables \<Rightarrow> hermas_image_result + edge_tables" where
  "count_source rt e et =
    (let kind = ie_source_kind e; node = unat (ie_source_node e); tag = unat (ie_case_tag e) in
     if kind = 0 then
       Inr (et\<lparr>et_workflow_input := et_workflow_input et + 1,
         et_reachable := (if graph_target rt e \<noteq> 0 then (et_reachable et)(graph_target rt e := True)
                          else et_reachable et)\<rparr>)
     else if kind = 1 then
       Inr (et\<lparr>et_success := bump (et_success et) node,
         et_action_success_type := (et_action_success_type et)(node := ie_source_type e)\<rparr>)
     else if kind = 2 then Inr (et\<lparr>et_error := bump (et_error et) node\<rparr>)
     else if kind = 3 then Inr (et\<lparr>et_not_sent := bump (et_not_sent et) node\<rparr>)
     else if kind = 4 then Inr (et\<lparr>et_unknown := bump (et_unknown et) node\<rparr>)
     else if kind = 5 then
       (let cases = bump (et_dispatch_case et) (node, tag) in
        if cases (node, tag) > 1 then Inl HERMAS_IMAGE_INVALID_TOPOLOGY
        else Inr (et\<lparr>et_dispatch_case := cases\<rparr>))
     else if kind = 6 then
       (let branches = bump (et_fork_branch et) (node, tag) in
        if branches (node, tag) > 1 then Inl HERMAS_IMAGE_INVALID_TOPOLOGY
        else Inr (et\<lparr>et_fork_branch := branches\<rparr>))
     else if kind = 7 then
       (let outputs = bump (et_join_output et) (node, tag) in
        if outputs (node, tag) > 1 then Inl HERMAS_IMAGE_INVALID_TOPOLOGY
        else Inr (et\<lparr>et_join_output := outputs,
               et_join_output_type := (et_join_output_type et)((node, tag) := ie_source_type e)\<rparr>))
     else if kind = 8 then
       (let item = bump (et_each_item et) node in
        if item node > 1 then Inl HERMAS_IMAGE_INVALID_TOPOLOGY else Inr (et\<lparr>et_each_item := item\<rparr>))
     else
       (let output = bump (et_each_output et) node in
        if output node > 1 then Inl HERMAS_IMAGE_INVALID_TOPOLOGY
        else Inr (et\<lparr>et_each_output := output\<rparr>)))"

definition check_edge ::
  "bytes \<Rightarrow> image_header \<Rightarrow> node_tables \<Rightarrow> region_tables \<Rightarrow> nat \<Rightarrow> edge_tables \<Rightarrow>
   hermas_image_result + edge_tables" where
  "check_edge img h nt rt index et =
    (let e = read_edge img h index; kind = ie_source_kind e in
     if \<not> valid_source img h nt rt e \<or> \<not> valid_target img h nt rt e \<or> \<not> valid_presentation e \<or>
        kind \<noteq> 5 \<and> kind \<noteq> 6 \<and> kind \<noteq> 7 \<and> kind \<noteq> 8 \<and> kind \<noteq> 9 \<and>
          ie_target_kind e \<noteq> 5 \<and> ie_case_tag e \<noteq> 0 \<or>
        read_u16 img (ih_edges h + index * HERMAS_EDGE_RECORD_SIZE + 14) \<noteq> 0
     then Inl HERMAS_IMAGE_INVALID_RECORD
     else if list_ex (\<lambda>prior. same_edge e (read_edge img h prior)) [0..<index]
     then Inl HERMAS_IMAGE_DUPLICATE_RECORD
     else case count_target e et of Inl err \<Rightarrow> Inl err | Inr et' \<Rightarrow> count_source rt e et')"

definition check_edges ::
  "bytes \<Rightarrow> image_header \<Rightarrow> node_tables \<Rightarrow> region_tables \<Rightarrow> hermas_image_result + edge_tables" where
  "check_edges img h nt rt =
    (case for_each (check_edge img h nt rt) [0..<ih_edge_count h] no_edges of
       Inl e \<Rightarrow> Inl e
     | Inr et \<Rightarrow>
         if et_workflow_input et \<noteq> 1 then Inl HERMAS_IMAGE_INVALID_TOPOLOGY else Inr et)"

section \<open>Topology\<close>

text \<open>One iteration of the loop over the nodes; each condition's failure is \<open>INVALID_TOPOLOGY\<close>.\<close>

definition node_topology :: "node_tables \<Rightarrow> region_tables \<Rightarrow> edge_tables \<Rightarrow> nat \<Rightarrow> bool" where
  "node_topology nt rt et node \<longleftrightarrow>
     \<not> (nt_action nt node \<and>
        (et_input et node \<noteq> 1 \<or> et_success et node \<noteq> 1 \<or> et_error et node \<noteq> 1 \<or>
         et_not_sent et node \<noteq> 1 \<or> et_unknown et node \<noteq> 1)) \<and>
     \<not> (nt_action nt node \<and> rt_saga_count rt \<noteq> 0 \<and>
        (rt_saga_source_type rt node = 0 \<or> rt_saga_success_type rt node = 0 \<or>
         rt_saga_error_type rt node = 0 \<or>
         rt_saga_source_type rt node \<noteq> et_action_success_type et node)) \<and>
     (nt_dispatch_type nt node \<noteq> 0 \<longrightarrow>
        et_input et node = 1 \<and>
        list_all (\<lambda>tag. et_dispatch_case et (node, tag) = 1) [0..<unat (nt_dispatch_cases nt node)]) \<and>
     (nt_fork_type nt node \<noteq> 0 \<longrightarrow>
        et_input et node = 1 \<and>
        list_all (\<lambda>tag. et_fork_branch et (node, tag) = 1) [0..<unat (nt_fork_branches nt node)]) \<and>
     (nt_join_branches nt node \<noteq> 0 \<longrightarrow>
        list_all (\<lambda>tag. et_join_input et (node, tag) = 1 \<and> \<not> et_join_output et (node, tag) > 1 \<and>
            (et_join_output et (node, tag) = 1 \<longrightarrow>
               et_join_input_type et (node, tag) = et_join_output_type et (node, tag)))
          [0..<unat (nt_join_branches nt node)] \<and>
        sum_list (map (\<lambda>tag. unat (et_join_output et (node, tag)))
          [0..<unat (nt_join_branches nt node)]) \<noteq> 0)"

definition saga_topology :: "image_header \<Rightarrow> node_tables \<Rightarrow> region_tables \<Rightarrow> bool" where
  "saga_topology h nt rt \<longleftrightarrow>
     (rt_saga_count rt \<noteq> 0 \<longrightarrow>
        rt_saga_count rt = length (filter (nt_action nt) [1..<ih_node_count h + 1]) \<and>
        rt_saga_outcome_count rt = rt_saga_count rt)"

definition each_topology :: "region_tables \<Rightarrow> edge_tables \<Rightarrow> bool" where
  "each_topology rt et \<longleftrightarrow>
     list_all (\<lambda>region. et_each_input et region = 1 \<and> et_each_collect et region = 1 \<and>
         et_each_item et region = 1 \<and> et_each_output et region = 1)
       [1..<rt_each_count rt + 1]"

section \<open>Reachability\<close>

text \<open>One edge of a pass: the state is the set of reachable nodes and whether it changed.\<close>

definition reach_edge ::
  "region_tables \<Rightarrow> image_edge \<Rightarrow> (nat \<Rightarrow> bool) \<times> bool \<Rightarrow> (nat \<Rightarrow> bool) \<times> bool" where
  "reach_edge rt e = (\<lambda>(reachable, changed).
     if ie_source_kind e \<noteq> 0 \<and> graph_source rt e \<noteq> 0 \<and> graph_target rt e \<noteq> 0 \<and>
        reachable (graph_source rt e) \<and> \<not> reachable (graph_target rt e)
     then (reachable(graph_target rt e := True), True)
     else (reachable, changed))"

definition reach_pass :: "region_tables \<Rightarrow> image_edge list \<Rightarrow> (nat \<Rightarrow> bool) \<Rightarrow> (nat \<Rightarrow> bool) \<times> bool" where
  "reach_pass rt es reachable = foldl (\<lambda>s e. reach_edge rt e s) (reachable, False) es"

text \<open>The loop over the passes, with the number of passes left.\<close>

fun reach_passes :: "nat \<Rightarrow> region_tables \<Rightarrow> image_edge list \<Rightarrow> (nat \<Rightarrow> bool) \<Rightarrow> (nat \<Rightarrow> bool)" where
  "reach_passes 0 rt es reachable = reachable"
| "reach_passes (Suc n) rt es reachable =
    (case reach_pass rt es reachable of
       (reachable', changed) \<Rightarrow>
         if \<not> changed then reachable' else reach_passes n rt es reachable')"

definition image_edges :: "bytes \<Rightarrow> image_header \<Rightarrow> image_edge list" where
  "image_edges img h = map (read_edge img h) [0..<ih_edge_count h]"

definition all_reachable ::
  "bytes \<Rightarrow> image_header \<Rightarrow> region_tables \<Rightarrow> edge_tables \<Rightarrow> bool" where
  "all_reachable img h rt et =
    (let reachable = reach_passes (ih_node_count h) rt (image_edges img h) (et_reachable et)
     in list_all reachable [1..<ih_node_count h + 1])"

section \<open>The whole function\<close>

record hermas_image_summary =
  is_workflow_name :: bytes
  is_workflow_name_length :: u16
  is_input_type :: u16
  is_success_type :: u16
  is_error_count :: u16
  is_action_contract_count :: u16
  is_type_count :: u16
  is_node_count :: u16
  is_edge_count :: u16

text \<open>\<open>workflow_name\<close> is a pointer into the image; it is modelled by the bytes it points to.\<close>

definition image_summary :: "bytes \<Rightarrow> image_header \<Rightarrow> hermas_image_summary" where
  "image_summary img h =
    \<lparr>is_workflow_name = chunk img (ih_name_offset h) (ih_name_length h),
     is_workflow_name_length = of_nat (ih_name_length h),
     is_input_type = ih_input_type h, is_success_type = ih_success_type h,
     is_error_count = of_nat (ih_error_count h),
     is_action_contract_count = of_nat (ih_contract_count h),
     is_type_count = of_nat (ih_type_count h), is_node_count = of_nat (ih_node_count h),
     is_edge_count = of_nat (ih_edge_count h)\<rparr>"

definition image_check ::
  "bytes \<Rightarrow> nat \<Rightarrow>
   hermas_image_result + image_header \<times> node_tables \<times> region_tables \<times> edge_tables" where
  "image_check img image_size =
    (case check_header img image_size of Inl e \<Rightarrow> Inl e | Inr h \<Rightarrow>
     if \<not> offsets_valid image_size h then Inl HERMAS_IMAGE_INVALID_OFFSET
     else if \<not> name_valid img h then Inl HERMAS_IMAGE_INVALID_STRING
     else case check_errors img h of Inl e \<Rightarrow> Inl e | Inr _ \<Rightarrow>
     case check_contracts img h of Inl e \<Rightarrow> Inl e | Inr _ \<Rightarrow>
     case check_types img h of Inl e \<Rightarrow> Inl e | Inr _ \<Rightarrow>
     case check_nodes img h of Inl e \<Rightarrow> Inl e | Inr nt \<Rightarrow>
     case check_regions img h nt of Inl e \<Rightarrow> Inl e | Inr rt \<Rightarrow>
     case check_edges img h nt rt of Inl e \<Rightarrow> Inl e | Inr et \<Rightarrow>
     if \<not> list_all (node_topology nt rt et) [1..<ih_node_count h + 1]
     then Inl HERMAS_IMAGE_INVALID_TOPOLOGY
     else if \<not> saga_topology h nt rt then Inl HERMAS_IMAGE_INVALID_TOPOLOGY
     else if \<not> each_topology rt et then Inl HERMAS_IMAGE_INVALID_TOPOLOGY
     else if \<not> all_reachable img h rt et then Inl HERMAS_IMAGE_INVALID_TOPOLOGY
     else Inr (h, nt, rt, et))"

definition hermas_image_validate ::
  "bytes option \<Rightarrow> nat \<Rightarrow> hermas_image_summary option \<Rightarrow>
   hermas_image_result \<times> hermas_image_summary option" where
  "hermas_image_validate bs image_size summary =
    (case bs of
       None \<Rightarrow> (HERMAS_IMAGE_TRUNCATED, summary)
     | Some img \<Rightarrow>
         (case image_check img image_size of
            Inl e \<Rightarrow> (e, summary)
          | Inr (h, _) \<Rightarrow>
              (HERMAS_IMAGE_OK, case summary of None \<Rightarrow> None | Some _ \<Rightarrow> Some (image_summary img h))))"

end
