(* ===== verification/Hermas_Image_Queries.thy ===== *)
theory Hermas_Image_Queries
  imports Hermas_Image_Validate
begin

text \<open>
  The queries of image.c, each of which validates the whole image first: required features, the
  outer representation of a type, Action fingerprints and contracts, the check of a payload against
  a type, and the items of a list payload. Output parameters are options (\<open>None\<close> is a null
  pointer) returned with the result code.
\<close>

section \<open>Features\<close>

definition HERMAS_GRAPH_FEATURE_ACTION :: u32 where "HERMAS_GRAPH_FEATURE_ACTION = push_bit 0 1"
definition HERMAS_GRAPH_FEATURE_MATCH :: u32 where "HERMAS_GRAPH_FEATURE_MATCH = push_bit 1 1"
definition HERMAS_GRAPH_FEATURE_WITHIN :: u32 where "HERMAS_GRAPH_FEATURE_WITHIN = push_bit 2 1"
definition HERMAS_GRAPH_FEATURE_SAGA :: u32 where "HERMAS_GRAPH_FEATURE_SAGA = push_bit 3 1"
definition HERMAS_GRAPH_FEATURE_ALL :: u32 where "HERMAS_GRAPH_FEATURE_ALL = push_bit 4 1"
definition HERMAS_GRAPH_FEATURE_EACH :: u32 where "HERMAS_GRAPH_FEATURE_EACH = push_bit 5 1"

definition node_feature :: "u8 \<Rightarrow> u32" where
  "node_feature kind =
    (if kind = 1 then HERMAS_GRAPH_FEATURE_ACTION
     else if kind = 3 then HERMAS_GRAPH_FEATURE_MATCH
     else if kind = 4 \<or> kind = 5 then HERMAS_GRAPH_FEATURE_ALL
     else 0)"

definition region_feature :: "u8 \<Rightarrow> u32" where
  "region_feature kind =
    (if kind = 1 then HERMAS_GRAPH_FEATURE_WITHIN
     else if kind = 2 then HERMAS_GRAPH_FEATURE_EACH
     else if kind = 3 \<or> kind = 4 then HERMAS_GRAPH_FEATURE_SAGA
     else 0)"

definition required_features :: "bytes \<Rightarrow> u32" where
  "required_features img =
    (let node_count = unat (read_u16 img 30); nodes = unat (read_u32 img 48);
         region_count = unat (read_u16 img 68); regions = unat (read_u32 img 72);
         of_nodes = foldl (\<lambda>required index.
           required OR node_feature (img ! (nodes + index * HERMAS_NODE_RECORD_SIZE)))
           0 [0..<node_count]
     in foldl (\<lambda>required index.
          required OR region_feature (img ! (regions + index * HERMAS_REGION_RECORD_SIZE)))
          of_nodes [0..<region_count])"

definition hermas_image_features ::
  "bytes option \<Rightarrow> nat \<Rightarrow> u32 option \<Rightarrow> hermas_image_result \<times> u32 option" where
  "hermas_image_features bs image_size features =
    (case features of
       None \<Rightarrow> (HERMAS_IMAGE_INVALID_VALUE, None)
     | Some old \<Rightarrow>
         (case hermas_image_validate bs image_size None of
            (validated, _) \<Rightarrow>
              if validated \<noteq> HERMAS_IMAGE_OK then (validated, Some old)
              else (HERMAS_IMAGE_OK, map_option required_features bs)))"

section \<open>Types\<close>

record hermas_image_type_summary =
  it_kind :: u8
  it_bound :: u32

definition hermas_image_describe_type ::
  "bytes option \<Rightarrow> nat \<Rightarrow> u16 \<Rightarrow> hermas_image_type_summary option \<Rightarrow>
   hermas_image_result \<times> hermas_image_type_summary option" where
  "hermas_image_describe_type bs image_size type_id summary =
    (case summary of
       None \<Rightarrow> (HERMAS_IMAGE_INVALID_VALUE, None)
     | Some old \<Rightarrow>
         (case (fst (hermas_image_validate bs image_size None), bs) of
            (HERMAS_IMAGE_OK, Some img) \<Rightarrow>
              (case type_descriptor img (unat (read_u32 img 44)) (unat (read_u16 img 34))
                      (unat (read_u32 img 60)) type_id of
                 None \<Rightarrow> (HERMAS_IMAGE_INVALID_VALUE, Some old)
               | Some (descriptor, descriptor_end) \<Rightarrow>
                   (HERMAS_IMAGE_OK,
                    Some \<lparr>it_kind = img ! descriptor, it_bound = read_u32 img (descriptor + 4)\<rparr>))
          | (validated, _) \<Rightarrow> (validated, Some old)))"

section \<open>Action contracts\<close>

definition hermas_image_action_fingerprint ::
  "bytes option \<Rightarrow> nat \<Rightarrow> u16 \<Rightarrow> u16 \<Rightarrow> bytes option \<Rightarrow> hermas_image_result \<times> bytes option" where
  "hermas_image_action_fingerprint bs image_size app_id action_id fingerprint =
    (if app_id = 0 \<or> action_id = 0 \<or> fingerprint = None
     then (HERMAS_IMAGE_INVALID_VALUE, fingerprint)
     else case (fst (hermas_image_validate bs image_size None), bs) of
         (HERMAS_IMAGE_OK, Some img) \<Rightarrow>
           (let contracts = unat (read_u32 img 40); count = unat (read_u16 img 28) in
            case first_index (\<lambda>index.
                   let rec = contracts + index * HERMAS_ACTION_CONTRACT_RECORD_SIZE
                   in read_u16 img rec = app_id \<and> read_u16 img (rec + 2) = action_id) count of
              None \<Rightarrow> (HERMAS_IMAGE_ACTION_NOT_FOUND, fingerprint)
            | Some index \<Rightarrow>
                (HERMAS_IMAGE_OK,
                 Some (chunk img (contracts + index * HERMAS_ACTION_CONTRACT_RECORD_SIZE + 4) 32)))
       | (validated, _) \<Rightarrow> (validated, fingerprint))"

record hermas_image_action_contract =
  ac_app_id :: u16
  ac_action_id :: u16
  ac_input_type :: u16
  ac_success_type :: u16
  ac_error_type :: u16
  ac_fingerprint :: bytes

definition no_contract :: hermas_image_action_contract where
  "no_contract =
    \<lparr>ac_app_id = 0, ac_action_id = 0, ac_input_type = 0, ac_success_type = 0, ac_error_type = 0,
     ac_fingerprint = replicate 32 0\<rparr>"

text \<open>\<open>None\<close> when the slot holds another type already, or the type is missing.\<close>

definition assign_contract_type :: "u16 \<Rightarrow> u16 \<Rightarrow> u16 option" where
  "assign_contract_type slot v =
    (if v = 0 then None else if slot = 0 then Some v else if slot = v then Some slot else None)"

definition assign_contract_types ::
  "hermas_image_action_contract \<Rightarrow> u16 \<Rightarrow> u16 \<Rightarrow> u16 \<Rightarrow>
   hermas_image_result + hermas_image_action_contract" where
  "assign_contract_types found input success error =
    (case assign_contract_type (ac_input_type found) input of
       None \<Rightarrow> Inl HERMAS_IMAGE_INVALID_TOPOLOGY
     | Some input' \<Rightarrow>
         (case assign_contract_type (ac_success_type found) success of
            None \<Rightarrow> Inl HERMAS_IMAGE_INVALID_TOPOLOGY
          | Some success' \<Rightarrow>
              (case assign_contract_type (ac_error_type found) error of
                 None \<Rightarrow> Inl HERMAS_IMAGE_INVALID_TOPOLOGY
               | Some error' \<Rightarrow>
                   Inr (found\<lparr>ac_input_type := input', ac_success_type := success',
                          ac_error_type := error'\<rparr>))))"

text \<open>The contract record with the fingerprint; a second one is refused.\<close>

definition match_contract ::
  "bytes \<Rightarrow> nat \<Rightarrow> bytes \<Rightarrow> nat \<Rightarrow> hermas_image_action_contract option \<Rightarrow>
   hermas_image_result + hermas_image_action_contract option" where
  "match_contract img contracts fingerprint index found =
    (let rec = contracts + index * HERMAS_ACTION_CONTRACT_RECORD_SIZE in
     if chunk img (rec + 4) 32 \<noteq> fingerprint then Inr found
     else if found \<noteq> None then Inl HERMAS_IMAGE_INVALID_RECORD
     else Inr (Some (no_contract\<lparr>ac_app_id := read_u16 img rec,
            ac_action_id := read_u16 img (rec + 2), ac_fingerprint := fingerprint\<rparr>)))"

text \<open>The port types of a node that runs the Action, read off its edges.\<close>

definition node_ports :: "bytes \<Rightarrow> nat \<Rightarrow> u16 \<Rightarrow> u16 \<times> u16 \<times> u16 \<Rightarrow> nat \<Rightarrow> u16 \<times> u16 \<times> u16" where
  "node_ports img edges node = (\<lambda>(input, success, error) edge_index.
     let edge = edges + edge_index * HERMAS_EDGE_RECORD_SIZE;
         input' = (if img ! (edge + 1) = 1 \<and> read_u16 img (edge + 6) = node
                   then read_u16 img (edge + 10) else input);
         source = read_u16 img (edge + 4) = node;
         success' = (if source \<and> img ! edge = 1 then read_u16 img (edge + 8) else success);
         error' = (if source \<and> img ! edge \<noteq> 1 \<and> img ! edge = 2 then read_u16 img (edge + 8) else error)
     in (input', success', error'))"

definition contract_node ::
  "bytes \<Rightarrow> nat \<Rightarrow> hermas_image_action_contract \<Rightarrow> hermas_image_result + hermas_image_action_contract" where
  "contract_node img index found =
    (let nodes = unat (read_u32 img 48); edges = unat (read_u32 img 52);
         node_record = nodes + index * HERMAS_NODE_RECORD_SIZE
     in if img ! node_record \<noteq> 1 \<or> read_u16 img (node_record + 2) \<noteq> ac_action_id found \<or>
           read_u16 img (node_record + 4) \<noteq> ac_app_id found
        then Inr found
        else
          let node = of_nat (index + 1)
          in case foldl (node_ports img edges node) (0, 0, 0) [0..<unat (read_u16 img 32)] of
               (input, success, error) \<Rightarrow> assign_contract_types found input success error)"

definition contract_region ::
  "bytes \<Rightarrow> nat \<Rightarrow> hermas_image_action_contract \<Rightarrow> hermas_image_result + hermas_image_action_contract" where
  "contract_region img index found =
    (let region_count = unat (read_u16 img 68); regions = unat (read_u32 img 72);
         region = regions + index * HERMAS_REGION_RECORD_SIZE
     in if img ! region \<noteq> 3 \<or> read_u16 img (region + 4) \<noteq> ac_app_id found \<or>
           read_u16 img (region + 6) \<noteq> ac_action_id found
        then Inr found
        else
          let forward = read_u16 img (region + 2);
              (success, error) =
                (case first_index (\<lambda>outcome_index.
                        let outcome = regions + outcome_index * HERMAS_REGION_RECORD_SIZE
                        in img ! outcome = 4 \<and> read_u16 img (outcome + 2) = forward) region_count of
                   None \<Rightarrow> (0, 0)
                 | Some outcome_index \<Rightarrow>
                     (let outcome = regions + outcome_index * HERMAS_REGION_RECORD_SIZE
                      in (read_u16 img (outcome + 4), read_u16 img (outcome + 6))))
          in assign_contract_types found (read_u16 img (region + 10)) success error)"

definition find_contract ::
  "bytes \<Rightarrow> bytes \<Rightarrow> hermas_image_result + hermas_image_action_contract" where
  "find_contract img fingerprint =
    (case for_each (match_contract img (unat (read_u32 img 40)) fingerprint)
            [0..<unat (read_u16 img 28)] None of
       Inl e \<Rightarrow> Inl e
     | Inr None \<Rightarrow> Inl HERMAS_IMAGE_ACTION_NOT_FOUND
     | Inr (Some found) \<Rightarrow>
         (case for_each (contract_node img) [0..<unat (read_u16 img 30)] found of
            Inl e \<Rightarrow> Inl e
          | Inr found' \<Rightarrow>
              (case for_each (contract_region img) [0..<unat (read_u16 img 68)] found' of
                 Inl e \<Rightarrow> Inl e
               | Inr result \<Rightarrow>
                   if ac_input_type result = 0 \<or> ac_success_type result = 0 \<or>
                      ac_error_type result = 0
                   then Inl HERMAS_IMAGE_INVALID_TOPOLOGY
                   else Inr result)))"

definition hermas_image_find_action_contract ::
  "bytes option \<Rightarrow> nat \<Rightarrow> bytes option \<Rightarrow> hermas_image_action_contract option \<Rightarrow>
   hermas_image_result \<times> hermas_image_action_contract option" where
  "hermas_image_find_action_contract bs image_size fingerprint contract =
    (case (fingerprint, contract) of
       (Some f, Some old) \<Rightarrow>
         (case (fst (hermas_image_validate bs image_size None), bs) of
            (HERMAS_IMAGE_OK, Some img) \<Rightarrow>
              (case find_contract img f of
                 Inl e \<Rightarrow> (e, Some old)
               | Inr found \<Rightarrow> (HERMAS_IMAGE_OK, Some found))
          | (validated, _) \<Rightarrow> (validated, Some old))
     | _ \<Rightarrow> (HERMAS_IMAGE_INVALID_VALUE, contract))"

section \<open>Values\<close>

definition payload_bytes :: "bytes option \<Rightarrow> bytes" where
  "payload_bytes payload = (case payload of None \<Rightarrow> [] | Some bs \<Rightarrow> bs)"

definition value_conforms :: "bytes \<Rightarrow> u16 \<Rightarrow> bytes \<Rightarrow> nat \<Rightarrow> hermas_image_result" where
  "value_conforms img type_id payload payload_size =
    (let types_offset = unat (read_u32 img 44) in
     case first_index (\<lambda>index.
            read_u16 img (types_offset + index * HERMAS_TYPE_RECORD_SIZE) = type_id)
            (unat (read_u16 img 34)) of
       None \<Rightarrow> HERMAS_IMAGE_INVALID_VALUE
     | Some index \<Rightarrow>
         (case validate_value_inner img (unat (read_u32 img 60))
                 (unat (read_u32 img (types_offset + index * HERMAS_TYPE_RECORD_SIZE + 4)))
                 payload payload_size 0 0 of
            Inl _ \<Rightarrow> HERMAS_IMAGE_INVALID_VALUE
          | Inr (_, payload_cursor) \<Rightarrow>
              if payload_cursor = payload_size then HERMAS_IMAGE_OK
              else HERMAS_IMAGE_INVALID_VALUE))"

definition hermas_image_validate_value ::
  "bytes option \<Rightarrow> nat \<Rightarrow> u16 \<Rightarrow> bytes option \<Rightarrow> nat \<Rightarrow> hermas_image_result" where
  "hermas_image_validate_value bs image_size type_id payload payload_size =
    (if payload = None \<and> payload_size \<noteq> 0 then HERMAS_IMAGE_INVALID_VALUE
     else case (fst (hermas_image_validate bs image_size None), bs) of
         (HERMAS_IMAGE_OK, Some img) \<Rightarrow>
           value_conforms img type_id (payload_bytes payload) payload_size
       | _ \<Rightarrow> HERMAS_IMAGE_INVALID_VALUE)"

text \<open>
  The items of a list payload: the loop's state is the payload cursor and the two item arrays. A
  failing iteration leaves what the earlier ones wrote to the arrays, so \<open>Inl\<close> carries them.
\<close>

definition list_item_step ::
  "bytes \<Rightarrow> nat \<Rightarrow> nat \<Rightarrow> nat \<Rightarrow> bytes \<Rightarrow> nat \<Rightarrow> nat \<Rightarrow> nat \<times> nat list \<times> nat list \<Rightarrow>
   nat list \<times> nat list + nat \<times> nat list \<times> nat list" where
  "list_item_step img descriptor_end child_start child_end payload payload_size index =
    (\<lambda>(payload_cursor, item_offsets, item_lengths).
       case validate_value_inner img descriptor_end child_start payload payload_size payload_cursor 1 of
         Inl _ \<Rightarrow> Inl (item_offsets, item_lengths)
       | Inr (child_cursor, payload_cursor') \<Rightarrow>
           if child_cursor \<noteq> child_end then Inl (item_offsets, item_lengths)
           else Inr (payload_cursor', item_offsets[index := payload_cursor],
                  item_lengths[index := payload_cursor' - payload_cursor]))"

definition list_items ::
  "bytes \<Rightarrow> u16 \<Rightarrow> bytes \<Rightarrow> nat \<Rightarrow> nat list \<Rightarrow> nat list \<Rightarrow> nat \<Rightarrow>
   nat list \<times> nat list + u16 \<times> nat list \<times> nat list" where
  "list_items img type_id payload payload_size item_offsets item_lengths item_capacity =
    (case type_descriptor img (unat (read_u32 img 44)) (unat (read_u16 img 34))
            (unat (read_u32 img 60)) type_id of
       None \<Rightarrow> Inl (item_offsets, item_lengths)
     | Some (descriptor, descriptor_end) \<Rightarrow>
         if img ! descriptor \<noteq> 7 then Inl (item_offsets, item_lengths)
         else
           let count = read_u32 payload 0 in
           if read_u32 payload 4 \<noteq> 0 \<or> count > read_u32 img (descriptor + 4) \<or>
              unat count > item_capacity \<or> unat count > 65535
           then Inl (item_offsets, item_lengths)
           else
             let child_start = descriptor + 8 in
             case validate_representation img descriptor_end child_start 1 of
               Inl _ \<Rightarrow> Inl (item_offsets, item_lengths)
             | Inr child_end \<Rightarrow>
                 (case for_each (list_item_step img descriptor_end child_start child_end
                         payload payload_size) [0..<unat count] (8, item_offsets, item_lengths) of
                    Inl arrays \<Rightarrow> Inl arrays
                  | Inr (payload_cursor, offsets, lengths) \<Rightarrow>
                      if payload_cursor \<noteq> payload_size then Inl (offsets, lengths)
                      else Inr (ucast count, offsets, lengths)))"

text \<open>The output parameters are non-null here: the runtime passes arrays of its own.\<close>

definition hermas_image_list_items ::
  "bytes option \<Rightarrow> nat \<Rightarrow> u16 \<Rightarrow> bytes option \<Rightarrow> nat \<Rightarrow> u16 \<Rightarrow> nat list \<Rightarrow> nat list \<Rightarrow> nat \<Rightarrow>
   hermas_image_result \<times> u16 \<times> nat list \<times> nat list" where
  "hermas_image_list_items bs image_size type_id payload payload_size item_count item_offsets
     item_lengths item_capacity =
    (case (bs, payload) of
       (Some img, Some data) \<Rightarrow>
         if fst (hermas_image_validate bs image_size None) \<noteq> HERMAS_IMAGE_OK \<or> payload_size < 8
         then (HERMAS_IMAGE_INVALID_VALUE, item_count, item_offsets, item_lengths)
         else (case list_items img type_id data payload_size item_offsets item_lengths item_capacity of
             Inl (offsets, lengths) \<Rightarrow> (HERMAS_IMAGE_INVALID_VALUE, item_count, offsets, lengths)
           | Inr (count, offsets, lengths) \<Rightarrow> (HERMAS_IMAGE_OK, count, offsets, lengths))
     | _ \<Rightarrow> (HERMAS_IMAGE_INVALID_VALUE, item_count, item_offsets, item_lengths))"

end
