(* ===== verification/Hermas_Runtime.thy ===== *)
theory Hermas_Runtime
  imports Hermas_Image_Queries Hermas_Protocol
begin

text \<open>
  The sequential runtime of runtime.c: one execution that walks a graph image, one delivery at a
  time. The execution is a record; every operation returns its result code with the execution as the
  operation leaves it. A null pointer is \<open>None\<close>. The value buffer is the caller's memory;
  a frame that points into it carries the bytes it points to.
\<close>

section \<open>State\<close>

datatype hermas_execution_state =
    HERMAS_EXECUTION_EMPTY
  | HERMAS_EXECUTION_READY
  | HERMAS_EXECUTION_PREPARED
  | HERMAS_EXECUTION_SENT
  | HERMAS_EXECUTION_COMPLETE
  | HERMAS_EXECUTION_WAITING

datatype hermas_runtime_result =
    HERMAS_RUNTIME_OK
  | HERMAS_RUNTIME_INVALID_ARGUMENT
  | HERMAS_RUNTIME_INVALID_IMAGE
  | HERMAS_RUNTIME_INVALID_VALUE
  | HERMAS_RUNTIME_BUFFER_TOO_SMALL
  | HERMAS_RUNTIME_INVALID_STATE
  | HERMAS_RUNTIME_UNEXPECTED_RESULT
  | HERMAS_RUNTIME_REQUEST_ID_EXHAUSTED

record hermas_execution =
  ex_image :: bytes
  ex_image_size :: nat
  ex_value_buffer :: "bytes option"
  ex_value_capacity :: nat
  ex_value_length :: nat
  ex_execution_id :: u64
  ex_request_id :: u64
  ex_current_node :: u16
  ex_value_source_type :: u16
  ex_value_destination_type :: u16
  ex_terminal_outcome :: u16
  ex_state :: hermas_execution_state

section \<open>The image, as the runtime reads it\<close>

text \<open>The record of a node; \<open>node\<close> is one-based.\<close>

definition node_record :: "bytes \<Rightarrow> u16 \<Rightarrow> nat" where
  "node_record img node = unat (read_u32 img 48) + unat node * HERMAS_NODE_RECORD_SIZE - HERMAS_NODE_RECORD_SIZE"

definition node_offset :: "hermas_execution \<Rightarrow> u16 \<Rightarrow> nat" where
  "node_offset e node = node_record (ex_image e) node"

text \<open>The offset of the first edge record that satisfies a condition.\<close>

definition first_edge :: "bytes \<Rightarrow> (nat \<Rightarrow> bool) \<Rightarrow> nat option" where
  "first_edge img matches =
    (let edges = unat (read_u16 img 32); base = unat (read_u32 img 52) in
     map_option (\<lambda>index. base + index * HERMAS_EDGE_RECORD_SIZE)
       (first_index (\<lambda>index. matches (base + index * HERMAS_EDGE_RECORD_SIZE)) edges))"

definition find_edge :: "hermas_execution \<Rightarrow> u8 \<Rightarrow> u16 \<Rightarrow> nat option" where
  "find_edge e source_kind source_node =
     first_edge (ex_image e) (\<lambda>offset.
       ex_image e ! offset = source_kind \<and> read_u16 (ex_image e) (offset + 4) = source_node)"

definition find_case_edge :: "hermas_execution \<Rightarrow> u16 \<Rightarrow> u8 \<Rightarrow> nat option" where
  "find_case_edge e source_node case_tag =
     first_edge (ex_image e) (\<lambda>offset.
       ex_image e ! offset = 5 \<and> read_u16 (ex_image e) (offset + 4) = source_node \<and>
       ex_image e ! (offset + 3) = case_tag)"

section \<open>Values and edges\<close>

definition copy_value ::
  "hermas_execution \<Rightarrow> bytes option \<Rightarrow> nat \<Rightarrow> hermas_runtime_result \<times> hermas_execution" where
  "copy_value e v value_length =
    (if value_length > ex_value_capacity e then (HERMAS_RUNTIME_BUFFER_TOO_SMALL, e)
     else if value_length = 0 then (HERMAS_RUNTIME_OK, e\<lparr>ex_value_length := 0\<rparr>)
     else case (v, ex_value_buffer e) of
         (Some bs, Some buffer) \<Rightarrow>
           (HERMAS_RUNTIME_OK,
            e\<lparr>ex_value_buffer := Some (write_bytes buffer 0 (take value_length bs)),
              ex_value_length := value_length\<rparr>)
       | _ \<Rightarrow> (HERMAS_RUNTIME_INVALID_ARGUMENT, e))"

text \<open>Dropping the first \<open>n\<close> bytes of a value in place: \<open>memmove(buffer, buffer + n, length - n)\<close>.\<close>

definition shift_value :: "nat \<Rightarrow> nat \<Rightarrow> bytes option \<Rightarrow> bytes option" where
  "shift_value n value_length buffer =
     map_option (\<lambda>bs. write_bytes bs 0 (chunk bs n (value_length - n))) buffer"

text \<open>
  \<open>enter_edge\<close> and \<open>route_dispatch\<close> call each other; a dispatch removes the eight bytes of the
  variant tag from the value, so the calls end.
\<close>

function enter_edge ::
    "hermas_execution \<Rightarrow> nat \<Rightarrow> u16 \<Rightarrow> hermas_runtime_result \<times> hermas_execution"
  and route_dispatch ::
    "hermas_execution \<Rightarrow> u16 \<Rightarrow> hermas_runtime_result \<times> hermas_execution" where
  "enter_edge e edge_offset terminal_outcome =
    (let target_kind = ex_image e ! (edge_offset + 1);
         e = e\<lparr>ex_value_source_type := read_u16 (ex_image e) (edge_offset + 8),
               ex_value_destination_type := read_u16 (ex_image e) (edge_offset + 10),
               ex_current_node := read_u16 (ex_image e) (edge_offset + 6)\<rparr>
     in if target_kind = 1 then (HERMAS_RUNTIME_OK, e\<lparr>ex_state := HERMAS_EXECUTION_READY\<rparr>)
        else if target_kind = 3 then route_dispatch e terminal_outcome
        else (HERMAS_RUNTIME_OK,
              e\<lparr>ex_terminal_outcome := terminal_outcome, ex_state := HERMAS_EXECUTION_COMPLETE\<rparr>))"
| "route_dispatch e terminal_outcome =
    (if ex_value_length e < 8 then (HERMAS_RUNTIME_INVALID_VALUE, e)
     else
       let buffer = payload_bytes (ex_value_buffer e);
           tag = read_u32 buffer 0;
           reserved = read_u32 buffer 4
       in if reserved \<noteq> 0 \<or> tag > 255 then (HERMAS_RUNTIME_INVALID_VALUE, e)
          else case find_case_edge e (ex_current_node e) (ucast tag) of
              None \<Rightarrow> (HERMAS_RUNTIME_INVALID_IMAGE, e)
            | Some edge \<Rightarrow>
                let e' = e\<lparr>ex_value_buffer := shift_value 8 (ex_value_length e) (ex_value_buffer e),
                           ex_value_length := ex_value_length e - 8\<rparr>;
                    payload_type = read_u16 (ex_image e') (edge + 8)
                in if hermas_image_validate_value (Some (ex_image e')) (ex_image_size e') payload_type
                        (ex_value_buffer e') (ex_value_length e') \<noteq> HERMAS_IMAGE_OK
                   then (HERMAS_RUNTIME_INVALID_VALUE, e')
                   else enter_edge e' edge terminal_outcome)"
  by pat_completeness auto
termination
  by (relation "measure (\<lambda>c. case c of Inl (e, _, _) \<Rightarrow> 2 * ex_value_length e + 1
      | Inr (e, _) \<Rightarrow> 2 * ex_value_length e)") auto

declare enter_edge.simps [simp del] route_dispatch.simps [simp del]

definition finish_delivery_outcome ::
  "hermas_execution option \<Rightarrow> hermas_execution_state \<Rightarrow> u8 \<Rightarrow> u16 \<Rightarrow>
   hermas_runtime_result \<times> hermas_execution option" where
  "finish_delivery_outcome execution required_state source_kind outcome =
    (case execution of
       None \<Rightarrow> (HERMAS_RUNTIME_INVALID_STATE, None)
     | Some e \<Rightarrow>
         if ex_state e \<noteq> required_state then (HERMAS_RUNTIME_INVALID_STATE, Some e)
         else case find_edge e source_kind (ex_current_node e) of
             None \<Rightarrow> (HERMAS_RUNTIME_INVALID_IMAGE, Some e)
           | Some edge_offset \<Rightarrow>
               map_prod id Some (enter_edge (e\<lparr>ex_value_length := 0\<rparr>) edge_offset outcome))"

section \<open>Operations\<close>

definition fresh_execution ::
  "bytes \<Rightarrow> nat \<Rightarrow> u64 \<Rightarrow> bytes option \<Rightarrow> nat \<Rightarrow> hermas_execution" where
  "fresh_execution img image_size execution_id value_buffer value_capacity =
    \<lparr>ex_image = img, ex_image_size = image_size, ex_value_buffer = value_buffer,
     ex_value_capacity = value_capacity, ex_value_length = 0, ex_execution_id = execution_id,
     ex_request_id = 1, ex_current_node = 0, ex_value_source_type = 0, ex_value_destination_type = 0,
     ex_terminal_outcome = 0, ex_state = HERMAS_EXECUTION_EMPTY\<rparr>"

text \<open>The uninitialised summary that the validator fills in; no code reads it before that.\<close>

definition no_summary :: hermas_image_summary where
  "no_summary =
    \<lparr>is_workflow_name = [], is_workflow_name_length = 0, is_input_type = 0, is_success_type = 0,
     is_error_count = 0, is_action_contract_count = 0, is_type_count = 0, is_node_count = 0,
     is_edge_count = 0\<rparr>"

text \<open>
  The checks of \<open>hermas_execution_start\<close> before it enters the workflow; the root edge must enter an
  Action. The result code of the final \<open>enter_edge\<close> is not looked at.
\<close>

definition execution_admit ::
  "bytes \<Rightarrow> nat \<Rightarrow> u64 \<Rightarrow> bytes option \<Rightarrow> nat \<Rightarrow> u16 \<Rightarrow> bytes option \<Rightarrow> nat \<Rightarrow>
   hermas_runtime_result + hermas_execution" where
  "execution_admit img image_size execution_id value_buffer value_capacity input_type input input_length =
    (case hermas_image_validate (Some img) image_size (Some no_summary) of
       (HERMAS_IMAGE_OK, Some summary) \<Rightarrow>
         if input_type \<noteq> is_input_type summary \<or>
            hermas_image_validate_value (Some img) image_size input_type input input_length \<noteq>
              HERMAS_IMAGE_OK
         then Inl HERMAS_RUNTIME_INVALID_VALUE
         else
           (case copy_value (fresh_execution img image_size execution_id value_buffer value_capacity)
                   input input_length of
              (copied, fresh) \<Rightarrow>
                if copied \<noteq> HERMAS_RUNTIME_OK then Inl copied
                else (case find_edge fresh 0 0 of
                    None \<Rightarrow> Inl HERMAS_RUNTIME_INVALID_IMAGE
                  | Some root \<Rightarrow>
                      if img ! (root + 1) \<noteq> 1 then Inl HERMAS_RUNTIME_INVALID_IMAGE
                      else Inr (snd (enter_edge fresh root HERMAS_OUTCOME_NONE))))
     | _ \<Rightarrow> Inl HERMAS_RUNTIME_INVALID_IMAGE)"

definition hermas_execution_start ::
  "hermas_execution option \<Rightarrow> bytes option \<Rightarrow> nat \<Rightarrow> u64 \<Rightarrow> bytes option \<Rightarrow> nat \<Rightarrow> u16 \<Rightarrow>
   bytes option \<Rightarrow> nat \<Rightarrow> hermas_runtime_result \<times> hermas_execution option" where
  "hermas_execution_start execution bs image_size execution_id value_buffer value_capacity input_type
     input input_length =
    (case (execution, bs) of
       (Some old, Some img) \<Rightarrow>
         if execution_id = 0 \<or> input_type = 0 \<or> input_length \<noteq> 0 \<and> input = None \<or>
            value_capacity \<noteq> 0 \<and> value_buffer = None \<or>
            input_length > HERMAS_PROTOCOL_MAX_PAYLOAD_SIZE
         then (HERMAS_RUNTIME_INVALID_ARGUMENT, execution)
         else (case execution_admit img image_size execution_id value_buffer value_capacity input_type
                   input input_length of
             Inl error \<Rightarrow> (error, execution)
           | Inr fresh \<Rightarrow> (HERMAS_RUNTIME_OK, Some fresh))
     | _ \<Rightarrow> (HERMAS_RUNTIME_INVALID_ARGUMENT, execution))"

definition invocation_frame :: "hermas_execution \<Rightarrow> nat \<Rightarrow> hermas_frame" where
  "invocation_frame e offset =
    \<lparr>fr_kind = HERMAS_FRAME_INVOKE, fr_execution_id = ex_execution_id e,
     fr_request_id = ex_request_id e, fr_app_id = read_u16 (ex_image e) (offset + 4),
     fr_action_id = read_u16 (ex_image e) (offset + 2), fr_source_type = ex_value_source_type e,
     fr_destination_type = ex_value_destination_type e, fr_outcome = HERMAS_OUTCOME_NONE,
     fr_payload = ex_value_buffer e, fr_payload_length = of_nat (ex_value_length e)\<rparr>"

definition hermas_execution_prepare ::
  "hermas_execution option \<Rightarrow> hermas_frame option \<Rightarrow>
   hermas_runtime_result \<times> hermas_execution option \<times> hermas_frame option" where
  "hermas_execution_prepare execution invocation =
    (case (execution, invocation) of
       (Some e, Some _) \<Rightarrow>
         if ex_state e \<noteq> HERMAS_EXECUTION_READY
         then (HERMAS_RUNTIME_INVALID_STATE, execution, invocation)
         else
           let offset = node_offset e (ex_current_node e)
           in if ex_image e ! offset \<noteq> 1 then (HERMAS_RUNTIME_INVALID_IMAGE, execution, invocation)
              else (HERMAS_RUNTIME_OK, Some (e\<lparr>ex_state := HERMAS_EXECUTION_PREPARED\<rparr>),
                    Some (invocation_frame e offset))
     | _ \<Rightarrow> (HERMAS_RUNTIME_INVALID_ARGUMENT, execution, invocation))"

definition hermas_execution_mark_sent ::
  "hermas_execution option \<Rightarrow> hermas_runtime_result \<times> hermas_execution option" where
  "hermas_execution_mark_sent execution =
    (case execution of
       None \<Rightarrow> (HERMAS_RUNTIME_INVALID_STATE, None)
     | Some e \<Rightarrow>
         if ex_state e \<noteq> HERMAS_EXECUTION_PREPARED then (HERMAS_RUNTIME_INVALID_STATE, Some e)
         else (HERMAS_RUNTIME_OK, Some (e\<lparr>ex_state := HERMAS_EXECUTION_SENT\<rparr>)))"

definition hermas_execution_mark_not_sent ::
  "hermas_execution option \<Rightarrow> hermas_runtime_result \<times> hermas_execution option" where
  "hermas_execution_mark_not_sent execution =
     finish_delivery_outcome execution HERMAS_EXECUTION_PREPARED 3 HERMAS_OUTCOME_NOT_SENT"

definition hermas_execution_mark_unknown ::
  "hermas_execution option \<Rightarrow> hermas_runtime_result \<times> hermas_execution option" where
  "hermas_execution_mark_unknown execution =
     finish_delivery_outcome execution HERMAS_EXECUTION_SENT 4 HERMAS_OUTCOME_UNKNOWN"

text \<open>What makes a \<open>RESULT\<close> frame the answer to the delivery in progress.\<close>

definition result_expected :: "hermas_execution \<Rightarrow> hermas_frame \<Rightarrow> bool" where
  "result_expected e r =
    (let node = node_offset e (ex_current_node e) in
     \<not> (fr_kind r \<noteq> HERMAS_FRAME_RESULT \<or> fr_execution_id r \<noteq> ex_execution_id e \<or>
        fr_request_id r \<noteq> ex_request_id e \<or> fr_app_id r \<noteq> read_u16 (ex_image e) (node + 4) \<or>
        fr_action_id r \<noteq> read_u16 (ex_image e) (node + 2) \<or>
        fr_source_type r \<noteq> fr_destination_type r \<or>
        fr_outcome r \<noteq> HERMAS_OUTCOME_SUCCESS \<and> fr_outcome r \<noteq> HERMAS_OUTCOME_APP_ERROR))"

definition execution_accept_result ::
  "hermas_execution \<Rightarrow> hermas_frame \<Rightarrow> hermas_runtime_result \<times> hermas_execution" where
  "execution_accept_result e r =
    (if ex_state e \<noteq> HERMAS_EXECUTION_SENT then (HERMAS_RUNTIME_INVALID_STATE, e)
     else if \<not> result_expected e r then (HERMAS_RUNTIME_UNEXPECTED_RESULT, e)
     else
       let source_kind = (if fr_outcome r = HERMAS_OUTCOME_SUCCESS then 1 else 2)
       in case find_edge e source_kind (ex_current_node e) of
           None \<Rightarrow> (HERMAS_RUNTIME_UNEXPECTED_RESULT, e)
         | Some edge \<Rightarrow>
             if fr_source_type r \<noteq> read_u16 (ex_image e) (edge + 8)
             then (HERMAS_RUNTIME_UNEXPECTED_RESULT, e)
             else if unat (fr_payload_length r) > HERMAS_PROTOCOL_MAX_PAYLOAD_SIZE
             then (HERMAS_RUNTIME_INVALID_VALUE, e)
             else if hermas_image_validate_value (Some (ex_image e)) (ex_image_size e)
                   (fr_source_type r) (fr_payload r) (unat (fr_payload_length r)) \<noteq> HERMAS_IMAGE_OK
             then (HERMAS_RUNTIME_INVALID_VALUE, e)
             else
               let target_kind = ex_image e ! (edge + 1);
                   continues = (target_kind = 1 \<or> target_kind = 3)
               in if continues \<and> ex_request_id e = - 1
                  then (HERMAS_RUNTIME_REQUEST_ID_EXHAUSTED, e)
                  else (case copy_value e (fr_payload r) (unat (fr_payload_length r)) of
                      (copied, e') \<Rightarrow>
                        if copied \<noteq> HERMAS_RUNTIME_OK then (copied, e')
                        else enter_edge
                          (if continues then e'\<lparr>ex_request_id := ex_request_id e' + 1\<rparr> else e')
                          edge (fr_outcome r)))"

definition hermas_execution_accept_result ::
  "hermas_execution option \<Rightarrow> hermas_frame option \<Rightarrow>
   hermas_runtime_result \<times> hermas_execution option" where
  "hermas_execution_accept_result execution frame =
    (case (execution, frame) of
       (Some e, Some r) \<Rightarrow> map_prod id Some (execution_accept_result e r)
     | _ \<Rightarrow> (HERMAS_RUNTIME_INVALID_ARGUMENT, execution))"

definition execution_result_frame :: "hermas_execution \<Rightarrow> hermas_frame" where
  "execution_result_frame e =
    (let typed = (ex_terminal_outcome e = HERMAS_OUTCOME_SUCCESS \<or>
                  ex_terminal_outcome e = HERMAS_OUTCOME_APP_ERROR);
         source_type = (if typed then ex_value_source_type e else 0);
         destination_type = (if typed then ex_value_destination_type e else 0)
     in \<lparr>fr_kind = HERMAS_FRAME_EXECUTION_RESULT, fr_execution_id = ex_execution_id e,
         fr_request_id = 0, fr_app_id = 0, fr_action_id = 0, fr_source_type = source_type,
         fr_destination_type = destination_type, fr_outcome = ex_terminal_outcome e,
         fr_payload = (if source_type = 0 then None else ex_value_buffer e),
         fr_payload_length = (if source_type = 0 then 0 else of_nat (ex_value_length e))\<rparr>)"

definition hermas_execution_get_result ::
  "hermas_execution option \<Rightarrow> hermas_frame option \<Rightarrow> hermas_runtime_result \<times> hermas_frame option" where
  "hermas_execution_get_result execution result =
    (case (execution, result) of
       (Some e, Some _) \<Rightarrow>
         if ex_state e \<noteq> HERMAS_EXECUTION_COMPLETE then (HERMAS_RUNTIME_INVALID_STATE, result)
         else (HERMAS_RUNTIME_OK, Some (execution_result_frame e))
     | _ \<Rightarrow> (HERMAS_RUNTIME_INVALID_ARGUMENT, result))"

end
