(* ===== verification/Hermas_Group.thy ===== *)
theory Hermas_Group
  imports Hermas_Runtime
begin

text \<open>
  The group runtime of runtime.c: up to eight flows of one execution walk the graph at the same
  time, through forks, joins and bounded \<open>each\<close> regions. The group is a record; \<open>value_storage\<close>, which
  C cuts into eight slices of \<open>value_stride\<close> bytes, is the value buffers of the flows.

  The static functions of the file call each other in a cycle through \<open>group_enter_edge\<close>. They take
  the function that enters an edge as an argument, and \<open>group_enter_edge\<close> closes the cycle with a
  bound on the depth of the calls: \<open>None\<close> means that the bound was reached before the code
  returned, and is not a result of the code.
\<close>

section \<open>State\<close>

definition HERMAS_RUNTIME_MAX_FLOWS :: nat where [simp]: "HERMAS_RUNTIME_MAX_FLOWS = 8"
definition HERMAS_RUNTIME_MAX_EACH_ITEMS :: nat where [simp]: "HERMAS_RUNTIME_MAX_EACH_ITEMS = 256"

record hermas_flow =
  fl_value_buffer :: "bytes option"
  fl_value_capacity :: nat
  fl_value_length :: nat
  fl_request_id :: u64
  fl_current_node :: u16
  fl_value_source_type :: u16
  fl_value_destination_type :: u16
  fl_join_node :: u16
  fl_join_tag :: u8
  fl_each_region :: u8
  fl_item_index :: u16
  fl_state :: hermas_execution_state
  fl_active :: u8

record hermas_group_execution =
  ge_image :: bytes
  ge_image_size :: nat
  ge_execution_id :: u64
  ge_next_request_id :: u64
  ge_deadline_ms :: u64
  ge_region_deadlines_ms :: "u64 list"
  ge_region_first_nodes :: "u16 list"
  ge_region_last_nodes :: "u16 list"
  ge_region_count :: u8
  ge_each_region_count :: u8
  ge_each_template_nodes :: "u16 list"
  ge_each_source_types :: "u16 list"
  ge_each_item_input_types :: "u16 list"
  ge_each_item_output_types :: "u16 list"
  ge_each_collected_types :: "u16 list"
  ge_each_bounds :: "u16 list"
  ge_each_concurrency :: "u8 list"
  ge_active_each_region :: u8
  ge_each_coordinator_flow :: u8
  ge_each_item_count :: u16
  ge_each_next_item :: u16
  ge_each_completed_items :: u16
  ge_each_flush_item :: u16
  ge_each_item_offsets :: "nat list"
  ge_each_item_lengths :: "nat list"
  ge_each_source_snapshot :: bytes
  ge_each_collection :: bytes
  ge_each_collection_length :: nat
  ge_flows :: "hermas_flow list"
  ge_value_stride :: nat
  ge_pending_outcome :: u16
  ge_pending_flow :: u8
  ge_complete :: u8

definition flow_at :: "hermas_group_execution \<Rightarrow> nat \<Rightarrow> hermas_flow" where
  "flow_at g i = ge_flows g ! i"

definition set_flow :: "nat \<Rightarrow> hermas_flow \<Rightarrow> hermas_group_execution \<Rightarrow> hermas_group_execution" where
  "set_flow i f g = g\<lparr>ge_flows := (ge_flows g)[i := f]\<rparr>"

text \<open>The first flow slot that satisfies a condition.\<close>

definition find_flow :: "hermas_group_execution \<Rightarrow> (nat \<Rightarrow> hermas_flow \<Rightarrow> bool) \<Rightarrow> nat option" where
  "find_flow g P = first_index (\<lambda>i. P i (flow_at g i)) HERMAS_RUNTIME_MAX_FLOWS"

definition is_active :: "hermas_flow \<Rightarrow> bool" where
  "is_active f \<longleftrightarrow> fl_active f \<noteq> 0"

section \<open>Edges, values, outcomes\<close>

definition group_find_edge :: "hermas_group_execution \<Rightarrow> u8 \<Rightarrow> u16 \<Rightarrow> u8 \<Rightarrow> nat option" where
  "group_find_edge g source_kind source_node tag =
     first_edge (ge_image g) (\<lambda>offset.
       ge_image g ! offset = source_kind \<and> read_u16 (ge_image g) (offset + 4) = source_node \<and>
       (source_kind < 5 \<or> ge_image g ! (offset + 3) = tag))"

definition group_copy_value ::
  "hermas_flow \<Rightarrow> bytes option \<Rightarrow> nat \<Rightarrow> hermas_runtime_result \<times> hermas_flow" where
  "group_copy_value f v value_length =
    (if value_length > fl_value_capacity f then (HERMAS_RUNTIME_BUFFER_TOO_SMALL, f)
     else if value_length = 0 then (HERMAS_RUNTIME_OK, f\<lparr>fl_value_length := 0\<rparr>)
     else case (v, fl_value_buffer f) of
         (Some bs, Some buffer) \<Rightarrow>
           (HERMAS_RUNTIME_OK,
            f\<lparr>fl_value_buffer := Some (write_bytes buffer 0 (take value_length bs)),
              fl_value_length := value_length\<rparr>)
       | _ \<Rightarrow> (HERMAS_RUNTIME_INVALID_ARGUMENT, f))"

definition group_outcome_precedence :: "u16 \<Rightarrow> nat" where
  "group_outcome_precedence outcome =
    (if outcome = HERMAS_OUTCOME_UNKNOWN then 4
     else if outcome = HERMAS_OUTCOME_APP_ERROR then 3
     else if outcome = HERMAS_OUTCOME_NOT_SENT then 2
     else if outcome = HERMAS_OUTCOME_SUCCESS then 1 else 0)"

definition group_has_sent :: "hermas_group_execution \<Rightarrow> bool" where
  "group_has_sent g \<longleftrightarrow>
     list_ex (\<lambda>i. is_active (flow_at g i) \<and> fl_state (flow_at g i) = HERMAS_EXECUTION_SENT)
       [0..<HERMAS_RUNTIME_MAX_FLOWS]"

definition group_has_active :: "hermas_group_execution \<Rightarrow> bool" where
  "group_has_active g \<longleftrightarrow> list_ex (\<lambda>i. is_active (flow_at g i)) [0..<HERMAS_RUNTIME_MAX_FLOWS]"

definition group_maybe_complete :: "hermas_group_execution \<Rightarrow> hermas_group_execution" where
  "group_maybe_complete g =
    (if ge_pending_outcome g = HERMAS_OUTCOME_SUCCESS \<and> \<not> group_has_active g
     then g\<lparr>ge_complete := 1\<rparr>
     else if ge_pending_outcome g \<noteq> HERMAS_OUTCOME_NONE \<and>
             ge_pending_outcome g \<noteq> HERMAS_OUTCOME_SUCCESS \<and> \<not> group_has_sent g
     then g\<lparr>ge_complete := 1\<rparr>
     else g)"

text \<open>After a failure, every flow whose request is not sent is cut off.\<close>

definition cut_off :: "hermas_flow \<Rightarrow> hermas_flow" where
  "cut_off f =
    (if is_active f \<and> fl_state f \<noteq> HERMAS_EXECUTION_SENT then f\<lparr>fl_active := 0\<rparr> else f)"

definition group_record_terminal ::
  "hermas_group_execution \<Rightarrow> nat \<Rightarrow> u16 \<Rightarrow> hermas_group_execution" where
  "group_record_terminal g flow_index outcome =
    (let g1 = (if group_outcome_precedence outcome > group_outcome_precedence (ge_pending_outcome g)
               then g\<lparr>ge_pending_outcome := outcome, ge_pending_flow := of_nat flow_index\<rparr> else g);
         g2 = set_flow flow_index ((flow_at g1 flow_index)\<lparr>fl_active := 0\<rparr>) g1;
         g3 = (if outcome \<noteq> HERMAS_OUTCOME_SUCCESS
               then g2\<lparr>ge_flows := map cut_off (ge_flows g2)\<rparr> else g2)
     in group_maybe_complete g3)"

section \<open>Bounded each regions\<close>

type_synonym group_outcome = "(hermas_runtime_result \<times> hermas_group_execution) option"
type_synonym group_enter = "hermas_group_execution \<Rightarrow> nat \<Rightarrow> nat \<Rightarrow> u16 \<Rightarrow> group_outcome"

text \<open>\<open>if (entered != HERMAS_RUNTIME_OK) return entered;\<close>, and then the rest.\<close>

definition and_then ::
  "group_outcome \<Rightarrow> (hermas_group_execution \<Rightarrow> group_outcome) \<Rightarrow> group_outcome" where
  "and_then entered rest =
    (case entered of
       None \<Rightarrow> None
     | Some (r, g) \<Rightarrow> if r \<noteq> HERMAS_RUNTIME_OK then Some (r, g) else rest g)"

lemma and_then_cong [fundef_cong]:
  "m = m' \<Longrightarrow> (\<And>g. m' = Some (HERMAS_RUNTIME_OK, g) \<Longrightarrow> f g = f' g) \<Longrightarrow> and_then m f = and_then m' f'"
  by (auto simp: and_then_def split: option.split)

lemma and_then_Some:
  "and_then m f = Some (r, g) \<longleftrightarrow>
     m = Some (r, g) \<and> r \<noteq> HERMAS_RUNTIME_OK \<or> (\<exists>g'. m = Some (HERMAS_RUNTIME_OK, g') \<and> f g' = Some (r, g))"
  by (auto simp: and_then_def split: option.split)

definition group_each_finish :: "group_enter \<Rightarrow> hermas_group_execution \<Rightarrow> group_outcome" where
  "group_each_finish enter g =
    (let region_id = ge_active_each_region g in
     if region_id = 0 \<or> region_id > ge_each_region_count g then Some (HERMAS_RUNTIME_INVALID_STATE, g)
     else
       let coordinator = unat (ge_each_coordinator_flow g);
           (copied, flow) = group_copy_value (flow_at g coordinator) (Some (ge_each_collection g))
              (ge_each_collection_length g);
           g1 = set_flow coordinator flow g
       in if copied \<noteq> HERMAS_RUNTIME_OK then Some (copied, g1)
          else if hermas_image_validate_value (Some (ge_image g)) (ge_image_size g)
                (ge_each_collected_types g ! (unat region_id - 1)) (fl_value_buffer flow)
                (fl_value_length flow) \<noteq> HERMAS_IMAGE_OK
          then Some (HERMAS_RUNTIME_INVALID_VALUE, g1)
          else
            let g2 = (set_flow coordinator (flow\<lparr>fl_active := 1, fl_each_region := 0\<rparr>) g1)
                       \<lparr>ge_active_each_region := 0\<rparr>
            in case group_find_edge g2 9 (ucast region_id) 0 of
                None \<Rightarrow> Some (HERMAS_RUNTIME_INVALID_IMAGE, g2)
              | Some edge \<Rightarrow> enter g2 coordinator edge HERMAS_OUTCOME_SUCCESS)"

text \<open>The items of a region in progress; giving an item to a free flow slot.\<close>

definition active_items :: "u8 \<Rightarrow> hermas_group_execution \<Rightarrow> nat" where
  "active_items region_id g =
     length (filter (\<lambda>i. is_active (flow_at g i) \<and> fl_each_region (flow_at g i) = region_id)
       [0..<HERMAS_RUNTIME_MAX_FLOWS])"

definition admit_item ::
  "u8 \<Rightarrow> nat \<Rightarrow> hermas_group_execution \<Rightarrow> hermas_runtime_result \<times> hermas_group_execution" where
  "admit_item region_id slot g =
    (let item_index = ge_each_next_item g;
         item = unat item_index;
         (copied, flow) =
           group_copy_value
             ((flow_at g slot)\<lparr>fl_active := 1, fl_each_region := region_id, fl_item_index := item_index\<rparr>)
             (Some (drop (ge_each_item_offsets g ! item) (ge_each_source_snapshot g)))
             (ge_each_item_lengths g ! item)
     in (copied, set_flow slot flow (g\<lparr>ge_each_next_item := item_index + 1\<rparr>)))"

text \<open>The loop that admits items while the region has capacity and items are left.\<close>

fun group_admit_items :: "nat \<Rightarrow> group_enter \<Rightarrow> u8 \<Rightarrow> hermas_group_execution \<Rightarrow> group_outcome" where
  "group_admit_items 0 enter region_id g = None"
| "group_admit_items (Suc n) enter region_id g =
    (if active_items region_id g \<ge> unat (ge_each_concurrency g ! (unat region_id - 1)) \<or>
        ge_each_next_item g \<ge> ge_each_item_count g
     then Some (HERMAS_RUNTIME_OK, g)
     else case find_flow g (\<lambda>_ f. \<not> is_active f) of
         None \<Rightarrow> Some (HERMAS_RUNTIME_INVALID_STATE, g)
       | Some slot \<Rightarrow>
           (case admit_item region_id slot g of
              (copied, g1) \<Rightarrow>
                if copied \<noteq> HERMAS_RUNTIME_OK then Some (copied, g1)
                else case group_find_edge g1 8 (ucast region_id) 0 of
                    None \<Rightarrow> Some (HERMAS_RUNTIME_INVALID_IMAGE, g1)
                  | Some edge \<Rightarrow>
                      and_then (enter g1 slot edge HERMAS_OUTCOME_NONE)
                        (group_admit_items n enter region_id)))"

definition group_each_admit :: "nat \<Rightarrow> group_enter \<Rightarrow> hermas_group_execution \<Rightarrow> group_outcome" where
  "group_each_admit n enter g =
    (let region_id = ge_active_each_region g in
     if region_id = 0 \<or> region_id > ge_each_region_count g then Some (HERMAS_RUNTIME_INVALID_STATE, g)
     else group_admit_items n enter region_id g)"

text \<open>
  The loop that moves finished items to the collection, in the order of their indices. It deactivates
  a flow in every round, so it ends. The array has eight slots, so the branch for a slot behind its
  end is never taken.
\<close>

definition flush_ready :: "u8 \<Rightarrow> hermas_group_execution \<Rightarrow> nat option" where
  "flush_ready region_id g =
     find_flow g (\<lambda>_ f. is_active f \<and> fl_each_region f = region_id \<and>
       fl_state f = HERMAS_EXECUTION_WAITING \<and> fl_item_index f = ge_each_flush_item g)"

definition flush_item :: "nat \<Rightarrow> hermas_group_execution \<Rightarrow> hermas_group_execution" where
  "flush_item ready g =
    (let f = flow_at g ready in
     set_flow ready (f\<lparr>fl_active := 0, fl_each_region := 0\<rparr>)
       (g\<lparr>ge_each_collection := write_bytes (ge_each_collection g) (ge_each_collection_length g)
            (take (fl_value_length f) (payload_bytes (fl_value_buffer f))),
          ge_each_collection_length := ge_each_collection_length g + fl_value_length f,
          ge_each_flush_item := ge_each_flush_item g + 1\<rparr>))"

function group_flush :: "u8 \<Rightarrow> hermas_group_execution \<Rightarrow> hermas_runtime_result \<times> hermas_group_execution" where
  "group_flush region_id g =
    (case flush_ready region_id g of
       None \<Rightarrow> (HERMAS_RUNTIME_OK, g)
     | Some ready \<Rightarrow>
         if length (ge_flows g) \<le> ready then (HERMAS_RUNTIME_OK, g)
         else if fl_value_length (flow_at g ready) >
             HERMAS_PROTOCOL_MAX_PAYLOAD_SIZE - ge_each_collection_length g
         then (HERMAS_RUNTIME_BUFFER_TOO_SMALL, g)
         else group_flush region_id (flush_item ready g))"
  by pat_completeness auto
termination
proof (relation "measure (\<lambda>(_, g). length (filter is_active (ge_flows g)))")
  fix region_id g ready
  assume ready: "flush_ready region_id g = Some ready" and len: "\<not> length (ge_flows g) \<le> ready"
  let ?f = "(flow_at g ready)\<lparr>fl_active := 0, fl_each_region := 0\<rparr>"
  have active: "is_active (ge_flows g ! ready)"
    using ready by (auto simp: flush_ready_def find_flow_def first_index_Some flow_at_def)
  have split: "ge_flows g = take ready (ge_flows g) @ ge_flows g ! ready # drop (Suc ready) (ge_flows g)"
    using len by (simp add: id_take_nth_drop)
  have "filter is_active ((ge_flows g)[ready := ?f]) =
      filter is_active (take ready (ge_flows g)) @ filter is_active (drop (Suc ready) (ge_flows g))"
    using len by (simp add: upd_conv_take_nth_drop is_active_def)
  moreover have "length (filter is_active (ge_flows g)) =
      Suc (length (filter is_active (take ready (ge_flows g)) @ filter is_active (drop (Suc ready) (ge_flows g))))"
    using active by (subst split) simp
  ultimately show "((region_id, flush_item ready g), region_id, g)
      \<in> measure (\<lambda>(_, g). length (filter is_active (ge_flows g)))"
    by (simp add: flush_item_def Let_def set_flow_def)
qed simp

declare group_flush.simps [simp del]

definition group_each_collect ::
  "nat \<Rightarrow> group_enter \<Rightarrow> hermas_group_execution \<Rightarrow> nat \<Rightarrow> u8 \<Rightarrow> group_outcome" where
  "group_each_collect n enter g flow_index region_id =
    (if region_id = 0 \<or> region_id \<noteq> ge_active_each_region g \<or> flow_index \<ge> HERMAS_RUNTIME_MAX_FLOWS
     then Some (HERMAS_RUNTIME_INVALID_STATE, g)
     else
       let f = flow_at g flow_index in
       if fl_each_region f \<noteq> region_id \<or> fl_item_index f \<ge> ge_each_item_count g
       then Some (HERMAS_RUNTIME_INVALID_STATE, g)
       else
         let g1 = (set_flow flow_index (f\<lparr>fl_state := HERMAS_EXECUTION_WAITING\<rparr>) g)
                    \<lparr>ge_each_completed_items := ge_each_completed_items g + 1\<rparr>
         in case group_flush region_id g1 of
             (flushed, g2) \<Rightarrow>
               if flushed \<noteq> HERMAS_RUNTIME_OK then Some (flushed, g2)
               else if ge_each_flush_item g2 = ge_each_item_count g2 then group_each_finish enter g2
               else group_each_admit n enter g2)"

text \<open>The source list is kept in a snapshot, and its items are located in it.\<close>

definition each_list ::
  "hermas_group_execution \<Rightarrow> nat \<Rightarrow> u8 \<Rightarrow> hermas_image_result \<times> u16 \<times> hermas_group_execution" where
  "each_list g flow_index region_id =
    (let source = flow_at g flow_index;
         snapshot = write_bytes (ge_each_source_snapshot g) 0
           (take (fl_value_length source) (payload_bytes (fl_value_buffer source)));
         (listed, item_count, offsets, lengths) =
           hermas_image_list_items (Some (ge_image g)) (ge_image_size g)
             (ge_each_source_types g ! (unat region_id - 1)) (Some snapshot) (fl_value_length source) 0
             (ge_each_item_offsets g) (ge_each_item_lengths g) HERMAS_RUNTIME_MAX_EACH_ITEMS
     in (listed, item_count,
         g\<lparr>ge_each_source_snapshot := snapshot, ge_each_item_offsets := offsets,
           ge_each_item_lengths := lengths\<rparr>))"

definition each_open ::
  "hermas_group_execution \<Rightarrow> nat \<Rightarrow> u8 \<Rightarrow> u16 \<Rightarrow> hermas_group_execution" where
  "each_open g flow_index region_id item_count =
     set_flow flow_index ((flow_at g flow_index)\<lparr>fl_active := 0, fl_each_region := 0\<rparr>)
       (g\<lparr>ge_active_each_region := region_id, ge_each_coordinator_flow := of_nat flow_index,
          ge_each_item_count := item_count, ge_each_next_item := 0, ge_each_completed_items := 0,
          ge_each_flush_item := 0, ge_each_collection_length := 8,
          ge_each_collection := write_u32 (write_u32 (ge_each_collection g) 0 (ucast item_count)) 4 0\<rparr>)"

definition group_each_start ::
  "nat \<Rightarrow> group_enter \<Rightarrow> hermas_group_execution \<Rightarrow> nat \<Rightarrow> u8 \<Rightarrow> group_outcome" where
  "group_each_start n enter g flow_index region_id =
    (if region_id = 0 \<or> region_id > ge_each_region_count g \<or> ge_active_each_region g \<noteq> 0
     then Some (HERMAS_RUNTIME_INVALID_STATE, g)
     else if fl_value_length (flow_at g flow_index) > HERMAS_PROTOCOL_MAX_PAYLOAD_SIZE
     then Some (HERMAS_RUNTIME_BUFFER_TOO_SMALL, g)
     else case each_list g flow_index region_id of
         (listed, item_count, g1) \<Rightarrow>
           if listed \<noteq> HERMAS_IMAGE_OK \<or> item_count > ge_each_bounds g ! (unat region_id - 1)
           then Some (HERMAS_RUNTIME_INVALID_VALUE, g1)
           else if item_count = 0
           then group_each_finish enter (each_open g1 flow_index region_id item_count)
           else group_each_admit n enter (each_open g1 flow_index region_id item_count))"

section \<open>Dispatch, join and fork\<close>

definition group_route_dispatch ::
  "group_enter \<Rightarrow> hermas_group_execution \<Rightarrow> nat \<Rightarrow> u16 \<Rightarrow> u16 \<Rightarrow> group_outcome" where
  "group_route_dispatch enter g flow_index dispatch_node terminal_outcome =
    (let f = flow_at g flow_index in
     if fl_value_length f < 8 then Some (HERMAS_RUNTIME_INVALID_VALUE, g)
     else
       let buffer = payload_bytes (fl_value_buffer f); tag = read_u32 buffer 0
       in if read_u32 buffer 4 \<noteq> 0 \<or> tag > 255 then Some (HERMAS_RUNTIME_INVALID_VALUE, g)
          else case group_find_edge g 5 dispatch_node (ucast tag) of
              None \<Rightarrow> Some (HERMAS_RUNTIME_INVALID_IMAGE, g)
            | Some edge \<Rightarrow>
                let f' = f\<lparr>fl_value_buffer := shift_value 8 (fl_value_length f) (fl_value_buffer f),
                           fl_value_length := fl_value_length f - 8\<rparr>;
                    g' = set_flow flow_index f' g
                in if hermas_image_validate_value (Some (ge_image g)) (ge_image_size g)
                        (read_u16 (ge_image g) (edge + 8)) (fl_value_buffer f') (fl_value_length f') \<noteq>
                      HERMAS_IMAGE_OK
                   then Some (HERMAS_RUNTIME_INVALID_VALUE, g')
                   else enter g' flow_index edge terminal_outcome)"

text \<open>The flow that waits at a join for a branch.\<close>

definition join_waiting :: "hermas_group_execution \<Rightarrow> u16 \<Rightarrow> nat \<Rightarrow> nat option" where
  "join_waiting g join_node tag =
     find_flow g (\<lambda>_ f. is_active f \<and> fl_state f = HERMAS_EXECUTION_WAITING \<and>
       fl_join_node f = join_node \<and> unat (fl_join_tag f) = tag)"

text \<open>The loop over the branches of a join that is complete.\<close>

fun group_join_outputs ::
  "group_enter \<Rightarrow> u16 \<Rightarrow> (nat \<times> nat) list \<Rightarrow> hermas_group_execution \<Rightarrow> group_outcome" where
  "group_join_outputs enter join_node [] g = Some (HERMAS_RUNTIME_OK, group_maybe_complete g)"
| "group_join_outputs enter join_node ((tag, index) # branches) g =
    (case group_find_edge g 7 join_node (of_nat tag) of
       None \<Rightarrow>
         group_join_outputs enter join_node branches
           (set_flow index ((flow_at g index)\<lparr>fl_active := 0\<rparr>) g)
     | Some edge \<Rightarrow>
         and_then (enter g index edge HERMAS_OUTCOME_SUCCESS)
           (group_join_outputs enter join_node branches))"

definition group_resolve_join ::
  "group_enter \<Rightarrow> hermas_group_execution \<Rightarrow> u16 \<Rightarrow> group_outcome" where
  "group_resolve_join enter g join_node =
    (let offset = node_record (ge_image g) join_node in
     if ge_image g ! offset \<noteq> 5 then Some (HERMAS_RUNTIME_INVALID_IMAGE, g)
     else
       let tags = [0..<unat (ge_image g ! (offset + 1))];
           branch_flows = map (join_waiting g join_node) tags
       in if None \<in> set branch_flows then Some (HERMAS_RUNTIME_OK, group_maybe_complete g)
          else group_join_outputs enter join_node (zip tags (map the branch_flows)) g)"

text \<open>The loop that gives every branch of a fork but the first a free flow with a copy of the value.\<close>

fun group_fork_flows ::
  "nat \<Rightarrow> nat \<Rightarrow> hermas_group_execution \<Rightarrow> hermas_runtime_result \<times> nat list \<times> hermas_group_execution" where
  "group_fork_flows source_flow 0 g = (HERMAS_RUNTIME_OK, [], g)"
| "group_fork_flows source_flow (Suc branches) g =
    (case find_flow g (\<lambda>index f. \<not> is_active f \<and> index \<noteq> source_flow) of
       None \<Rightarrow> (HERMAS_RUNTIME_INVALID_STATE, [], g)
     | Some index \<Rightarrow>
         let source = flow_at g source_flow;
             (copied, f) = group_copy_value ((flow_at g index)\<lparr>fl_active := 1\<rparr>)
                (fl_value_buffer source) (fl_value_length source);
             g' = set_flow index f g
         in if copied \<noteq> HERMAS_RUNTIME_OK then (copied, [], g')
            else case group_fork_flows source_flow branches g' of
                (r, flows, g'') \<Rightarrow> (r, index # flows, g''))"

fun group_fork_outputs ::
  "group_enter \<Rightarrow> u16 \<Rightarrow> (nat \<times> nat) list \<Rightarrow> hermas_group_execution \<Rightarrow> group_outcome" where
  "group_fork_outputs enter fork_node [] g = Some (HERMAS_RUNTIME_OK, g)"
| "group_fork_outputs enter fork_node ((branch, index) # branches) g =
    (case group_find_edge g 6 fork_node (of_nat branch) of
       None \<Rightarrow> Some (HERMAS_RUNTIME_INVALID_IMAGE, g)
     | Some edge \<Rightarrow>
         and_then (enter g index edge HERMAS_OUTCOME_NONE)
           (group_fork_outputs enter fork_node branches))"

definition group_enter_fork ::
  "group_enter \<Rightarrow> hermas_group_execution \<Rightarrow> nat \<Rightarrow> u16 \<Rightarrow> group_outcome" where
  "group_enter_fork enter g source_flow fork_node =
    (let offset = node_record (ge_image g) fork_node in
     if ge_image g ! offset \<noteq> 4 then Some (HERMAS_RUNTIME_INVALID_IMAGE, g)
     else
       let branch_count = unat (ge_image g ! (offset + 1))
       in case group_fork_flows source_flow (branch_count - 1) g of
           (r, flows, g') \<Rightarrow>
             if r \<noteq> HERMAS_RUNTIME_OK then Some (r, g')
             else group_fork_outputs enter fork_node (zip [0..<branch_count] (source_flow # flows)) g')"

section \<open>Entering an edge\<close>

definition entering_flow :: "hermas_group_execution \<Rightarrow> nat \<Rightarrow> nat \<Rightarrow> hermas_flow" where
  "entering_flow g flow_index edge_offset =
    (flow_at g flow_index)
      \<lparr>fl_value_source_type := read_u16 (ge_image g) (edge_offset + 8),
       fl_value_destination_type := read_u16 (ge_image g) (edge_offset + 10),
       fl_current_node := read_u16 (ge_image g) (edge_offset + 6)\<rparr>"

fun group_enter_edge :: "nat \<Rightarrow> group_enter" where
  "group_enter_edge 0 g flow_index edge_offset terminal_outcome = None"
| "group_enter_edge (Suc n) g flow_index edge_offset terminal_outcome =
    (let target_kind = ge_image g ! (edge_offset + 1);
         target_node = read_u16 (ge_image g) (edge_offset + 6);
         f = entering_flow g flow_index edge_offset;
         g' = set_flow flow_index f g;
         enter = group_enter_edge n
     in if target_kind = 1 then
          Some (HERMAS_RUNTIME_OK,
                set_flow flow_index (f\<lparr>fl_state := HERMAS_EXECUTION_READY, fl_active := 1\<rparr>) g)
        else if target_kind = 4 then group_enter_fork enter g' flow_index target_node
        else if target_kind = 3 then
          group_route_dispatch enter g' flow_index target_node terminal_outcome
        else if target_kind = 5 then
          group_resolve_join enter
            (set_flow flow_index
              (f\<lparr>fl_join_node := target_node, fl_join_tag := ge_image g ! (edge_offset + 3),
                 fl_state := HERMAS_EXECUTION_WAITING\<rparr>) g) target_node
        else if target_kind = 6 then group_each_start n enter g' flow_index (ucast target_node)
        else if target_kind = 7 then group_each_collect n enter g' flow_index (ucast target_node)
        else if target_kind = 2 then
          Some (HERMAS_RUNTIME_OK, group_record_terminal g' flow_index terminal_outcome)
        else Some (HERMAS_RUNTIME_INVALID_IMAGE, g'))"

declare group_enter_edge.simps(2) [simp del]

end
