(* ===== verification/Hermas_Group_Operations.thy ===== *)
theory Hermas_Group_Operations
  imports Hermas_Group
begin

text \<open>
  The operations of the group runtime: start, prepare, the delivery outcomes, results and deadlines.
  Those that may enter an edge take the bound on the depth of the calls first.
\<close>

section \<open>Start\<close>

definition no_flow :: hermas_flow where
  "no_flow =
    \<lparr>fl_value_buffer = None, fl_value_capacity = 0, fl_value_length = 0, fl_request_id = 0,
     fl_current_node = 0, fl_value_source_type = 0, fl_value_destination_type = 0, fl_join_node = 0,
     fl_join_tag = 0, fl_each_region = 0, fl_item_index = 0, fl_state = HERMAS_EXECUTION_EMPTY,
     fl_active = 0\<rparr>"

text \<open>The group after \<open>memset\<close>.\<close>

definition no_group :: hermas_group_execution where
  "no_group =
    \<lparr>ge_image = [], ge_image_size = 0, ge_execution_id = 0, ge_next_request_id = 0, ge_deadline_ms = 0,
     ge_region_deadlines_ms = replicate 8 0, ge_region_first_nodes = replicate 8 0,
     ge_region_last_nodes = replicate 8 0, ge_region_count = 0, ge_each_region_count = 0,
     ge_each_template_nodes = replicate 8 0, ge_each_source_types = replicate 8 0,
     ge_each_item_input_types = replicate 8 0, ge_each_item_output_types = replicate 8 0,
     ge_each_collected_types = replicate 8 0, ge_each_bounds = replicate 8 0,
     ge_each_concurrency = replicate 8 0, ge_active_each_region = 0, ge_each_coordinator_flow = 0,
     ge_each_item_count = 0, ge_each_next_item = 0, ge_each_completed_items = 0,
     ge_each_flush_item = 0, ge_each_item_offsets = replicate HERMAS_RUNTIME_MAX_EACH_ITEMS 0,
     ge_each_item_lengths = replicate HERMAS_RUNTIME_MAX_EACH_ITEMS 0,
     ge_each_source_snapshot = replicate HERMAS_PROTOCOL_MAX_PAYLOAD_SIZE 0,
     ge_each_collection = replicate HERMAS_PROTOCOL_MAX_PAYLOAD_SIZE 0,
     ge_each_collection_length = 0, ge_flows = replicate HERMAS_RUNTIME_MAX_FLOWS no_flow,
     ge_value_stride = 0, ge_pending_outcome = 0, ge_pending_flow = 0, ge_complete = 0\<rparr>"

text \<open>One round of the loop over the region records.\<close>

definition load_region ::
  "bytes \<Rightarrow> nat \<Rightarrow> nat \<Rightarrow> hermas_group_execution \<Rightarrow> hermas_group_execution" where
  "load_region img regions index g =
    (let region = regions + index * HERMAS_REGION_RECORD_SIZE in
     if img ! region = 1 then
       (let deadline = unat (ge_region_count g); first = read_u16 img (region + 2) in
        g\<lparr>ge_region_count := ge_region_count g + 1,
          ge_region_deadlines_ms := (ge_region_deadlines_ms g)[deadline := read_u64 img (region + 8)],
          ge_region_first_nodes := (ge_region_first_nodes g)[deadline := first],
          ge_region_last_nodes :=
            (ge_region_last_nodes g)[deadline := first + read_u16 img (region + 4) - 1]\<rparr>)
     else if img ! region = 2 then
       (let each = unat (ge_each_region_count g) in
        g\<lparr>ge_each_region_count := ge_each_region_count g + 1,
          ge_each_concurrency := (ge_each_concurrency g)[each := img ! (region + 1)],
          ge_each_template_nodes := (ge_each_template_nodes g)[each := read_u16 img (region + 2)],
          ge_each_source_types := (ge_each_source_types g)[each := read_u16 img (region + 4)],
          ge_each_item_input_types := (ge_each_item_input_types g)[each := read_u16 img (region + 6)],
          ge_each_item_output_types := (ge_each_item_output_types g)[each := read_u16 img (region + 8)],
          ge_each_collected_types := (ge_each_collected_types g)[each := read_u16 img (region + 10)],
          ge_each_bounds := (ge_each_bounds g)[each := read_u16 img (region + 12)]\<rparr>)
     else g)"

definition load_regions :: "bytes \<Rightarrow> hermas_group_execution \<Rightarrow> hermas_group_execution" where
  "load_regions img g =
    fold (load_region img (unat (read_u32 img 72))) [0..<unat (read_u16 img 68)] g"

definition set_deadline :: "hermas_group_execution \<Rightarrow> hermas_group_execution" where
  "set_deadline g =
    g\<lparr>ge_deadline_ms := (if ge_region_count g = 0 then 0 else ge_region_deadlines_ms g ! 0)\<rparr>"

text \<open>The flow slots: eight slices of the caller's storage, the first slot active.\<close>

definition load_flows :: "bytes \<Rightarrow> nat \<Rightarrow> hermas_group_execution \<Rightarrow> hermas_group_execution" where
  "load_flows storage stride g =
    (let slots = map (\<lambda>index. no_flow\<lparr>fl_value_buffer := Some (chunk storage (index * stride) stride),
                                       fl_value_capacity := stride\<rparr>) [0..<HERMAS_RUNTIME_MAX_FLOWS]
     in g\<lparr>ge_flows := slots[0 := (slots ! 0)\<lparr>fl_active := 1\<rparr>]\<rparr>)"

definition loaded_group :: "bytes \<Rightarrow> nat \<Rightarrow> u64 \<Rightarrow> bytes \<Rightarrow> nat \<Rightarrow> hermas_group_execution" where
  "loaded_group img image_size execution_id storage stride =
     load_flows storage stride (set_deadline (load_regions img
       (no_group\<lparr>ge_image := img, ge_image_size := image_size, ge_execution_id := execution_id,
          ge_next_request_id := 1, ge_value_stride := stride\<rparr>)))"

definition group_start_flow ::
  "nat \<Rightarrow> hermas_group_execution \<Rightarrow> bytes option \<Rightarrow> nat \<Rightarrow> group_outcome" where
  "group_start_flow n g input input_length =
    (case group_copy_value (flow_at g 0) input input_length of
       (copied, flow) \<Rightarrow>
         let g' = set_flow 0 flow g
         in if copied \<noteq> HERMAS_RUNTIME_OK then Some (copied, g')
            else case group_find_edge g' 0 0 0 of
                None \<Rightarrow> Some (HERMAS_RUNTIME_INVALID_IMAGE, g')
              | Some root \<Rightarrow> group_enter_edge n g' 0 root HERMAS_OUTCOME_NONE)"

text \<open>The summary of the validated image, which the code keeps on the stack, is read for the input type.\<close>

definition hermas_group_start ::
  "nat \<Rightarrow> hermas_group_execution option \<Rightarrow> bytes option \<Rightarrow> nat \<Rightarrow> u64 \<Rightarrow> bytes option \<Rightarrow> nat \<Rightarrow> nat \<Rightarrow>
   u16 \<Rightarrow> bytes option \<Rightarrow> nat \<Rightarrow> (hermas_runtime_result \<times> hermas_group_execution option) option" where
  "hermas_group_start n execution bs image_size execution_id value_storage value_storage_capacity
     value_stride input_type input input_length =
    (case (execution, bs, value_storage) of
       (Some old, Some img, Some storage) \<Rightarrow>
         if execution_id = 0 \<or> value_stride = 0 \<or> value_stride > HERMAS_PROTOCOL_MAX_PAYLOAD_SIZE \<or>
            value_storage_capacity div HERMAS_RUNTIME_MAX_FLOWS < value_stride \<or>
            input_length > value_stride \<or> input_length \<noteq> 0 \<and> input = None
         then Some (HERMAS_RUNTIME_INVALID_ARGUMENT, execution)
         else
           (case hermas_image_validate (Some img) image_size (Some no_summary) of
              (HERMAS_IMAGE_OK, Some summary) \<Rightarrow>
                if input_type \<noteq> is_input_type summary \<or>
                   hermas_image_validate_value (Some img) image_size input_type input input_length \<noteq>
                     HERMAS_IMAGE_OK
                then Some (HERMAS_RUNTIME_INVALID_VALUE, execution)
                else map_option (map_prod id Some)
                  (group_start_flow n (loaded_group img image_size execution_id storage value_stride)
                     input input_length)
            | _ \<Rightarrow> Some (HERMAS_RUNTIME_INVALID_IMAGE, execution))
     | _ \<Rightarrow> Some (HERMAS_RUNTIME_INVALID_ARGUMENT, execution))"

section \<open>Delivery\<close>

text \<open>
  The loop of \<open>hermas_group_prepare\<close> over the other flows: a request for the same Action of the same
  app is in progress, and the two flows are not items of one each region.
\<close>

definition delivery_conflict :: "hermas_group_execution \<Rightarrow> nat \<Rightarrow> u16 \<Rightarrow> u16 \<Rightarrow> nat \<Rightarrow> hermas_runtime_result option" where
  "delivery_conflict g flow_index app_id action_id index =
    (let flow = flow_at g flow_index; other = flow_at g index in
     if index = flow_index \<or> \<not> is_active other \<or>
        fl_state other \<noteq> HERMAS_EXECUTION_PREPARED \<and> fl_state other \<noteq> HERMAS_EXECUTION_SENT
     then None
     else
       let other_node = node_record (ge_image g) (fl_current_node other)
       in if ge_image g ! other_node \<noteq> 1 then Some HERMAS_RUNTIME_INVALID_IMAGE
          else if read_u16 (ge_image g) (other_node + 4) = app_id \<and>
                  read_u16 (ge_image g) (other_node + 2) = action_id \<and>
                  (fl_each_region flow = 0 \<or> fl_each_region flow \<noteq> fl_each_region other)
          then Some HERMAS_RUNTIME_INVALID_STATE
          else None)"

definition first_conflict :: "hermas_group_execution \<Rightarrow> nat \<Rightarrow> u16 \<Rightarrow> u16 \<Rightarrow> hermas_runtime_result option" where
  "first_conflict g flow_index app_id action_id =
    (case first_index (\<lambda>index. delivery_conflict g flow_index app_id action_id index \<noteq> None)
            HERMAS_RUNTIME_MAX_FLOWS of
       None \<Rightarrow> None
     | Some index \<Rightarrow> delivery_conflict g flow_index app_id action_id index)"

definition group_invocation :: "hermas_group_execution \<Rightarrow> hermas_flow \<Rightarrow> u64 \<Rightarrow> u16 \<Rightarrow> u16 \<Rightarrow> hermas_frame" where
  "group_invocation g flow request_id app_id action_id =
    \<lparr>fr_kind = HERMAS_FRAME_INVOKE, fr_execution_id = ge_execution_id g, fr_request_id = request_id,
     fr_app_id = app_id, fr_action_id = action_id, fr_source_type = fl_value_source_type flow,
     fr_destination_type = fl_value_destination_type flow, fr_outcome = HERMAS_OUTCOME_NONE,
     fr_payload = fl_value_buffer flow, fr_payload_length = of_nat (fl_value_length flow)\<rparr>"

definition group_prepare ::
  "hermas_group_execution \<Rightarrow> nat \<Rightarrow>
   hermas_runtime_result \<times> hermas_group_execution \<times> hermas_frame option" where
  "group_prepare g flow_index =
    (let flow = flow_at g flow_index in
     if ge_complete g \<noteq> 0 \<or> \<not> is_active flow \<or> fl_state flow \<noteq> HERMAS_EXECUTION_READY
     then (HERMAS_RUNTIME_INVALID_STATE, g, None)
     else if ge_next_request_id g = 0 then (HERMAS_RUNTIME_REQUEST_ID_EXHAUSTED, g, None)
     else
       let offset = node_record (ge_image g) (fl_current_node flow)
       in if ge_image g ! offset \<noteq> 1 then (HERMAS_RUNTIME_INVALID_IMAGE, g, None)
          else
            let app_id = read_u16 (ge_image g) (offset + 4);
                action_id = read_u16 (ge_image g) (offset + 2)
            in case first_conflict g flow_index app_id action_id of
                Some refused \<Rightarrow> (refused, g, None)
              | None \<Rightarrow>
                  let request_id = ge_next_request_id g
                  in (HERMAS_RUNTIME_OK,
                      set_flow flow_index
                        (flow\<lparr>fl_request_id := request_id, fl_state := HERMAS_EXECUTION_PREPARED\<rparr>)
                        (g\<lparr>ge_next_request_id := request_id + 1\<rparr>),
                      Some (group_invocation g flow request_id app_id action_id)))"

definition hermas_group_prepare ::
  "hermas_group_execution option \<Rightarrow> nat \<Rightarrow> hermas_frame option \<Rightarrow>
   hermas_runtime_result \<times> hermas_group_execution option \<times> hermas_frame option" where
  "hermas_group_prepare execution flow_index invocation =
    (case (execution, invocation) of
       (Some g, Some old) \<Rightarrow>
         if flow_index \<ge> HERMAS_RUNTIME_MAX_FLOWS
         then (HERMAS_RUNTIME_INVALID_ARGUMENT, execution, invocation)
         else (case group_prepare g flow_index of
             (r, g', None) \<Rightarrow> (r, Some g', Some old)
           | (r, g', Some f) \<Rightarrow> (r, Some g', Some f))
     | _ \<Rightarrow> (HERMAS_RUNTIME_INVALID_ARGUMENT, execution, invocation))"

definition hermas_group_mark_sent ::
  "hermas_group_execution option \<Rightarrow> nat \<Rightarrow> hermas_runtime_result \<times> hermas_group_execution option" where
  "hermas_group_mark_sent execution flow_index =
    (case execution of
       None \<Rightarrow> (HERMAS_RUNTIME_INVALID_STATE, None)
     | Some g \<Rightarrow>
         if flow_index \<ge> HERMAS_RUNTIME_MAX_FLOWS \<or> \<not> is_active (flow_at g flow_index) \<or>
            fl_state (flow_at g flow_index) \<noteq> HERMAS_EXECUTION_PREPARED
         then (HERMAS_RUNTIME_INVALID_STATE, Some g)
         else (HERMAS_RUNTIME_OK,
               Some (set_flow flow_index ((flow_at g flow_index)\<lparr>fl_state := HERMAS_EXECUTION_SENT\<rparr>) g)))"

definition group_delivery_outcome ::
  "nat \<Rightarrow> hermas_group_execution \<Rightarrow> nat \<Rightarrow> hermas_execution_state \<Rightarrow> u8 \<Rightarrow> u16 \<Rightarrow> group_outcome" where
  "group_delivery_outcome n g flow_index required source_kind outcome =
    (if flow_index \<ge> HERMAS_RUNTIME_MAX_FLOWS \<or> \<not> is_active (flow_at g flow_index) \<or>
        fl_state (flow_at g flow_index) \<noteq> required
     then Some (HERMAS_RUNTIME_INVALID_STATE, g)
     else
       let flow = flow_at g flow_index
       in case group_find_edge g source_kind (fl_current_node flow) 0 of
           None \<Rightarrow> Some (HERMAS_RUNTIME_INVALID_IMAGE, g)
         | Some edge \<Rightarrow>
             group_enter_edge n (set_flow flow_index (flow\<lparr>fl_value_length := 0\<rparr>) g) flow_index edge outcome)"

definition group_mark_not_sent :: "nat \<Rightarrow> hermas_group_execution \<Rightarrow> nat \<Rightarrow> group_outcome" where
  "group_mark_not_sent n g flow_index =
     group_delivery_outcome n g flow_index HERMAS_EXECUTION_PREPARED 3 HERMAS_OUTCOME_NOT_SENT"

definition group_mark_unknown :: "nat \<Rightarrow> hermas_group_execution \<Rightarrow> nat \<Rightarrow> group_outcome" where
  "group_mark_unknown n g flow_index =
     group_delivery_outcome n g flow_index HERMAS_EXECUTION_SENT 4 HERMAS_OUTCOME_UNKNOWN"

text \<open>The null check of an operation on a group.\<close>

definition on_group ::
  "(hermas_group_execution \<Rightarrow> group_outcome) \<Rightarrow> hermas_group_execution option \<Rightarrow>
   (hermas_runtime_result \<times> hermas_group_execution option) option" where
  "on_group operation execution =
    (case execution of
       None \<Rightarrow> Some (HERMAS_RUNTIME_INVALID_STATE, None)
     | Some g \<Rightarrow> map_option (map_prod id Some) (operation g))"

definition hermas_group_mark_not_sent ::
  "nat \<Rightarrow> hermas_group_execution option \<Rightarrow> nat \<Rightarrow>
   (hermas_runtime_result \<times> hermas_group_execution option) option" where
  "hermas_group_mark_not_sent n execution flow_index =
     on_group (\<lambda>g. group_mark_not_sent n g flow_index) execution"

definition hermas_group_mark_unknown ::
  "nat \<Rightarrow> hermas_group_execution option \<Rightarrow> nat \<Rightarrow>
   (hermas_runtime_result \<times> hermas_group_execution option) option" where
  "hermas_group_mark_unknown n execution flow_index =
     on_group (\<lambda>g. group_mark_unknown n g flow_index) execution"

section \<open>Results\<close>

definition group_result_expected :: "hermas_group_execution \<Rightarrow> hermas_flow \<Rightarrow> hermas_frame \<Rightarrow> bool" where
  "group_result_expected g flow r =
    (let node = node_record (ge_image g) (fl_current_node flow) in
     \<not> (fr_kind r \<noteq> HERMAS_FRAME_RESULT \<or> fr_execution_id r \<noteq> ge_execution_id g \<or>
        fr_request_id r \<noteq> fl_request_id flow \<or> fr_app_id r \<noteq> read_u16 (ge_image g) (node + 4) \<or>
        fr_action_id r \<noteq> read_u16 (ge_image g) (node + 2) \<or>
        fr_source_type r \<noteq> fr_destination_type r \<or>
        fr_outcome r \<noteq> HERMAS_OUTCOME_SUCCESS \<and> fr_outcome r \<noteq> HERMAS_OUTCOME_APP_ERROR))"

definition group_accept_result ::
  "nat \<Rightarrow> hermas_group_execution \<Rightarrow> nat \<Rightarrow> hermas_frame \<Rightarrow> group_outcome" where
  "group_accept_result n g flow_index r =
    (let flow = flow_at g flow_index in
     if \<not> is_active flow \<or> fl_state flow \<noteq> HERMAS_EXECUTION_SENT
     then Some (HERMAS_RUNTIME_INVALID_STATE, g)
     else if \<not> group_result_expected g flow r then Some (HERMAS_RUNTIME_UNEXPECTED_RESULT, g)
     else
       let source_kind = (if fr_outcome r = HERMAS_OUTCOME_SUCCESS then 1 else 2)
       in case group_find_edge g source_kind (fl_current_node flow) 0 of
           None \<Rightarrow> Some (HERMAS_RUNTIME_UNEXPECTED_RESULT, g)
         | Some edge \<Rightarrow>
             if fr_source_type r \<noteq> read_u16 (ge_image g) (edge + 8)
             then Some (HERMAS_RUNTIME_UNEXPECTED_RESULT, g)
             else if unat (fr_payload_length r) > fl_value_capacity flow \<or>
                hermas_image_validate_value (Some (ge_image g)) (ge_image_size g) (fr_source_type r)
                  (fr_payload r) (unat (fr_payload_length r)) \<noteq> HERMAS_IMAGE_OK
             then Some (HERMAS_RUNTIME_INVALID_VALUE, g)
             else (case group_copy_value flow (fr_payload r) (unat (fr_payload_length r)) of
                 (copied, flow') \<Rightarrow>
                   let g' = set_flow flow_index flow' g
                   in if copied \<noteq> HERMAS_RUNTIME_OK then Some (copied, g')
                      else group_enter_edge n g' flow_index edge (fr_outcome r)))"

definition hermas_group_accept_result ::
  "nat \<Rightarrow> hermas_group_execution option \<Rightarrow> nat \<Rightarrow> hermas_frame option \<Rightarrow>
   (hermas_runtime_result \<times> hermas_group_execution option) option" where
  "hermas_group_accept_result n execution flow_index frame =
    (case (execution, frame) of
       (Some g, Some r) \<Rightarrow>
         if flow_index \<ge> HERMAS_RUNTIME_MAX_FLOWS then Some (HERMAS_RUNTIME_INVALID_ARGUMENT, execution)
         else map_option (map_prod id Some) (group_accept_result n g flow_index r)
     | _ \<Rightarrow> Some (HERMAS_RUNTIME_INVALID_ARGUMENT, execution))"

definition group_result_frame :: "hermas_group_execution \<Rightarrow> hermas_frame" where
  "group_result_frame g =
    (let flow = flow_at g (unat (ge_pending_flow g));
         typed = (ge_pending_outcome g = HERMAS_OUTCOME_SUCCESS \<or>
                  ge_pending_outcome g = HERMAS_OUTCOME_APP_ERROR)
     in \<lparr>fr_kind = HERMAS_FRAME_EXECUTION_RESULT, fr_execution_id = ge_execution_id g,
         fr_request_id = 0, fr_app_id = 0, fr_action_id = 0,
         fr_source_type = (if typed then fl_value_source_type flow else 0),
         fr_destination_type = (if typed then fl_value_destination_type flow else 0),
         fr_outcome = ge_pending_outcome g,
         fr_payload = (if typed then fl_value_buffer flow else None),
         fr_payload_length = (if typed then of_nat (fl_value_length flow) else 0)\<rparr>)"

definition hermas_group_get_result ::
  "hermas_group_execution option \<Rightarrow> hermas_frame option \<Rightarrow> hermas_runtime_result \<times> hermas_frame option" where
  "hermas_group_get_result execution result =
    (case (execution, result) of
       (Some g, Some _) \<Rightarrow>
         if ge_complete g = 0 \<or> unat (ge_pending_flow g) \<ge> HERMAS_RUNTIME_MAX_FLOWS
         then (HERMAS_RUNTIME_INVALID_STATE, result)
         else (HERMAS_RUNTIME_OK, Some (group_result_frame g))
     | _ \<Rightarrow> (HERMAS_RUNTIME_INVALID_ARGUMENT, result))"

section \<open>Deadlines\<close>

definition hermas_group_deadline_ms :: "hermas_group_execution option \<Rightarrow> u64" where
  "hermas_group_deadline_ms execution = (case execution of None \<Rightarrow> 0 | Some g \<Rightarrow> ge_deadline_ms g)"

definition hermas_group_region_deadline_ms :: "hermas_group_execution option \<Rightarrow> u8 \<Rightarrow> u64" where
  "hermas_group_region_deadline_ms execution region_id =
    (case execution of
       None \<Rightarrow> 0
     | Some g \<Rightarrow>
         if region_id = 0 \<or> region_id > ge_region_count g then 0
         else ge_region_deadlines_ms g ! (unat region_id - 1))"

definition flow_in_region :: "hermas_group_execution \<Rightarrow> nat \<Rightarrow> u8 \<Rightarrow> bool" where
  "flow_in_region g flow_index region_id \<longleftrightarrow>
     is_active (flow_at g flow_index) \<and>
     fl_current_node (flow_at g flow_index) \<ge> ge_region_first_nodes g ! (unat region_id - 1) \<and>
     fl_current_node (flow_at g flow_index) \<le> ge_region_last_nodes g ! (unat region_id - 1)"

definition sent_in_region :: "hermas_group_execution \<Rightarrow> u8 \<Rightarrow> nat \<Rightarrow> bool" where
  "sent_in_region g region_id index \<longleftrightarrow>
     flow_in_region g index region_id \<and> fl_state (flow_at g index) = HERMAS_EXECUTION_SENT"

text \<open>Marking the sent flows of the region unknown, one after the other.\<close>

fun expire_sent :: "nat \<Rightarrow> u8 \<Rightarrow> nat list \<Rightarrow> hermas_group_execution \<Rightarrow> group_outcome" where
  "expire_sent n region_id [] g = Some (HERMAS_RUNTIME_OK, g)"
| "expire_sent n region_id (index # indices) g =
    (if \<not> sent_in_region g region_id index then expire_sent n region_id indices g
     else and_then (group_mark_unknown n g index) (expire_sent n region_id indices))"

definition expire_unsent :: "nat \<Rightarrow> hermas_group_execution \<Rightarrow> nat \<Rightarrow> group_outcome" where
  "expire_unsent n g index =
    (let flow = flow_at g index in
     if fl_state flow = HERMAS_EXECUTION_PREPARED then group_mark_not_sent n g index
     else case (fl_state flow, group_find_edge g 3 (fl_current_node flow) 0) of
         (HERMAS_EXECUTION_READY, Some edge) \<Rightarrow>
           group_enter_edge n (set_flow index (flow\<lparr>fl_value_length := 0\<rparr>) g) index edge
             HERMAS_OUTCOME_NOT_SENT
       | _ \<Rightarrow> Some (HERMAS_RUNTIME_OK, group_record_terminal g index HERMAS_OUTCOME_NOT_SENT))"

definition group_expire_region :: "nat \<Rightarrow> hermas_group_execution \<Rightarrow> u8 \<Rightarrow> group_outcome" where
  "group_expire_region n g region_id =
    (if region_id = 0 \<or> region_id > ge_region_count g \<or> ge_complete g \<noteq> 0
     then Some (HERMAS_RUNTIME_INVALID_STATE, g)
     else if list_ex (sent_in_region g region_id) [0..<HERMAS_RUNTIME_MAX_FLOWS]
     then expire_sent n region_id [0..<HERMAS_RUNTIME_MAX_FLOWS] g
     else case first_index (\<lambda>index. flow_in_region g index region_id) HERMAS_RUNTIME_MAX_FLOWS of
         None \<Rightarrow> Some (HERMAS_RUNTIME_INVALID_STATE, g)
       | Some index \<Rightarrow> expire_unsent n g index)"

definition hermas_group_expire_region ::
  "nat \<Rightarrow> hermas_group_execution option \<Rightarrow> u8 \<Rightarrow>
   (hermas_runtime_result \<times> hermas_group_execution option) option" where
  "hermas_group_expire_region n execution region_id =
     on_group (\<lambda>g. group_expire_region n g region_id) execution"

definition hermas_group_expire ::
  "nat \<Rightarrow> hermas_group_execution option \<Rightarrow> (hermas_runtime_result \<times> hermas_group_execution option) option" where
  "hermas_group_expire n execution = hermas_group_expire_region n execution 1"

end
