(* ===== verification/Hermas_Group_Progress.thy ===== *)
theory Hermas_Group_Progress
  imports Hermas_Group_Operations
begin

text \<open>
  What no operation of the group runtime ever undoes, on any branch, errors included: the image and
  the region tables stay, request IDs are only given by \<open>hermas_group_prepare\<close>, values stay in their
  buffers, the pending outcome only gets worse, and a complete execution stays complete. The relation
  \<open>group_progress\<close> says so of two states; every function is shown to stay in it, given that the
  function it enters edges with does.
\<close>

section \<open>The relation\<close>

definition flow_bounded :: "hermas_flow \<Rightarrow> bool" where
  "flow_bounded f \<longleftrightarrow>
     fl_value_length f \<le> fl_value_capacity f \<and>
     (\<exists>b. fl_value_buffer f = Some b \<and> length b = fl_value_capacity f)"

definition flow_progress :: "hermas_flow \<Rightarrow> hermas_flow \<Rightarrow> bool" where
  "flow_progress f f' \<longleftrightarrow>
     fl_request_id f' = fl_request_id f \<and> fl_value_capacity f' = fl_value_capacity f \<and>
     (flow_bounded f \<longrightarrow> flow_bounded f')"

definition each_bounded :: "hermas_group_execution \<Rightarrow> bool" where
  "each_bounded g \<longleftrightarrow>
     length (ge_each_collection g) = HERMAS_PROTOCOL_MAX_PAYLOAD_SIZE \<and>
     ge_each_collection_length g \<le> HERMAS_PROTOCOL_MAX_PAYLOAD_SIZE \<and>
     length (ge_each_source_snapshot g) = HERMAS_PROTOCOL_MAX_PAYLOAD_SIZE"

text \<open>The fields that only the start of an execution and \<open>hermas_group_prepare\<close> write.\<close>

definition static_part :: "hermas_group_execution \<Rightarrow> hermas_group_execution" where
  "static_part g = g\<lparr>ge_active_each_region := 0, ge_each_coordinator_flow := 0, ge_each_item_count := 0,
     ge_each_next_item := 0, ge_each_completed_items := 0, ge_each_flush_item := 0,
     ge_each_item_offsets := [], ge_each_item_lengths := [], ge_each_source_snapshot := [],
     ge_each_collection := [], ge_each_collection_length := 0, ge_flows := [],
     ge_pending_outcome := 0, ge_pending_flow := 0, ge_complete := 0\<rparr>"

definition group_progress :: "hermas_group_execution \<Rightarrow> hermas_group_execution \<Rightarrow> bool" where
  "group_progress g g' \<longleftrightarrow>
     static_part g' = static_part g \<and>
     list_all2 flow_progress (ge_flows g) (ge_flows g') \<and>
     group_outcome_precedence (ge_pending_outcome g) \<le> group_outcome_precedence (ge_pending_outcome g') \<and>
     (ge_complete g \<noteq> 0 \<longrightarrow> ge_complete g' \<noteq> 0) \<and>
     (each_bounded g \<longrightarrow> each_bounded g')"

lemma flow_progress_refl [simp]: "flow_progress f f"
  by (simp add: flow_progress_def)

lemma flow_progress_trans: "flow_progress f f' \<Longrightarrow> flow_progress f' f'' \<Longrightarrow> flow_progress f f''"
  by (simp add: flow_progress_def)

lemma flows_progress_trans:
  "list_all2 flow_progress fs fs' \<Longrightarrow> list_all2 flow_progress fs' fs'' \<Longrightarrow> list_all2 flow_progress fs fs''"
  unfolding list_all2_conv_all_nth by (metis flow_progress_trans)

lemma group_progress_refl [simp]: "group_progress g g"
  by (simp add: group_progress_def list_all2_refl)

lemma group_progress_trans [trans]:
  assumes "group_progress g g'" and "group_progress g' g''"
  shows "group_progress g g''"
proof -
  have "list_all2 flow_progress (ge_flows g) (ge_flows g'')"
    using assms unfolding group_progress_def by (blast intro: flows_progress_trans)
  then show ?thesis using assms by (simp add: group_progress_def)
qed

lemma group_progress_static:
  assumes "group_progress g g'"
  shows "ge_image g' = ge_image g" and "ge_image_size g' = ge_image_size g"
    and "ge_execution_id g' = ge_execution_id g" and "ge_next_request_id g' = ge_next_request_id g"
    and "ge_each_region_count g' = ge_each_region_count g"
proof -
  have same: "static_part g' = static_part g" using assms by (simp add: group_progress_def)
  show "ge_image g' = ge_image g" using arg_cong [OF same, of ge_image] by (simp add: static_part_def)
  show "ge_image_size g' = ge_image_size g" using arg_cong [OF same, of ge_image_size] by (simp add: static_part_def)
  show "ge_execution_id g' = ge_execution_id g" using arg_cong [OF same, of ge_execution_id] by (simp add: static_part_def)
  show "ge_next_request_id g' = ge_next_request_id g" using arg_cong [OF same, of ge_next_request_id] by (simp add: static_part_def)
  show "ge_each_region_count g' = ge_each_region_count g" using arg_cong [OF same, of ge_each_region_count] by (simp add: static_part_def)
qed

section \<open>The primitive changes\<close>

named_theorems progress_intros \<open>primitive changes that stay in the relation\<close>

lemma progress_set_flow [progress_intros]:
  assumes "flow_progress (flow_at g i) f"
  shows "group_progress g (set_flow i f g)"
proof -
  have "list_all2 flow_progress ((ge_flows g)[i := ge_flows g ! i]) ((ge_flows g)[i := f])"
    using assms by (intro list_all2_update_cong) (simp_all add: list_all2_refl flow_at_def)
  then show ?thesis
    by (simp add: group_progress_def set_flow_def static_part_def each_bounded_def)
qed

lemma progress_set_flow_later [progress_intros]:
  assumes "group_progress g g'" and "flow_progress (flow_at g' i) f"
  shows "group_progress g (set_flow i f g')"
  using assms group_progress_trans progress_set_flow by blast

lemma set_flow_twice [simp]: "set_flow i f (set_flow i f' g) = set_flow i f g"
  by (simp add: set_flow_def)

lemma flow_at_upd [simp]:
  "flow_at (g\<lparr>ge_active_each_region := a\<rparr>) i = flow_at g i"
  "flow_at (g\<lparr>ge_each_next_item := k\<rparr>) i = flow_at g i"
  by (simp_all add: flow_at_def)

lemma flow_progress_upd [simp]:
  "flow_progress f (f'\<lparr>fl_active := a\<rparr>) = flow_progress f f'"
  "flow_progress f (f'\<lparr>fl_state := s\<rparr>) = flow_progress f f'"
  "flow_progress f (f'\<lparr>fl_current_node := n\<rparr>) = flow_progress f f'"
  "flow_progress f (f'\<lparr>fl_value_source_type := n\<rparr>) = flow_progress f f'"
  "flow_progress f (f'\<lparr>fl_value_destination_type := n\<rparr>) = flow_progress f f'"
  "flow_progress f (f'\<lparr>fl_join_node := n\<rparr>) = flow_progress f f'"
  "flow_progress f (f'\<lparr>fl_join_tag := t\<rparr>) = flow_progress f f'"
  "flow_progress f (f'\<lparr>fl_each_region := t\<rparr>) = flow_progress f f'"
  "flow_progress f (f'\<lparr>fl_item_index := n\<rparr>) = flow_progress f f'"
  by (simp_all add: flow_progress_def flow_bounded_def)

lemma flow_progress_empty [simp]: "flow_progress f (f\<lparr>fl_value_length := 0\<rparr>)"
  by (simp add: flow_progress_def flow_bounded_def)

lemma flow_progress_copy:
  assumes "group_copy_value f v len = (r, f')"
  shows "flow_progress f f'"
proof -
  have "flow_progress f (f\<lparr>fl_value_buffer := Some (write_bytes b 0 (take len bs)), fl_value_length := len\<rparr>)"
    if "fl_value_buffer f = Some b" "len \<le> fl_value_capacity f" for b bs
    using that by (auto simp: flow_progress_def flow_bounded_def)
  then show ?thesis
    using assms by (auto simp: group_copy_value_def split: if_splits option.splits)
qed

lemma progress_copy [progress_intros]:
  "group_copy_value f v len = (r, f') \<Longrightarrow> flow_progress (flow_at g i) f \<Longrightarrow>
   group_progress g (set_flow i f' g)"
  using flow_progress_copy flow_progress_trans progress_set_flow by blast

lemma progress_maybe_complete [progress_intros]:
  "group_progress g g' \<Longrightarrow> group_progress g (group_maybe_complete g')"
  by (auto simp: group_maybe_complete_def group_progress_def static_part_def each_bounded_def)

lemma progress_record_terminal [progress_intros]:
  assumes "group_progress g g'"
  shows "group_progress g (group_record_terminal g' i outcome)"
proof -
  let ?g1 = "if group_outcome_precedence outcome > group_outcome_precedence (ge_pending_outcome g')
      then g'\<lparr>ge_pending_outcome := outcome, ge_pending_flow := of_nat i\<rparr> else g'"
  let ?g2 = "set_flow i ((flow_at ?g1 i)\<lparr>fl_active := 0\<rparr>) ?g1"
  have "group_progress g' ?g1"
    by (simp add: group_progress_def static_part_def each_bounded_def list_all2_refl)
  also have "group_progress ?g1 ?g2" by (intro progress_set_flow) simp
  also have "group_progress ?g2 (if outcome \<noteq> HERMAS_OUTCOME_SUCCESS
      then ?g2\<lparr>ge_flows := map cut_off (ge_flows ?g2)\<rparr> else ?g2)"
  proof -
    have "list_all2 flow_progress fs (map cut_off fs)" for fs
      by (simp add: list_all2_conv_all_nth cut_off_def)
    then show ?thesis by (simp add: group_progress_def static_part_def each_bounded_def list_all2_refl)
  qed
  finally have "group_progress g' (if outcome \<noteq> HERMAS_OUTCOME_SUCCESS
      then ?g2\<lparr>ge_flows := map cut_off (ge_flows ?g2)\<rparr> else ?g2)" .
  from progress_maybe_complete [OF group_progress_trans [OF assms this]] show ?thesis
    by (simp only: group_record_terminal_def Let_def)
qed

text \<open>The bookkeeping of an each region.\<close>

lemma progress_fields [progress_intros]:
  "group_progress g g' \<Longrightarrow> group_progress g (g'\<lparr>ge_active_each_region := a\<rparr>)"
  "group_progress g g' \<Longrightarrow> group_progress g (g'\<lparr>ge_each_next_item := k\<rparr>)"
  "group_progress g g' \<Longrightarrow> group_progress g (g'\<lparr>ge_each_completed_items := k\<rparr>)"
  by (simp_all add: group_progress_def static_part_def each_bounded_def)

section \<open>Every function stays in the relation\<close>

definition progress_enter :: "group_enter \<Rightarrow> bool" where
  "progress_enter enter \<longleftrightarrow> (\<forall>g i edge outcome r g'. enter g i edge outcome = Some (r, g') \<longrightarrow> group_progress g g')"

lemma progress_enterD: "progress_enter enter \<Longrightarrow> enter g i edge outcome = Some (r, g') \<Longrightarrow> group_progress g g'"
  by (auto simp: progress_enter_def)

lemma progress_enter_later:
  "progress_enter enter \<Longrightarrow> enter g1 i edge outcome = Some (r, g') \<Longrightarrow> group_progress g g1 \<Longrightarrow> group_progress g g'"
  using progress_enterD group_progress_trans by blast

lemma progress_each_finish:
  assumes "progress_enter enter" and "group_each_finish enter g = Some (r, g')"
  shows "group_progress g g'"
proof -
  let ?c = "unat (ge_each_coordinator_flow g)"
  obtain copied flow where copy: "group_copy_value (flow_at g ?c) (Some (ge_each_collection g))
      (ge_each_collection_length g) = (copied, flow)" by fastforce
  have 1: "group_progress g (set_flow ?c flow g)" by (rule progress_copy [OF copy]) simp
  have "flow_progress (flow_at g ?c) (flow\<lparr>fl_active := 1, fl_each_region := 0\<rparr>)"
    using flow_progress_copy [OF copy] by simp
  then have "group_progress g ((set_flow ?c (flow\<lparr>fl_active := 1, fl_each_region := 0\<rparr>) g)\<lparr>ge_active_each_region := 0\<rparr>)"
    by (intro progress_fields progress_set_flow)
  then show ?thesis
    using assms 1 copy unfolding group_each_finish_def Let_def
    by (auto split: if_splits option.splits dest: progress_enter_later)
qed

lemma progress_and_then:
  assumes "and_then m f = Some (r, g')" and "\<And>r g1. m = Some (r, g1) \<Longrightarrow> group_progress g g1"
    and "\<And>g1. f g1 = Some (r, g') \<Longrightarrow> group_progress g1 g'"
  shows "group_progress g g'"
  using assms group_progress_trans by (auto simp: and_then_Some)

lemma progress_admit_item:
  assumes "admit_item region_id slot g = (r, g')"
  shows "group_progress g g'"
proof -
  obtain copied flow where copy: "group_copy_value ((flow_at g slot)\<lparr>fl_active := 1, fl_each_region := region_id,
      fl_item_index := ge_each_next_item g\<rparr>)
      (Some (drop (ge_each_item_offsets g ! unat (ge_each_next_item g)) (ge_each_source_snapshot g)))
      (ge_each_item_lengths g ! unat (ge_each_next_item g)) = (copied, flow)" by fastforce
  then have "flow_progress (flow_at g slot) flow"
    using flow_progress_trans [OF _ flow_progress_copy [OF copy], of "flow_at g slot"] by simp
  then show ?thesis
    using assms copy by (auto simp: admit_item_def Let_def intro!: progress_set_flow_later progress_fields)
qed

lemma progress_admit_items:
  assumes "progress_enter enter"
  shows "group_admit_items n enter region_id g = Some (r, g') \<Longrightarrow> group_progress g g'"
proof (induction n arbitrary: g)
  case (Suc n)
  show ?case
  proof (cases "find_flow g (\<lambda>_ f. \<not> is_active f)")
    case None
    then show ?thesis using Suc.prems by (auto split: if_splits)
  next
    case (Some slot)
    obtain copied g1 where admit: "admit_item region_id slot g = (copied, g1)" by fastforce
    have g1: "group_progress g g1" by (rule progress_admit_item [OF admit])
    have "group_progress g g'"
      if "and_then (enter g1 slot edge HERMAS_OUTCOME_NONE) (group_admit_items n enter region_id) = Some (r, g')" for edge
      using that by (rule progress_and_then) (use progress_enter_later [OF assms _ g1] Suc.IH in blast)+
    then show ?thesis
      using Suc.prems Some admit g1 by (auto split: if_splits option.splits)
  qed
qed simp

lemma progress_each_admit:
  "progress_enter enter \<Longrightarrow> group_each_admit n enter g = Some (r, g') \<Longrightarrow> group_progress g g'"
  using progress_admit_items by (auto simp: group_each_admit_def Let_def split: if_splits)

lemma progress_flush_item:
  assumes "\<not> fl_value_length (flow_at g ready) > HERMAS_PROTOCOL_MAX_PAYLOAD_SIZE - ge_each_collection_length g"
  shows "group_progress g (flush_item ready g)"
proof -
  let ?f = "flow_at g ready"
  let ?data = "take (fl_value_length ?f) (payload_bytes (fl_value_buffer ?f))"
  have "group_progress g (g\<lparr>ge_each_collection := write_bytes (ge_each_collection g) (ge_each_collection_length g) ?data,
      ge_each_collection_length := ge_each_collection_length g + fl_value_length ?f,
      ge_each_flush_item := ge_each_flush_item g + 1\<rparr>)"
    using assms by (auto simp: group_progress_def static_part_def list_all2_refl each_bounded_def)
  then show ?thesis
    unfolding flush_item_def Let_def by (rule progress_set_flow_later) (simp add: flow_at_def)
qed

lemma progress_flush: "group_flush region_id g = (r, g') \<Longrightarrow> group_progress g g'"
proof (induction region_id g rule: group_flush.induct)
  case (1 region_id g)
  then show ?case
    using progress_flush_item group_progress_trans
    by (auto simp: group_flush.simps [of region_id g] split: option.splits if_splits) blast
qed

lemma progress_each_collect:
  assumes "progress_enter enter" and "group_each_collect n enter g i region_id = Some (r, g')"
  shows "group_progress g g'"
proof -
  let ?g1 = "(set_flow i ((flow_at g i)\<lparr>fl_state := HERMAS_EXECUTION_WAITING\<rparr>) g)
      \<lparr>ge_each_completed_items := ge_each_completed_items g + 1\<rparr>"
  have "group_progress g ?g1" by (intro progress_intros) simp
  then have "group_progress g g2" if "group_flush region_id ?g1 = (c, g2)" for c g2
    using that progress_flush group_progress_trans by blast
  then show ?thesis
    using assms(2) progress_each_finish [OF assms(1)] progress_each_admit [OF assms(1)] group_progress_trans
    unfolding group_each_collect_def Let_def
    by (simp split: if_splits prod.splits)
qed

lemma progress_each_list:
  assumes "each_list g i region_id = (listed, count, g')"
    and "\<not> fl_value_length (flow_at g i) > HERMAS_PROTOCOL_MAX_PAYLOAD_SIZE"
  shows "group_progress g g'"
  using assms
  by (auto simp: each_list_def Let_def group_progress_def static_part_def list_all2_refl each_bounded_def
      split: prod.splits)

lemma progress_each_open: "group_progress g (each_open g i region_id count)"
proof -
  have "length (write_u32 (write_u32 xs 0 v) 4 w) = length xs" for xs v w
    by (simp add: length_write_fields)
  then have "group_progress g (g\<lparr>ge_active_each_region := region_id, ge_each_coordinator_flow := of_nat i,
      ge_each_item_count := count, ge_each_next_item := 0, ge_each_completed_items := 0,
      ge_each_flush_item := 0, ge_each_collection_length := 8,
      ge_each_collection := write_u32 (write_u32 (ge_each_collection g) 0 (ucast count)) 4 0\<rparr>)"
    by (simp add: group_progress_def static_part_def list_all2_refl each_bounded_def)
  then show ?thesis
    unfolding each_open_def by (rule progress_set_flow_later) (simp add: flow_at_def)
qed

lemma progress_each_start:
  assumes "progress_enter enter" and "group_each_start n enter g i region_id = Some (r, g')"
  shows "group_progress g g'"
proof -
  obtain listed count g1 where list: "each_list g i region_id = (listed, count, g1)" by (metis prod_cases3)
  let ?g2 = "each_open g1 i region_id count"
  show ?thesis
  proof (cases "fl_value_length (flow_at g i) > HERMAS_PROTOCOL_MAX_PAYLOAD_SIZE")
    case False
    have 1: "group_progress g g1" by (rule progress_each_list [OF list False])
    have 2: "group_progress g ?g2" by (rule group_progress_trans [OF 1 progress_each_open])
    show ?thesis
      using assms(2) list 1 group_progress_trans [OF 2 progress_each_finish [OF assms(1), of ?g2 r g']]
        group_progress_trans [OF 2 progress_each_admit [OF assms(1), of n ?g2 r g']]
      by (auto simp: group_each_start_def split: if_splits)
  qed (use assms(2) in \<open>auto simp: group_each_start_def split: if_splits\<close>)
qed

lemma progress_route_dispatch:
  assumes "progress_enter enter" and "group_route_dispatch enter g i node outcome = Some (r, g')"
  shows "group_progress g g'"
proof -
  let ?f = "flow_at g i"
  have "flow_progress ?f (?f\<lparr>fl_value_buffer := shift_value 8 (fl_value_length ?f) (fl_value_buffer ?f),
      fl_value_length := fl_value_length ?f - 8\<rparr>)"
    by (auto simp: flow_progress_def flow_bounded_def shift_value_def)
  then have "group_progress g (set_flow i (?f\<lparr>fl_value_buffer := shift_value 8 (fl_value_length ?f) (fl_value_buffer ?f),
      fl_value_length := fl_value_length ?f - 8\<rparr>) g)" by (rule progress_set_flow)
  then show ?thesis
    using assms(2) progress_enter_later [OF assms(1)] unfolding group_route_dispatch_def Let_def
    by (auto split: if_splits option.splits)
qed

lemma progress_join_outputs:
  assumes "progress_enter enter"
  shows "group_join_outputs enter node branches g = Some (r, g') \<Longrightarrow> group_progress g g'"
proof (induction branches arbitrary: g)
  case Nil
  then show ?case by (auto intro: progress_maybe_complete)
next
  case (Cons branch branches)
  obtain tag i where branch: "branch = (tag, i)" by fastforce
  have "group_progress g (set_flow i ((flow_at g i)\<lparr>fl_active := 0\<rparr>) g)" by (rule progress_set_flow) simp
  moreover have "group_progress g g'"
    if "and_then (enter g i edge HERMAS_OUTCOME_SUCCESS) (group_join_outputs enter node branches) = Some (r, g')" for edge
    using that by (rule progress_and_then) (use progress_enterD [OF assms] Cons.IH in blast)+
  ultimately show ?case
    using Cons.prems Cons.IH group_progress_trans unfolding branch by (auto split: option.splits)
qed

lemma progress_resolve_join:
  assumes "progress_enter enter" and "group_resolve_join enter g node = Some (r, g')"
  shows "group_progress g g'"
  using assms(2) progress_join_outputs [OF assms(1)] progress_maybe_complete [OF group_progress_refl]
  by (auto simp: group_resolve_join_def Let_def split: if_splits)

lemma progress_fork_flows:
  "group_fork_flows source n g = (r, flows, g') \<Longrightarrow> group_progress g g'"
proof (induction n arbitrary: g r flows g')
  case (Suc n)
  have step: "group_progress g (set_flow i f g)"
    if "group_copy_value ((flow_at g i)\<lparr>fl_active := 1\<rparr>) v len = (copied, f)" for i f copied v len
    using flow_progress_trans [OF _ flow_progress_copy [OF that], of "flow_at g i"] by (intro progress_set_flow) simp
  show ?case
    using Suc.prems Suc.IH step group_progress_trans
    by (simp add: Let_def split: option.splits prod.splits if_splits) blast+
qed simp

lemma progress_fork_outputs:
  assumes "progress_enter enter"
  shows "group_fork_outputs enter node branches g = Some (r, g') \<Longrightarrow> group_progress g g'"
proof (induction branches arbitrary: g)
  case (Cons branch branches)
  obtain tag i where branch: "branch = (tag, i)" by fastforce
  have "group_progress g g'"
    if "and_then (enter g i edge HERMAS_OUTCOME_NONE) (group_fork_outputs enter node branches) = Some (r, g')" for edge
    using that by (rule progress_and_then) (use progress_enterD [OF assms] Cons.IH in blast)+
  then show ?case using Cons.prems unfolding branch by (auto split: option.splits)
qed simp

lemma progress_enter_fork:
  assumes "progress_enter enter" and "group_enter_fork enter g source node = Some (r, g')"
  shows "group_progress g g'"
  using assms(2) progress_fork_flows progress_fork_outputs [OF assms(1)] group_progress_trans
  by (auto simp: group_enter_fork_def Let_def split: if_splits prod.splits) blast

text \<open>The induction on the depth of the calls.\<close>

lemma progress_group_enter_edge: "progress_enter (group_enter_edge n)"
proof (induction n)
  case 0
  show ?case by (simp add: progress_enter_def)
next
  case (Suc n)
  show ?case
    unfolding progress_enter_def
  proof (intro allI impI)
    fix g i edge outcome r g'
    assume enter: "group_enter_edge (Suc n) g i edge outcome = Some (r, g')"
    let ?f = "entering_flow g i edge" and ?kind = "ge_image g ! (edge + 1)"
    have f: "flow_progress (flow_at g i) ?f" by (simp add: entering_flow_def)
    note g1 = progress_set_flow [OF f]
    have g2: "group_progress g (set_flow i (?f\<lparr>fl_state := HERMAS_EXECUTION_READY, fl_active := 1\<rparr>) g)"
      and g3: "group_progress g (set_flow i (?f\<lparr>fl_join_node := read_u16 (ge_image g) (edge + 6),
          fl_join_tag := ge_image g ! (edge + 3), fl_state := HERMAS_EXECUTION_WAITING\<rparr>) g)"
      by (intro progress_set_flow; simp add: f)+
    consider "?kind = 1" | "?kind = 4" | "?kind = 3" | "?kind = 5" | "?kind = 6" | "?kind = 7" | "?kind = 2"
      | "?kind \<notin> {1, 2, 3, 4, 5, 6, 7}" by auto
    then show "group_progress g g'"
    proof cases
      case 1
      then show ?thesis using enter g2 by (simp add: group_enter_edge.simps(2) Let_def)
    next
      case 2
      then show ?thesis using enter progress_enter_fork [OF Suc.IH] group_progress_trans [OF g1]
        by (simp add: group_enter_edge.simps(2) Let_def)
    next
      case 3
      then show ?thesis using enter progress_route_dispatch [OF Suc.IH] group_progress_trans [OF g1]
        by (simp add: group_enter_edge.simps(2) Let_def)
    next
      case 4
      then show ?thesis using enter progress_resolve_join [OF Suc.IH] group_progress_trans [OF g3]
        by (simp add: group_enter_edge.simps(2) Let_def)
    next
      case 5
      then show ?thesis using enter progress_each_start [OF Suc.IH] group_progress_trans [OF g1]
        by (simp add: group_enter_edge.simps(2) Let_def)
    next
      case 6
      then show ?thesis using enter progress_each_collect [OF Suc.IH] group_progress_trans [OF g1]
        by (simp add: group_enter_edge.simps(2) Let_def)
    next
      case 7
      then show ?thesis using enter progress_record_terminal [OF g1]
        by (auto simp: group_enter_edge.simps(2) Let_def)
    next
      case 8
      then show ?thesis using enter g1 by (auto simp: group_enter_edge.simps(2) Let_def)
    qed
  qed
qed

end
