(* ===== verification/Hermas_Image_Facts.thy ===== *)
theory Hermas_Image_Facts
  imports Hermas_Image_Queries
begin

text \<open>
  What an accepted image guarantees: its tables lie in the image one after the other, its type table
  spells types, every node is reached from the workflow input, every Action has one edge for each of
  its outcomes; and what the value queries then mean.
\<close>

section \<open>The stages of an accepted image\<close>

lemma image_check_stages:
  assumes "image_check img n = Inr (h, nt, rt, et)"
  shows "check_header img n = Inr h" and "offsets_valid n h" and "name_valid img h"
    and "check_errors img h = Inr ()" and "check_contracts img h = Inr ()"
    and "check_types img h = Inr ()" and "check_nodes img h = Inr nt"
    and "check_regions img h nt = Inr rt" and "check_edges img h nt rt = Inr et"
    and "list_all (node_topology nt rt et) [1..<ih_node_count h + 1]"
    and "saga_topology h nt rt" and "each_topology rt et" and "all_reachable img h rt et"
  using assms by (auto simp: image_check_def split: sum.splits if_splits)

lemma for_each_Inl:
  "for_each f is s = Inl e \<Longrightarrow> \<exists>i \<in> set is. \<exists>t. f i t = Inl e"
  by (induction "is" arbitrary: s) (auto split: sum.splits)

lemma region_not_OK: "check_region img h nt i rt \<noteq> Inl HERMAS_IMAGE_OK"
  unfolding check_region_def Let_def
  by (simp add: check_deadline_def check_each_def check_saga_step_def check_saga_outcome_def Let_def
      split: option.split prod.split)

lemma edge_not_OK: "check_edge img h nt rt i et \<noteq> Inl HERMAS_IMAGE_OK"
proof -
  have "count_target e s \<noteq> Inl HERMAS_IMAGE_OK" "count_source rt e s \<noteq> Inl HERMAS_IMAGE_OK" for e s
    by (simp_all add: count_target_def count_source_def Let_def)
  then show ?thesis by (auto simp: check_edge_def Let_def split: sum.split)
qed

lemma image_check_not_OK: "image_check img n \<noteq> Inl HERMAS_IMAGE_OK"
proof -
  have "check_header img n \<noteq> Inl HERMAS_IMAGE_OK" by (simp add: check_header_def)
  moreover have "check_errors img h \<noteq> Inl HERMAS_IMAGE_OK"
      "check_contracts img h \<noteq> Inl HERMAS_IMAGE_OK" for h
    by (auto simp: check_errors_def check_contracts_def Let_def dest!: for_each_Inl split: if_splits)
  moreover have "check_types img h \<noteq> Inl HERMAS_IMAGE_OK" for h
    by (auto simp: check_types_def check_type_def Let_def dest!: for_each_Inl split: if_splits sum.splits)
  moreover have "check_nodes img h \<noteq> Inl HERMAS_IMAGE_OK" for h
    by (auto simp: check_nodes_def check_node_def Let_def dest!: for_each_Inl
        split: if_splits sum.splits option.splits)
  moreover have "check_regions img h nt \<noteq> Inl HERMAS_IMAGE_OK" for h nt
    using region_not_OK by (auto simp: check_regions_def dest!: for_each_Inl)
  moreover have "check_edges img h nt rt \<noteq> Inl HERMAS_IMAGE_OK" for h nt rt
    using edge_not_OK by (auto simp: check_edges_def dest!: for_each_Inl split: sum.splits if_splits)
  ultimately show ?thesis by (auto simp: image_check_def split: sum.splits if_splits)
qed

lemma validate_OK_iff:
  "fst (hermas_image_validate bs n summary) = HERMAS_IMAGE_OK \<longleftrightarrow>
     (\<exists>img r. bs = Some img \<and> image_check img n = Inr r)"
  using image_check_not_OK by (auto simp: hermas_image_validate_def split: option.splits sum.splits)

lemma check_header_fields:
  assumes "check_header img n = Inr h"
  shows "h = read_header img" and "80 \<le> n" and "n \<le> 1048576" and "counts_valid h"
  using assms by (auto simp: check_header_def split: if_splits)

text \<open>The tables are laid out one after the other, the strings last.\<close>

lemma checked_table_end_Some: "checked_table_end a k sz = Some b \<Longrightarrow> b = a + sz * k"
  by (simp add: checked_table_end_def mult.commute split: if_splits)

lemma align_down: "unat (w AND NOT 3 :: u64) = unat w div 4 * 4"
proof -
  have "NOT (mask 2) = (NOT 3 :: u64)" by (simp add: mask_eq_exp_minus_1)
  moreover have "Suc (Suc (k - 2)) = k" if "2 \<le> k" for k using that by arith
  then have "push_bit 2 (drop_bit 2 w) = w AND NOT (mask 2)"
    by (intro bit_eqI)
      (auto simp: bit_push_bit_iff bit_drop_bit_eq bit_and_iff bit_not_iff bit_mask_iff not_less)
  ultimately have "unat (w AND NOT 3) = unat (push_bit 2 (drop_bit 2 w))" by simp
  also have "\<dots> = take_bit 64 (push_bit 2 (drop_bit 2 (unat w)))"
    by (simp only: unsigned_push_bit_eq unat_drop_bit_eq) simp
  also have "\<dots> = unat w div 4 * 4 mod 2 ^ 64"
    by (simp add: push_bit_eq_mult drop_bit_eq_div take_bit_eq_mod)
  also have "\<dots> = unat w div 4 * 4"
  proof -
    have "unat w < 2 ^ 64" using unsigned_less [of w, where ?'a = nat] by simp
    moreover have "unat w div 4 * 4 \<le> unat w" by simp
    ultimately show ?thesis by (metis le_less_trans mod_less)
  qed
  finally show ?thesis .
qed

lemma expected_contracts_bounds:
  assumes "k \<le> 256"
  shows "80 + 2 * k \<le> expected_contracts k"
proof -
  have "unat (of_nat (80 + k * 2 + 3) :: u64) = 80 + k * 2 + 3"
    unfolding unat_of_nat using assms by simp
  then have "expected_contracts k = (80 + k * 2 + 3) div 4 * 4"
    unfolding expected_contracts_def align_down by simp
  then show ?thesis by presburger
qed

lemma offsets_layout:
  assumes "offsets_valid n h" and "counts_valid h"
  shows "ih_errors h = 80" and "80 + 2 * ih_error_count h \<le> ih_contracts h"
    and "ih_types h = ih_contracts h + 36 * ih_contract_count h"
    and "ih_nodes h = ih_types h + 8 * ih_type_count h"
    and "ih_edges h = ih_nodes h + 8 * ih_node_count h"
    and "ih_regions h = ih_edges h + 16 * ih_edge_count h"
    and "ih_representations h = ih_regions h + 16 * ih_region_count h"
    and "ih_strings h = ih_representations h + ih_representations_length h"
    and "ih_name_offset h = ih_strings h" and "ih_strings h + ih_name_length h = n"
  using assms expected_contracts_bounds [of "ih_error_count h"]
  by (auto simp: offsets_valid_def Let_def counts_valid_def dest!: checked_table_end_Some
      split: option.splits if_splits)

section \<open>The type table\<close>

text \<open>Type \<open>index\<close> of the table is spelled by \<open>t\<close>.\<close>

definition type_entry :: "bytes \<Rightarrow> image_header \<Rightarrow> nat \<Rightarrow> u16 \<Rightarrow> ty \<Rightarrow> bool" where
  "type_entry img h index type_id t \<longleftrightarrow>
     index < ih_type_count h \<and> read_u16 img (ih_types h + index * 8) = type_id \<and>
     spelled 65 img (ih_strings h) (unat (read_u32 img (ih_types h + index * 8 + 4))) t"

text \<open>What the type table of an image says about a type ID.\<close>

definition image_type :: "bytes \<Rightarrow> u16 \<Rightarrow> ty \<Rightarrow> bool" where
  "image_type img type_id t \<longleftrightarrow> (\<exists>index. type_entry img (read_header img) index type_id t)"

text \<open>The types of a table: each spelled where its record says, one after the other, IDs distinct.\<close>

definition type_table :: "bytes \<Rightarrow> image_header \<Rightarrow> ty list \<Rightarrow> bool" where
  "type_table img h tys \<longleftrightarrow>
     length tys = ih_type_count h \<and>
     (\<forall>i < ih_type_count h. type_entry img h i (read_u16 img (ih_types h + i * 8)) (tys ! i) \<and>
        unat (read_u32 img (ih_types h + i * 8 + 4)) =
          ih_representations h + length (concat (map ty_bytes (take i tys))) \<and>
        (\<forall>j < i. read_u16 img (ih_types h + i * 8) \<noteq> read_u16 img (ih_types h + j * 8)) \<and>
        read_u16 img (ih_types h + i * 8) \<noteq> 0) \<and>
     ih_strings h = ih_representations h + length (concat (map ty_bytes tys))"

lemma for_each_check:
  "for_each (\<lambda>i _. if \<not> P i then Inl e else Inr ()) is () = Inr () \<longleftrightarrow> list_all P is"
  by (induction "is") auto

lemma check_types_loop:
  assumes "check_types img h = Inr ()" and "ih_strings h \<le> length img"
  obtains tys where "type_table img h tys"
    and "known_type img h (ih_input_type h)" and "known_type img h (ih_success_type h)"
    and "\<forall>i < ih_error_count h. known_type img h (read_u16 img (ih_errors h + i * 2))"
proof -
  let ?off = "\<lambda>i. unat (read_u32 img (ih_types h + i * 8 + 4))"
  let ?id = "\<lambda>i. read_u16 img (ih_types h + i * 8)"
  let ?good = "\<lambda>tys i. spelled 65 img (ih_strings h) (?off i) (tys ! i) \<and>
      ?off i = ih_representations h + length (concat (map ty_bytes (take i tys))) \<and>
      (\<forall>j < i. ?id i \<noteq> ?id j) \<and> ?id i \<noteq> 0"
  obtain cursor where loop: "for_each (check_type img h) [0..<ih_type_count h] (ih_representations h) = Inr cursor"
    and rest: "cursor = ih_strings h" "known_type img h (ih_input_type h)" "known_type img h (ih_success_type h)"
    and errs: "for_each (\<lambda>index _. if \<not> known_type img h (read_u16 img (ih_errors h + index * 2))
                then Inl HERMAS_IMAGE_INVALID_RECORD else Inr ()) [0..<ih_error_count h] () = Inr ()"
    using assms(1) by (auto simp: check_types_def split: sum.splits if_splits)
  have "\<exists>tys. length tys = ih_type_count h \<and> (\<forall>i < ih_type_count h. ?good tys i) \<and>
      cursor = ih_representations h + length (concat (map ty_bytes tys))"
  proof (rule for_each_invariant [OF loop, where I = "\<lambda>n cursor. \<exists>tys. length tys = n \<and>
        (\<forall>i < n. ?good tys i) \<and> cursor = ih_representations h + length (concat (map ty_bytes tys))"])
    show "\<exists>tys. length tys = 0 \<and> (\<forall>i < 0. ?good tys i) \<and>
        ih_representations h = ih_representations h + length (concat (map ty_bytes tys))" by simp
  next
    fix i cursor cursor'
    assume "\<exists>tys. length tys = i \<and> (\<forall>j < i. ?good tys j) \<and>
        cursor = ih_representations h + length (concat (map ty_bytes tys))"
      and step: "check_type img h i cursor = Inr cursor'"
    then obtain tys where tys: "length tys = i" "\<forall>j < i. ?good tys j"
      "cursor = ih_representations h + length (concat (map ty_bytes tys))" by blast
    have "?id i \<noteq> 0" "?off i = cursor" "\<forall>j < i. ?id i \<noteq> ?id j"
      and walk: "representation_walk 65 img (ih_strings h) cursor = Inr cursor'"
      using step by (auto simp: check_type_def validate_representation_def Let_def list_ex_iff
          split: if_splits sum.splits)
    moreover from walk obtain t where "spelled 65 img (ih_strings h) cursor t" "cursor' = cursor + length (ty_bytes t)"
      unfolding representation_walk_iff [OF assms(2)] by blast
    ultimately have "length (tys @ [t]) = Suc i \<and> (\<forall>j < Suc i. ?good (tys @ [t]) j) \<and>
        cursor' = ih_representations h + length (concat (map ty_bytes (tys @ [t])))"
      using tys by (auto simp: less_Suc_eq nth_append)
    then show "\<exists>tys. length tys = Suc i \<and> (\<forall>j < Suc i. ?good tys j) \<and>
        cursor' = ih_representations h + length (concat (map ty_bytes tys))" by blast
  qed
  then obtain tys where tys: "length tys = ih_type_count h" "\<forall>i < ih_type_count h. ?good tys i"
      "cursor = ih_representations h + length (concat (map ty_bytes tys))" by blast
  have "ih_strings h = ih_representations h + length (concat (map ty_bytes tys))"
    using tys(3) rest(1) by simp
  with tys(1,2) have "type_table img h tys" unfolding type_table_def type_entry_def by blast
  then show thesis using that rest(2,3) errs by (simp add: for_each_check list_all_iff)
qed

lemma accepted_header:
  assumes "image_check img n = Inr (h, nt, rt, et)"
  shows "h = read_header img" and "80 \<le> n" and "n \<le> 1048576" and "counts_valid h" and "offsets_valid n h"
  using check_header_fields [OF image_check_stages(1) [OF assms]] image_check_stages(2) [OF assms]
  by blast+

lemmas accepted_layout = offsets_layout [OF accepted_header(5) accepted_header(4)]

lemma accepted_types:
  assumes "image_check img n = Inr (h, nt, rt, et)" and "n \<le> length img"
  obtains tys where "type_table img h tys"
proof -
  have "ih_strings h \<le> length img" using accepted_layout(10) [OF assms(1) assms(1)] assms(2) by simp
  with image_check_stages(6) [OF assms(1)] show thesis using check_types_loop that by blast
qed

text \<open>The lookup of a type ID finds the entry with that ID, and there is only one.\<close>

lemma type_table_entry:
  assumes "type_table img h tys"
  shows "type_entry img h i type_id t \<Longrightarrow> read_u16 img (ih_types h + i * 8) = type_id \<and> i < length tys"
    and "i < length tys \<Longrightarrow> type_entry img h i (read_u16 img (ih_types h + i * 8)) (tys ! i)"
  using assms by (auto simp: type_table_def type_entry_def)

lemma type_table_first:
  assumes "type_table img h tys"
  shows "first_index (\<lambda>i. read_u16 img (ih_types h + i * 8) = type_id) (ih_type_count h) = Some i \<longleftrightarrow>
    i < length tys \<and> read_u16 img (ih_types h + i * 8) = type_id"
proof -
  have "\<forall>j < i. read_u16 img (ih_types h + j * 8) \<noteq> type_id"
    if "i < length tys" "read_u16 img (ih_types h + i * 8) = type_id"
    using assms that by (fastforce simp: type_table_def)
  then show ?thesis using assms by (auto simp: first_index_Some type_table_def)
qed

section \<open>Values\<close>

text \<open>An entry of the table is spelled within its own bytes: it ends where the next one starts.\<close>

lemma type_table_range:
  assumes "type_table img h tys" and "i < length tys"
  shows "spelled 65 img (unat (read_u32 img (ih_types h + i * 8 + 4)) + length (ty_bytes (tys ! i)))
      (unat (read_u32 img (ih_types h + i * 8 + 4))) (tys ! i)"
    and "(if i + 1 < ih_type_count h then unat (read_u32 img (ih_types h + (i + 1) * 8 + 4)) else ih_strings h) =
      unat (read_u32 img (ih_types h + i * 8 + 4)) + length (ty_bytes (tys ! i))"
    and "unat (read_u32 img (ih_types h + i * 8 + 4)) + length (ty_bytes (tys ! i)) \<le> ih_strings h"
proof -
  have entry: "spelled 65 img (ih_strings h) (unat (read_u32 img (ih_types h + i * 8 + 4))) (tys ! i)"
    using type_table_entry(2) [OF assms] by (simp add: type_entry_def)
  then show "spelled 65 img (unat (read_u32 img (ih_types h + i * 8 + 4)) + length (ty_bytes (tys ! i)))
      (unat (read_u32 img (ih_types h + i * 8 + 4))) (tys ! i)"
    and "unat (read_u32 img (ih_types h + i * 8 + 4)) + length (ty_bytes (tys ! i)) \<le> ih_strings h"
    by (simp_all add: spelled_def)
  have off: "unat (read_u32 img (ih_types h + j * 8 + 4)) =
      ih_representations h + length (concat (map ty_bytes (take j tys)))" if "j < length tys" for j
    using assms(1) that by (simp add: type_table_def)
  have split: "length (concat (map ty_bytes (take (Suc i) tys))) =
      length (concat (map ty_bytes (take i tys))) + length (ty_bytes (tys ! i))"
    using assms(2) by (simp add: take_Suc_conv_app_nth)
  show "(if i + 1 < ih_type_count h then unat (read_u32 img (ih_types h + (i + 1) * 8 + 4)) else ih_strings h) =
      unat (read_u32 img (ih_types h + i * 8 + 4)) + length (ty_bytes (tys ! i))"
  proof (cases "i + 1 < ih_type_count h")
    case True
    then show ?thesis using off [of i] off [of "i + 1"] split assms by (simp add: type_table_def)
  next
    case False
    then have "take (Suc i) tys = tys" using assms by (simp add: type_table_def)
    then show ?thesis using False off [of i] split assms by (simp add: type_table_def)
  qed
qed

lemma holds_at_whole: "holds_at bs 0 xs \<and> length xs = length bs \<longleftrightarrow> bs = xs"
  by (auto simp: holds_at_def)

lemma value_conforms_iff:
  assumes table: "type_table img (read_header img) tys" and strings: "ih_strings (read_header img) \<le> length img"
  shows "value_conforms img type_id payload (length payload) = HERMAS_IMAGE_OK \<longleftrightarrow>
    (\<exists>t v. image_type img type_id t \<and> has_type t v \<and> payload = val_bytes v)"
proof -
  let ?h = "read_header img"
  have first: "first_index (\<lambda>i. read_u16 img (unat (read_u32 img 44) + i * 8) = type_id) (unat (read_u16 img 34)) = Some i \<longleftrightarrow>
      i < length tys \<and> read_u16 img (ih_types ?h + i * 8) = type_id" for i
    using type_table_first [OF table, of type_id i] by (simp add: read_header_def)
  have walk: "(case validate_value_inner img (ih_strings ?h) (unat (read_u32 img (ih_types ?h + i * 8 + 4)))
             payload (length payload) 0 0 of
           Inl _ \<Rightarrow> HERMAS_IMAGE_INVALID_VALUE
         | Inr (_, cursor) \<Rightarrow> if cursor = length payload then HERMAS_IMAGE_OK else HERMAS_IMAGE_INVALID_VALUE) =
        HERMAS_IMAGE_OK \<longleftrightarrow> (\<exists>v. has_type t v \<and> payload = val_bytes v)"
    if "type_entry img ?h i type_id t" for i t
  proof -
    let ?c = "unat (read_u32 img (ih_types ?h + i * 8 + 4))"
    have "walk_right 65 img (ih_strings ?h) payload (length payload) t"
      using strings by (intro value_walk_right) simp_all
    then have w: "validate_value_inner img (ih_strings ?h) ?c payload (length payload) 0 0 = Inr (c', p') \<longleftrightarrow>
        c' = ?c + length (ty_bytes t) \<and> (\<exists>v. spells_value payload (length payload) 0 p' t v)" for c' p'
      unfolding validate_value_inner_def using that by (simp add: walk_rightD type_entry_def)
    have "(case validate_value_inner img (ih_strings ?h) ?c payload (length payload) 0 0 of
           Inl _ \<Rightarrow> HERMAS_IMAGE_INVALID_VALUE
         | Inr (_, cursor) \<Rightarrow> if cursor = length payload then HERMAS_IMAGE_OK else HERMAS_IMAGE_INVALID_VALUE) =
        HERMAS_IMAGE_OK \<longleftrightarrow> (\<exists>v. spells_value payload (length payload) 0 (length payload) t v)"
    proof (cases "validate_value_inner img (ih_strings ?h) ?c payload (length payload) 0 0")
      case (Inl e)
      then show ?thesis using w [of _ "length payload"] by auto
    next
      case (Inr cp)
      then show ?thesis using w [of "fst cp" "length payload"] w [of "fst cp" "snd cp"] w [of _ "length payload"]
        by (cases cp) auto
    qed
    also have "\<dots> \<longleftrightarrow> (\<exists>v. has_type t v \<and> payload = val_bytes v)"
    proof -
      have "spells_value payload (length payload) 0 (length payload) t v \<longleftrightarrow>
          has_type t v \<and> holds_at payload 0 (val_bytes v) \<and> length (val_bytes v) = length payload" for v
        by (auto simp: spells_value_def)
      then show ?thesis unfolding holds_at_whole by simp
    qed
    finally show ?thesis .
  qed
  show ?thesis
  proof (cases "first_index (\<lambda>i. read_u16 img (unat (read_u32 img 44) + i * 8) = type_id) (unat (read_u16 img 34))")
    case None
    then have "\<not> image_type img type_id t" for t
      using type_table_entry(1) [OF table] by (auto simp: image_type_def first_index_None type_entry_def read_header_def)
    then show ?thesis using None by (simp add: value_conforms_def Let_def)
  next
    case (Some i)
    then have i: "i < length tys" "read_u16 img (ih_types ?h + i * 8) = type_id" using first by simp_all
    then have entry: "type_entry img ?h i type_id (tys ! i)" using type_table_entry(2) [OF table] by blast
    have "index = i" if "type_entry img ?h index type_id t" for index t
      using type_table_entry(1) [OF table that] first Some by (metis option.inject)
    then have it: "image_type img type_id t \<longleftrightarrow> type_entry img ?h i type_id t" for t
      unfolding image_type_def by blast
    have conv: "value_conforms img type_id payload (length payload) =
        (case validate_value_inner img (ih_strings ?h) (unat (read_u32 img (ih_types ?h + i * 8 + 4)))
             payload (length payload) 0 0 of
           Inl _ \<Rightarrow> HERMAS_IMAGE_INVALID_VALUE
         | Inr (_, cursor) \<Rightarrow> if cursor = length payload then HERMAS_IMAGE_OK else HERMAS_IMAGE_INVALID_VALUE)"
      using Some by (simp add: value_conforms_def Let_def read_header_def)
    have "value_conforms img type_id payload (length payload) = HERMAS_IMAGE_OK \<longleftrightarrow>
        (\<exists>v. has_type t v \<and> payload = val_bytes v)" if "type_entry img ?h i type_id t" for t
      unfolding conv by (rule walk [OF that])
    then show ?thesis unfolding it using entry by blast
  qed
qed

text \<open>C12: \<open>hermas_image_validate_value\<close> decides typing: on an accepted image it accepts a payload for
  a type ID if and only if the type table spells a type under that ID and the payload is the
  encoding of a value of that type (bounds, nesting, UTF-8 without NUL, tags and zero bytes
  included, with no byte left over); on a refused image it accepts nothing.\<close>

theorem validate_value_iff:
  "hermas_image_validate_value (Some img) (length img) type_id (Some payload) (length payload) = HERMAS_IMAGE_OK \<longleftrightarrow>
     fst (hermas_image_validate (Some img) (length img) None) = HERMAS_IMAGE_OK \<and>
     (\<exists>t v. image_type img type_id t \<and> has_type t v \<and> payload = val_bytes v)"
proof (cases "fst (hermas_image_validate (Some img) (length img) None) = HERMAS_IMAGE_OK")
  case True
  then obtain h nt rt et where ok: "image_check img (length img) = Inr (h, nt, rt, et)"
    by (auto simp: validate_OK_iff)
  obtain tys where table: "type_table img h tys" using accepted_types [OF ok order_refl] .
  have h: "h = read_header img" by (rule accepted_header(1) [OF ok])
  have "ih_strings h \<le> length img" using accepted_layout(10) [OF ok ok] by simp
  then show ?thesis
    using True value_conforms_iff [OF table [unfolded h]] h
    by (simp add: hermas_image_validate_value_def payload_bytes_def)
next
  case False
  then show ?thesis by (auto simp: hermas_image_validate_value_def split: hermas_image_result.splits)
qed

section \<open>List payloads\<close>

text \<open>What the loop over the items has established after \<open>n\<close> items.\<close>

definition items_read :: "bytes \<Rightarrow> ty \<Rightarrow> nat \<Rightarrow> nat \<Rightarrow> nat \<times> nat list \<times> nat list \<Rightarrow> val list \<Rightarrow> bool" where
  "items_read payload t capacity n s vs \<longleftrightarrow>
    (case s of (cursor, offsets, lengths) \<Rightarrow>
       length vs = n \<and> list_all (has_type t) vs \<and>
       cursor = 8 + length (concat (map val_bytes vs)) \<and> cursor \<le> length payload \<and>
       holds_at payload 8 (concat (map val_bytes vs)) \<and>
       capacity \<le> length offsets \<and> capacity \<le> length lengths \<and>
       (\<forall>i < n. chunk payload (offsets ! i) (lengths ! i) = val_bytes (vs ! i)))"

lemma list_item_step_reads:
  assumes "spelled 64 img rend c t" and "rend \<le> length img" and "n < capacity"
    and "items_read payload t capacity n s vs"
    and "list_item_step img rend c (c + length (ty_bytes t)) payload (length payload) n s = Inr s'"
  shows "\<exists>v. items_read payload t capacity (Suc n) s' (vs @ [v])"
proof -
  obtain cursor offsets lengths where s: "s = (cursor, offsets, lengths)" by (cases s)
  have inv: "length vs = n" "list_all (has_type t) vs" "cursor = 8 + length (concat (map val_bytes vs))"
      "cursor \<le> length payload" "holds_at payload 8 (concat (map val_bytes vs))"
      "capacity \<le> length offsets" "capacity \<le> length lengths"
      "\<And>i. i < n \<Longrightarrow> chunk payload (offsets ! i) (lengths ! i) = val_bytes (vs ! i)"
    using assms(4) by (auto simp: items_read_def s)
  obtain cursor' where walk: "value_walk 64 img rend payload (length payload) (c, cursor) =
        Inr (c + length (ty_bytes t), cursor')"
    and s': "s' = (cursor', offsets[n := cursor], lengths[n := cursor' - cursor])"
    using assms(5) by (auto simp: s list_item_step_def validate_value_inner_def split: sum.splits if_splits)
  have "walk_right 64 img rend payload (length payload) t"
    using assms(2) by (intro value_walk_right) simp_all
  then obtain v where v: "spells_value payload (length payload) cursor cursor' t v"
    using walk walk_rightD [OF _ assms(1) inv(4)] by blast
  have "chunk payload (offsets[n := cursor] ! i) (lengths[n := cursor' - cursor] ! i) = val_bytes ((vs @ [v]) ! i)"
    if "i < Suc n" for i
  proof (cases "i = n")
    case True
    then show ?thesis
      using v inv(1,6,7) assms(3) by (simp add: spells_value_def holds_at_def nth_append)
  next
    case False
    then show ?thesis using that inv(1,6,7,8) by (simp add: nth_append)
  qed
  then have "items_read payload t capacity (Suc n) s' (vs @ [v])"
    using inv v by (simp add: items_read_def s' spells_value_def holds_at_append)
  then show ?thesis by blast
qed

lemma list_items_loop:
  assumes "spelled 64 img rend c t" and "rend \<le> length img" and "count \<le> capacity"
    and "capacity \<le> length offsets" and "capacity \<le> length lengths" and "8 \<le> length payload"
    and "for_each (list_item_step img rend c (c + length (ty_bytes t)) payload (length payload))
      [0..<count] (8, offsets, lengths) = Inr s"
  shows "\<exists>vs. items_read payload t capacity count s vs"
proof (rule for_each_invariant [OF assms(7), where I = "\<lambda>n s. \<exists>vs. items_read payload t capacity n s vs"])
  show "\<exists>vs. items_read payload t capacity 0 (8, offsets, lengths) vs"
    using assms(4-6) by (simp add: items_read_def)
next
  fix n s s'
  assume "n < count" and "\<exists>vs. items_read payload t capacity n s vs"
    and "list_item_step img rend c (c + length (ty_bytes t)) payload (length payload) n s = Inr s'"
  then show "\<exists>vs. items_read payload t capacity (Suc n) s' vs"
    using list_item_step_reads [OF assms(1,2)] assms(3) by (meson order_less_le_trans)
qed

text \<open>C23: \<open>hermas_image_list_items\<close> cuts a list payload into its items: when it succeeds, the type ID
  names a list type, the payload is the encoding of a list value of that type, the count is the
  number of its items, and the offset and length written for each item delimit exactly the
  encoding of that item.\<close>

theorem list_items_slices:
  assumes "hermas_image_list_items (Some img) (length img) type_id (Some payload) (length payload) n
      offsets lengths capacity = (HERMAS_IMAGE_OK, count, offsets', lengths')"
    and "capacity \<le> length offsets" and "capacity \<le> length lengths"
  shows "\<exists>bound t vs. image_type img type_id (TList bound t) \<and> has_type (TList bound t) (VList vs) \<and>
    payload = val_bytes (VList vs) \<and> unat count = length vs \<and> length vs \<le> capacity \<and>
    (\<forall>i < length vs. chunk payload (offsets' ! i) (lengths' ! i) = val_bytes (vs ! i))"
proof -
  from assms(1) have valid: "fst (hermas_image_validate (Some img) (length img) None) = HERMAS_IMAGE_OK"
    and size: "8 \<le> length payload"
    and items: "list_items img type_id payload (length payload) offsets lengths capacity = Inr (count, offsets', lengths')"
    by (auto simp: hermas_image_list_items_def split: if_splits sum.splits)
  obtain h nt rt et where ok: "image_check img (length img) = Inr (h, nt, rt, et)"
    using valid by (auto simp: validate_OK_iff)
  have h: "h = read_header img" by (rule accepted_header(1) [OF ok])
  obtain tys where table: "type_table img h tys" using accepted_types [OF ok order_refl] .
  obtain i where i: "i < length tys" "read_u16 img (ih_types h + i * 8) = type_id"
    and desc: "type_descriptor img (ih_types h) (ih_type_count h) (ih_strings h) type_id =
      Some (unat (read_u32 img (ih_types h + i * 8 + 4)),
        unat (read_u32 img (ih_types h + i * 8 + 4)) + length (ty_bytes (tys ! i)))"
    using items type_table_first [OF table] type_table_range(2) [OF table]
    by (fastforce simp: list_items_def type_descriptor_def h read_header_def Let_def
        split: option.splits if_splits)
  let ?d = "unat (read_u32 img (ih_types h + i * 8 + 4))"
  let ?e = "?d + length (ty_bytes (tys ! i))"
  note entry = type_table_entry(2) [OF table i(1), unfolded i(2)]
  have e: "?e \<le> length img"
    using type_table_range(3) [OF table i(1)] accepted_layout(10) [OF ok ok] by simp
  have sp: "spelled 65 img ?e ?d (tys ! i)" by (rule type_table_range(1) [OF table i(1)])
  let ?count = "read_u32 payload 0"
  from items desc have kind: "img ! ?d = 7" and zero: "read_u32 payload 4 = 0"
    and bound: "?count \<le> read_u32 img (?d + 4)" "unat ?count \<le> capacity" "unat ?count \<le> 65535"
    by (auto simp: list_items_def h read_header_def Let_def not_less split: if_splits)
  obtain node: "ty_kind (tys ! i) = 7" "unat (read_u32 img (?d + 4)) = ty_bound (tys ! i)"
    and children: "spelled_list 64 img ?e (?d + 8) (ty_children (tys ! i))"
    using kind by (auto intro: spelled_node [OF sp])
  obtain b t where t: "tys ! i = TList b t" using node(1) by (cases "tys ! i") simp_all
  then have spt: "spelled 64 img ?e (?d + 8) t" and b: "unat (read_u32 img (?d + 4)) = b"
    using children node(2) by simp_all
  have rep: "validate_representation img ?e (?d + 8) 1 = Inr (?d + 8 + length (ty_bytes t))"
    using spt representation_walk_iff [OF e] by (auto simp: validate_representation_def)
  obtain s where loop: "for_each (list_item_step img ?e (?d + 8) (?d + 8 + length (ty_bytes t)) payload
        (length payload)) [0..<unat ?count] (8, offsets, lengths) = Inr s"
    and s: "fst s = length payload" "count = ucast ?count" "offsets' = fst (snd s)" "lengths' = snd (snd s)"
    using items desc rep kind zero bound
    by (auto simp: list_items_def h read_header_def Let_def not_less split: if_splits sum.splits)
  obtain vs where vs: "items_read payload t capacity (unat ?count) s vs"
    using list_items_loop [OF spt e bound(2) assms(2,3) size loop] by blast
  have head: "holds_at payload 0 (value_header (unat ?count))"
    using size zero unsigned_less [of ?count, where ?'a = nat] by (simp add: holds_at_value_header)
  have n: "length vs = unat ?count" using vs by (auto simp: items_read_def split: prod.splits)
  have "payload = val_bytes (VList vs)"
  proof -
    have "holds_at payload 0 (val_bytes (VList vs)) \<and> length (val_bytes (VList vs)) = length payload"
      using vs s(1) head n by (auto simp: items_read_def holds_at_append split: prod.splits)
    then show ?thesis unfolding holds_at_whole .
  qed
  moreover have "image_type img type_id (TList b t)" using entry t h by (auto simp: image_type_def)
  moreover have "has_type (TList b t) (VList vs)"
    using vs bound(1) b n by (auto simp: items_read_def word_le_nat_alt split: prod.splits)
  moreover have "unat count = length vs"
    using s(2) n bound(3) by (simp add: unsigned_ucast_eq take_bit_eq_mod)
  ultimately show ?thesis
    using vs s n bound(2) by (intro exI [of _ b] exI [of _ t] exI [of _ vs])
      (auto simp: items_read_def split: prod.splits)
qed

end
