(* ===== verification/Hermas_Image_Graph.thy ===== *)
theory Hermas_Image_Graph
  imports Hermas_Image_Facts
begin

text \<open>
  The graph of an accepted image: the edges of each node are counted exactly, so every outcome of an
  Action, every case of a dispatch and every branch of a fork has one edge; and the reachability
  loop computes the reflexive transitive closure of the edge relation.
\<close>

section \<open>Counting edges\<close>

definition edges_with :: "(image_edge \<Rightarrow> bool) \<Rightarrow> image_edge list \<Rightarrow> nat" where
  "edges_with P es = length (filter P es)"

text \<open>The edges out of a node with a kind, and into a node of the graph.\<close>

definition leaves :: "u8 \<Rightarrow> nat \<Rightarrow> image_edge \<Rightarrow> bool" where
  "leaves kind node e \<longleftrightarrow> ie_source_kind e = kind \<and> unat (ie_source_node e) = node"

definition leaves_case :: "u8 \<Rightarrow> nat \<Rightarrow> nat \<Rightarrow> image_edge \<Rightarrow> bool" where
  "leaves_case kind node tag e \<longleftrightarrow> leaves kind node e \<and> unat (ie_case_tag e) = tag"

definition enters :: "nat \<Rightarrow> image_edge \<Rightarrow> bool" where
  "enters node e \<longleftrightarrow>
     (ie_target_kind e = 1 \<or> ie_target_kind e = 3 \<or> ie_target_kind e = 4) \<and> unat (ie_target_node e) = node"

text \<open>What the counters of the edge loop hold after the edges \<open>es\<close>.\<close>

definition counted :: "image_edge list \<Rightarrow> edge_tables \<Rightarrow> bool" where
  "counted es et \<longleftrightarrow>
     (\<forall>node. et_input et node = of_nat (edges_with (enters node) es) \<and>
        et_success et node = of_nat (edges_with (leaves 1 node) es) \<and>
        et_error et node = of_nat (edges_with (leaves 2 node) es) \<and>
        et_not_sent et node = of_nat (edges_with (leaves 3 node) es) \<and>
        et_unknown et node = of_nat (edges_with (leaves 4 node) es)) \<and>
     (\<forall>node tag. et_dispatch_case et (node, tag) = of_nat (edges_with (leaves_case 5 node tag) es) \<and>
        et_fork_branch et (node, tag) = of_nat (edges_with (leaves_case 6 node tag) es)) \<and>
     et_workflow_input et = edges_with (\<lambda>e. ie_source_kind e = 0) es"

lemma edges_with_snoc: "edges_with P (es @ [e]) = edges_with P es + (if P e then 1 else 0)"
  by (simp add: edges_with_def)

lemma edges_with_nil [simp]: "edges_with P [] = 0"
  by (simp add: edges_with_def)

lemma edges_with_le: "edges_with P es \<le> length es"
  by (simp add: edges_with_def)

lemma count_target_counted:
  assumes "count_target e et = Inr et'"
  shows "et_input et' = (if ie_target_kind e = 1 \<or> ie_target_kind e = 3 \<or> ie_target_kind e = 4
      then bump (et_input et) (unat (ie_target_node e)) else et_input et)"
    and "et_success et' = et_success et" and "et_error et' = et_error et"
    and "et_not_sent et' = et_not_sent et" and "et_unknown et' = et_unknown et"
    and "et_dispatch_case et' = et_dispatch_case et" and "et_fork_branch et' = et_fork_branch et"
    and "et_workflow_input et' = et_workflow_input et" and "et_reachable et' = et_reachable et"
  using assms by (auto simp: count_target_def Let_def split: if_splits)

lemma count_source_counted:
  assumes "count_source rt e et = Inr et'"
  defines "node \<equiv> unat (ie_source_node e)" and "tag \<equiv> unat (ie_case_tag e)"
  shows "et_input et' = et_input et"
    and "et_success et' = (if ie_source_kind e = 1 then bump (et_success et) node else et_success et)"
    and "et_error et' = (if ie_source_kind e = 2 then bump (et_error et) node else et_error et)"
    and "et_not_sent et' = (if ie_source_kind e = 3 then bump (et_not_sent et) node else et_not_sent et)"
    and "et_unknown et' = (if ie_source_kind e = 4 then bump (et_unknown et) node else et_unknown et)"
    and "et_dispatch_case et' =
      (if ie_source_kind e = 5 then bump (et_dispatch_case et) (node, tag) else et_dispatch_case et)"
    and "et_fork_branch et' =
      (if ie_source_kind e = 6 then bump (et_fork_branch et) (node, tag) else et_fork_branch et)"
    and "et_workflow_input et' = et_workflow_input et + (if ie_source_kind e = 0 then 1 else 0)"
    and "et_reachable et' = (if ie_source_kind e = 0 \<and> graph_target rt e \<noteq> 0
      then (et_reachable et)(graph_target rt e := True) else et_reachable et)"
  unfolding node_def tag_def using assms(1) by (auto simp: count_source_def Let_def split: if_splits)

lemma check_edge_counts:
  assumes "check_edge img h nt rt i et = Inr et'"
  obtains et1 where "count_target (read_edge img h i) et = Inr et1"
    and "count_source rt (read_edge img h i) et1 = Inr et'"
    and "valid_source img h nt rt (read_edge img h i)" and "valid_target img h nt rt (read_edge img h i)"
  using assms by (auto simp: check_edge_def Let_def split: if_splits sum.splits)

lemma bump_counts:
  "f node = of_nat (edges_with P es) \<Longrightarrow>
   (if b then bump f k else f) node = of_nat (edges_with P (es @ [e]))" if "P e \<longleftrightarrow> b \<and> k = node"
  using that by (auto simp: bump_def edges_with_snoc)

lemma check_edge_counted:
  assumes "check_edge img h nt rt i et = Inr et'" and "counted es et"
  shows "counted (es @ [read_edge img h i]) et'"
proof -
  let ?e = "read_edge img h i"
  obtain et1 where t: "count_target ?e et = Inr et1" and s: "count_source rt ?e et1 = Inr et'"
    using check_edge_counts [OF assms(1)] .
  note c = count_target_counted [OF t] count_source_counted [OF s]
  have old: "et_input et node = of_nat (edges_with (enters node) es)"
    "et_success et node = of_nat (edges_with (leaves 1 node) es)"
    "et_error et node = of_nat (edges_with (leaves 2 node) es)"
    "et_not_sent et node = of_nat (edges_with (leaves 3 node) es)"
    "et_unknown et node = of_nat (edges_with (leaves 4 node) es)"
    "et_dispatch_case et (node, tag) = of_nat (edges_with (leaves_case 5 node tag) es)"
    "et_fork_branch et (node, tag) = of_nat (edges_with (leaves_case 6 node tag) es)" for node tag
    using assms(2) by (simp_all add: counted_def)
  show ?thesis
    unfolding counted_def c
    by (intro conjI allI bump_counts)
      (use assms(2) in \<open>auto simp: old enters_def leaves_def leaves_case_def counted_def edges_with_snoc\<close>)
qed

lemma check_edges_counted:
  assumes "check_edges img h nt rt = Inr et"
  shows "counted (image_edges img h) et" and "et_workflow_input et = 1"
proof -
  from assms have loop: "for_each (check_edge img h nt rt) [0..<ih_edge_count h] no_edges = Inr et"
    and one: "et_workflow_input et = 1"
    by (auto simp: check_edges_def split: sum.splits if_splits)
  have "counted (map (read_edge img h) [0..<ih_edge_count h]) et"
    by (rule for_each_invariant [OF loop, where I = "\<lambda>n et. counted (map (read_edge img h) [0..<n]) et"])
      (auto simp: counted_def [of "[]"] no_edges_def dest: check_edge_counted)
  then show "counted (image_edges img h) et" by (simp add: image_edges_def)
  show "et_workflow_input et = 1" by (rule one)
qed

text \<open>A byte counter of at most 192 edges that reads one has counted one.\<close>

lemma count_is_one: "(of_nat n :: u8) = 1 \<Longrightarrow> n \<le> 192 \<Longrightarrow> n = 1"
proof -
  assume "(of_nat n :: u8) = 1" and n: "n \<le> 192"
  then have "unat (of_nat n :: u8) = 1" by simp
  then show "n = 1" unfolding unat_of_nat using n by simp
qed

section \<open>The nodes\<close>

definition node_kind :: "bytes \<Rightarrow> image_header \<Rightarrow> nat \<Rightarrow> u8" where
  "node_kind img h node = img ! (ih_nodes h + (node - 1) * 8)"

definition node_subtype :: "bytes \<Rightarrow> image_header \<Rightarrow> nat \<Rightarrow> u8" where
  "node_subtype img h node = img ! (ih_nodes h + (node - 1) * 8 + 1)"

definition node_action :: "bytes \<Rightarrow> image_header \<Rightarrow> nat \<Rightarrow> u16" where
  "node_action img h node = read_u16 img (ih_nodes h + (node - 1) * 8 + 2)"

lemma check_node_cases:
  assumes "check_node img h i nt = Inr nt'"
  obtains (action) "node_kind img h (Suc i) = 1" and "nt' = nt\<lparr>nt_action := (nt_action nt)(Suc i := True)\<rparr>"
    | (dispatch) d e where "node_kind img h (Suc i) = 3" and "node_action img h (Suc i) \<noteq> 0"
      and "image_descriptor img h (node_action img h (Suc i)) = Some (d, e)" and "img ! d = 8"
      and "nt' = nt\<lparr>nt_dispatch_type := (nt_dispatch_type nt)(Suc i := node_action img h (Suc i)),
        nt_dispatch_cases := (nt_dispatch_cases nt)(Suc i := read_u16 img (d + 2))\<rparr>"
    | (fork) "node_kind img h (Suc i) = 4" and "node_action img h (Suc i) \<noteq> 0"
      and "nt' = nt\<lparr>nt_fork_type := (nt_fork_type nt)(Suc i := node_action img h (Suc i)),
        nt_fork_branches := (nt_fork_branches nt)(Suc i := node_subtype img h (Suc i))\<rparr>"
    | (join) n where "node_kind img h (Suc i) = 5"
      and "nt' = nt\<lparr>nt_join_branches := (nt_join_branches nt)(Suc i := n)\<rparr>"
    | (terminal) n where "node_kind img h (Suc i) = 2" and "\<not> nt_terminal_kinds nt (unat n)"
      and "nt' = nt\<lparr>nt_terminal_kinds := (nt_terminal_kinds nt)(unat n := True),
        nt_terminal := (nt_terminal nt)(Suc i := n)\<rparr>"
proof -
  have k: "node_kind img h (Suc i) = img ! (ih_nodes h + i * 8)"
    "node_subtype img h (Suc i) = img ! (ih_nodes h + i * 8 + 1)"
    "node_action img h (Suc i) = read_u16 img (ih_nodes h + i * 8 + 2)"
    by (simp_all add: node_kind_def node_subtype_def node_action_def)
  from assms show thesis
    unfolding check_node_def Let_def
    apply (simp split: if_splits option.splits prod.splits)
    subgoal by (rule action) (simp_all add: k)
    subgoal by (rule dispatch) (auto simp: k)
    subgoal by (rule fork) (auto simp: k)
    subgoal by (rule join) (auto simp: k)
    subgoal by (rule terminal) (auto simp: k)
    done
qed

lemma check_nodes_tables:
  assumes "check_nodes img h = Inr nt" and "1 \<le> node" and "node \<le> ih_node_count h"
  shows "nt_action nt node \<longleftrightarrow> node_kind img h node = 1"
    and "nt_dispatch_type nt node \<noteq> 0 \<longleftrightarrow> node_kind img h node = 3"
    and "node_kind img h node = 3 \<Longrightarrow> \<exists>d e. image_descriptor img h (node_action img h node) = Some (d, e) \<and>
      img ! d = 8 \<and> nt_dispatch_cases nt node = read_u16 img (d + 2)"
    and "nt_fork_type nt node \<noteq> 0 \<longleftrightarrow> node_kind img h node = 4"
    and "node_kind img h node = 4 \<Longrightarrow> nt_fork_branches nt node = node_subtype img h node"
proof -
  from assms have loop: "for_each (check_node img h) [0..<ih_node_count h] no_nodes = Inr nt"
    by (auto simp: check_nodes_def split: sum.splits if_splits)
  let ?D = "\<lambda>nt. \<exists>d e. image_descriptor img h (node_action img h node) = Some (d, e) \<and>
      img ! d = 8 \<and> nt_dispatch_cases nt node = read_u16 img (d + 2)"
  let ?I = "\<lambda>n nt. (nt_action nt node \<longleftrightarrow> node \<le> n \<and> node_kind img h node = 1) \<and>
      (nt_dispatch_type nt node \<noteq> 0 \<longleftrightarrow> node \<le> n \<and> node_kind img h node = 3) \<and>
      (node \<le> n \<and> node_kind img h node = 3 \<longrightarrow> ?D nt) \<and>
      (nt_fork_type nt node \<noteq> 0 \<longleftrightarrow> node \<le> n \<and> node_kind img h node = 4) \<and>
      (node \<le> n \<and> node_kind img h node = 4 \<longrightarrow> nt_fork_branches nt node = node_subtype img h node)"
  have "?I (ih_node_count h) nt"
  proof (rule for_each_invariant [OF loop])
    show "?I 0 no_nodes" using assms(2) by (simp add: no_nodes_def)
  next
    fix i t t'
    assume I: "?I i t" and step: "check_node img h i t = Inr t'"
    have le: "node \<le> Suc i \<longleftrightarrow> node \<le> i \<or> node = Suc i" by auto
    from step show "?I (Suc i) t'"
      by (cases rule: check_node_cases; cases "node = Suc i") (use I in \<open>simp_all add: le\<close>)
  qed
  with assms(3) show "nt_action nt node \<longleftrightarrow> node_kind img h node = 1"
    "nt_dispatch_type nt node \<noteq> 0 \<longleftrightarrow> node_kind img h node = 3"
    "node_kind img h node = 3 \<Longrightarrow> ?D nt"
    "nt_fork_type nt node \<noteq> 0 \<longleftrightarrow> node_kind img h node = 4"
    "node_kind img h node = 4 \<Longrightarrow> nt_fork_branches nt node = node_subtype img h node" by blast+
qed

lemma node_topologyD:
  assumes "node_topology nt rt et node"
  shows "nt_action nt node \<Longrightarrow> et_input et node = 1 \<and> et_success et node = 1 \<and>
      et_error et node = 1 \<and> et_not_sent et node = 1 \<and> et_unknown et node = 1"
    and "nt_dispatch_type nt node \<noteq> 0 \<Longrightarrow> et_input et node = 1 \<and>
      (\<forall>tag < unat (nt_dispatch_cases nt node). et_dispatch_case et (node, tag) = 1)"
    and "nt_fork_type nt node \<noteq> 0 \<Longrightarrow> et_input et node = 1 \<and>
      (\<forall>tag < unat (nt_fork_branches nt node). et_fork_branch et (node, tag) = 1)"
  using assms unfolding node_topology_def list_all_iff by auto

text \<open>A dispatch node names a variant type, and its case count is the type's.\<close>

lemma dispatch_is_variant:
  assumes "image_check img n = Inr (h, nt, rt, et)" and "n \<le> length img"
    and "1 \<le> node" and "node \<le> ih_node_count h" and "node_kind img h node = 3"
  obtains ts where "image_type img (node_action img h node) (TVariant ts)"
    and "unat (nt_dispatch_cases nt node) = length ts"
proof -
  obtain tys where table: "type_table img h tys" using accepted_types [OF assms(1,2)] .
  obtain d e where d: "image_descriptor img h (node_action img h node) = Some (d, e)" "img ! d = 8"
    "nt_dispatch_cases nt node = read_u16 img (d + 2)"
    using check_nodes_tables(3) [OF image_check_stages(7) [OF assms(1)] assms(3-5)] by blast
  obtain i where i: "i < length tys" "read_u16 img (ih_types h + i * 8) = node_action img h node"
    and di: "d = unat (read_u32 img (ih_types h + i * 8 + 4))"
    using d(1) type_table_first [OF table]
    by (auto simp: image_descriptor_def type_descriptor_def Let_def split: option.splits)
  have entry: "type_entry img h i (node_action img h node) (tys ! i)"
    using type_table_entry(2) [OF table i(1)] i(2) by simp
  obtain node: "ty_kind (tys ! i) = 8" "unat (read_u16 img (d + 2)) = length (ty_children (tys ! i))"
    using entry d(2) unfolding type_entry_def di [symmetric] by (auto elim: spelled_node)
  obtain ts where "tys ! i = TVariant ts" using node(1) by (cases "tys ! i") simp_all
  then show thesis
    using that [of ts] entry node(2) d(3) accepted_header(1) [OF assms(1)] by (auto simp: image_type_def)
qed

text \<open>C13: The graph of an accepted image is complete: the workflow input has one edge; every Action
  node is entered by one edge and has exactly one edge for each of its outcomes (success,
  application error, not sent, unknown); every dispatch node is entered by one edge, names a
  variant type and has exactly one edge for each case of that type; every fork node is entered by
  one edge and has exactly one edge for each of its branches.\<close>

theorem image_graph_complete:
  assumes "fst (hermas_image_validate (Some img) n None) = HERMAS_IMAGE_OK" and "n \<le> length img"
    and "1 \<le> node" and "node \<le> ih_node_count (read_header img)"
  shows "edges_with (\<lambda>e. ie_source_kind e = 0) (image_edges img (read_header img)) = 1 \<and>
    (node_kind img (read_header img) node = 1 \<longrightarrow>
       edges_with (enters node) (image_edges img (read_header img)) = 1 \<and>
       (\<forall>kind \<in> {1, 2, 3, 4}. edges_with (leaves kind node) (image_edges img (read_header img)) = 1)) \<and>
    (node_kind img (read_header img) node = 3 \<longrightarrow>
       edges_with (enters node) (image_edges img (read_header img)) = 1 \<and>
       (\<exists>ts. image_type img (node_action img (read_header img) node) (TVariant ts) \<and>
          (\<forall>tag < length ts. edges_with (leaves_case 5 node tag) (image_edges img (read_header img)) = 1))) \<and>
    (node_kind img (read_header img) node = 4 \<longrightarrow>
       edges_with (enters node) (image_edges img (read_header img)) = 1 \<and>
       (\<forall>tag < unat (node_subtype img (read_header img) node).
          edges_with (leaves_case 6 node tag) (image_edges img (read_header img)) = 1))"
proof -
  obtain h nt rt et where ok: "image_check img n = Inr (h, nt, rt, et)"
    using assms(1) by (auto simp: validate_OK_iff)
  have h: "read_header img = h" by (rule accepted_header(1) [OF ok, symmetric])
  note stages = image_check_stages [OF ok]
  have node: "1 \<le> node" "node \<le> ih_node_count h" using assms(3,4) h by simp_all
  have counted: "counted (image_edges img h) et" by (rule check_edges_counted(1) [OF stages(9)])
  have small: "edges_with P (image_edges img h) \<le> 192" for P
    using edges_with_le [of P "image_edges img h"] accepted_header(4) [OF ok]
    by (simp add: image_edges_def counts_valid_def)
  have one: "edges_with P (image_edges img h) = 1" if "(of_nat (edges_with P (image_edges img h)) :: u8) = 1" for P
    using count_is_one [OF that small] .
  have topo: "node_topology nt rt et node"
    using stages(10) node by (auto simp: list_all_iff)
  note nodes = check_nodes_tables [OF stages(7) node]
  have c: "et_input et node = of_nat (edges_with (enters node) (image_edges img h))"
    "et_success et node = of_nat (edges_with (leaves 1 node) (image_edges img h))"
    "et_error et node = of_nat (edges_with (leaves 2 node) (image_edges img h))"
    "et_not_sent et node = of_nat (edges_with (leaves 3 node) (image_edges img h))"
    "et_unknown et node = of_nat (edges_with (leaves 4 node) (image_edges img h))"
    "et_dispatch_case et (node, tag) = of_nat (edges_with (leaves_case 5 node tag) (image_edges img h))"
    "et_fork_branch et (node, tag) = of_nat (edges_with (leaves_case 6 node tag) (image_edges img h))" for tag
    using counted by (simp_all add: counted_def)
  have action: "edges_with (enters node) (image_edges img h) = 1 \<and>
      (\<forall>kind \<in> {1, 2, 3, 4}. edges_with (leaves kind node) (image_edges img h) = 1)"
    if "node_kind img h node = 1"
    using node_topologyD(1) [OF topo] nodes(1) that unfolding c by (auto intro!: one simp del: One_nat_def)
  have dispatch: "edges_with (enters node) (image_edges img h) = 1 \<and>
      (\<exists>ts. image_type img (node_action img h node) (TVariant ts) \<and>
        (\<forall>tag < length ts. edges_with (leaves_case 5 node tag) (image_edges img h) = 1))"
    if k: "node_kind img h node = 3"
  proof -
    obtain ts where "image_type img (node_action img h node) (TVariant ts)"
      and n: "unat (nt_dispatch_cases nt node) = length ts"
      using dispatch_is_variant [OF ok assms(2) node k] .
    moreover have "edges_with (leaves_case 5 node tag) (image_edges img h) = 1" if "tag < length ts" for tag
      using node_topologyD(2) [OF topo] nodes(2) k n that unfolding c by (intro one) simp
    moreover have "edges_with (enters node) (image_edges img h) = 1"
      using node_topologyD(2) [OF topo] nodes(2) k unfolding c by (intro one) simp
    ultimately show ?thesis by blast
  qed
  have fork: "edges_with (enters node) (image_edges img h) = 1 \<and>
      (\<forall>tag < unat (node_subtype img h node). edges_with (leaves_case 6 node tag) (image_edges img h) = 1)"
    if k: "node_kind img h node = 4"
    using node_topologyD(3) [OF topo] nodes(4,5) k unfolding c by (simp add: one)
  show ?thesis
    unfolding h using action dispatch fork counted check_edges_counted(2) [OF stages(9)]
    by (simp add: counted_def)
qed

section \<open>Reachability\<close>

text \<open>The reference definition: what the workflow input reaches along the edges of the graph.\<close>

inductive graph_reachable :: "region_tables \<Rightarrow> image_edge list \<Rightarrow> nat \<Rightarrow> bool" for rt es where
  input: "e \<in> set es \<Longrightarrow> ie_source_kind e = 0 \<Longrightarrow> graph_target rt e \<noteq> 0 \<Longrightarrow>
    graph_reachable rt es (graph_target rt e)"
| edge: "graph_reachable rt es (graph_source rt e) \<Longrightarrow> e \<in> set es \<Longrightarrow> ie_source_kind e \<noteq> 0 \<Longrightarrow>
    graph_source rt e \<noteq> 0 \<Longrightarrow> graph_target rt e \<noteq> 0 \<Longrightarrow> graph_reachable rt es (graph_target rt e)"

text \<open>An edge that the reachability loop follows, and a set of nodes it has nothing to add to.\<close>

definition follows :: "region_tables \<Rightarrow> image_edge \<Rightarrow> bool" where
  "follows rt e \<longleftrightarrow> ie_source_kind e \<noteq> 0 \<and> graph_source rt e \<noteq> 0 \<and> graph_target rt e \<noteq> 0"

definition edge_closed :: "region_tables \<Rightarrow> image_edge list \<Rightarrow> (nat \<Rightarrow> bool) \<Rightarrow> bool" where
  "edge_closed rt es r \<longleftrightarrow> (\<forall>e \<in> set es. follows rt e \<and> r (graph_source rt e) \<longrightarrow> r (graph_target rt e))"

lemma reach_edge_eq:
  "reach_edge rt e (r, changed) =
    (if follows rt e \<and> r (graph_source rt e) \<and> \<not> r (graph_target rt e)
     then (r(graph_target rt e := True), True) else (r, changed))"
  by (auto simp: reach_edge_def follows_def)

text \<open>One pass, from any state of the loop over the edges.\<close>

lemma reach_fold:
  assumes "foldl (\<lambda>s e. reach_edge rt e s) (r, c) es = (r', c')"
  shows "r v \<Longrightarrow> r' v" and "c \<Longrightarrow> c'" and "\<not> c' \<Longrightarrow> r' = r \<and> edge_closed rt es r"
    and "c' \<Longrightarrow> \<not> c \<Longrightarrow> \<exists>e \<in> set es. follows rt e \<and> \<not> r (graph_target rt e) \<and> r' (graph_target rt e)"
    and "(\<And>u. r u \<Longrightarrow> P u) \<Longrightarrow> (\<And>e. e \<in> set es \<Longrightarrow> follows rt e \<Longrightarrow> P (graph_source rt e) \<Longrightarrow> P (graph_target rt e)) \<Longrightarrow>
      r' v \<Longrightarrow> P v"
proof -
  have "(\<forall>v. r v \<longrightarrow> r' v) \<and> (c \<longrightarrow> c') \<and> (\<not> c' \<longrightarrow> r' = r \<and> edge_closed rt es r) \<and>
      (c' \<and> \<not> c \<longrightarrow> (\<exists>e \<in> set es. follows rt e \<and> \<not> r (graph_target rt e) \<and> r' (graph_target rt e))) \<and>
      ((\<forall>u. r u \<longrightarrow> P u) \<longrightarrow> (\<forall>e \<in> set es. follows rt e \<longrightarrow> P (graph_source rt e) \<longrightarrow> P (graph_target rt e)) \<longrightarrow>
        (\<forall>v. r' v \<longrightarrow> P v))"
    using assms
  proof (induction es arbitrary: r c)
    case Nil
    then show ?case by (auto simp: edge_closed_def)
  next
    case (Cons e es)
    show ?case
    proof (cases "follows rt e \<and> r (graph_source rt e) \<and> \<not> r (graph_target rt e)")
      case True
      then have fold: "foldl (\<lambda>s e. reach_edge rt e s) (r(graph_target rt e := True), True) es = (r', c')"
        using Cons.prems by (simp add: reach_edge_eq)
      note IH = Cons.IH [OF fold]
      have marked: "r' (graph_target rt e)" and c': c' and grows: "\<forall>v. r v \<longrightarrow> r' v" using IH by simp_all
      have "\<forall>v. r' v \<longrightarrow> P v" if P: "\<forall>u. r u \<longrightarrow> P u"
        and closed: "\<forall>e \<in> set (e # es). follows rt e \<longrightarrow> P (graph_source rt e) \<longrightarrow> P (graph_target rt e)"
      proof -
        have "\<forall>u. (r(graph_target rt e := True)) u \<longrightarrow> P u" using P closed True by simp
        moreover have "\<forall>e \<in> set es. follows rt e \<longrightarrow> P (graph_source rt e) \<longrightarrow> P (graph_target rt e)"
          using closed by simp
        ultimately show ?thesis using IH by blast
      qed
      moreover have "\<exists>e' \<in> set (e # es). follows rt e' \<and> \<not> r (graph_target rt e') \<and> r' (graph_target rt e')"
        using marked True by (intro bexI [of _ e]) simp_all
      ultimately show ?thesis using c' grows by blast
    next
      case False
      then have fold: "foldl (\<lambda>s e. reach_edge rt e s) (r, c) es = (r', c')"
        using Cons.prems by (auto simp: reach_edge_eq)
      have closed: "edge_closed rt (e # es) r \<longleftrightarrow> edge_closed rt es r" using False by (auto simp: edge_closed_def)
      show ?thesis unfolding closed list.set(2) ball_simps(7) bex_simps(5) using Cons.IH [OF fold] by blast
    qed
  qed
  then show "r v \<Longrightarrow> r' v" and "c \<Longrightarrow> c'" and "\<not> c' \<Longrightarrow> r' = r \<and> edge_closed rt es r"
    and "c' \<Longrightarrow> \<not> c \<Longrightarrow> \<exists>e \<in> set es. follows rt e \<and> \<not> r (graph_target rt e) \<and> r' (graph_target rt e)"
    and "(\<And>u. r u \<Longrightarrow> P u) \<Longrightarrow> (\<And>e. e \<in> set es \<Longrightarrow> follows rt e \<Longrightarrow> P (graph_source rt e) \<Longrightarrow> P (graph_target rt e)) \<Longrightarrow>
      r' v \<Longrightarrow> P v"
    by blast+
qed

text \<open>The passes: they only add nodes that edges lead to, and as many passes as there are nodes left
  to mark are enough to close the set.\<close>

lemma reach_passes_mono: "r v \<Longrightarrow> reach_passes n rt es r v"
proof (induction n arbitrary: r)
  case (Suc n)
  obtain r' c where "reach_pass rt es r = (r', c)" by fastforce
  with Suc show ?case using reach_fold(1) [of rt r False es r' c v] by (auto simp: reach_pass_def)
qed simp

lemma reach_passes_sound:
  assumes "\<And>u. r u \<Longrightarrow> P u"
    and "\<And>e. e \<in> set es \<Longrightarrow> follows rt e \<Longrightarrow> P (graph_source rt e) \<Longrightarrow> P (graph_target rt e)"
    and "reach_passes n rt es r v"
  shows "P v"
  using assms(1,3)
proof (induction n arbitrary: r)
  case 0
  then show ?case by simp
next
  case (Suc n)
  obtain r' c where pass: "reach_pass rt es r = (r', c)" by fastforce
  then have P: "P u" if "r' u" for u
    using reach_fold(5) [of rt r False es r' c P u] Suc.prems(1) assms(2) that
    by (auto simp: reach_pass_def)
  show ?case
  proof (cases c)
    case True
    then show ?thesis using Suc.IH [OF P] Suc.prems(2) pass by simp
  next
    case False
    then show ?thesis using P Suc.prems(2) pass by simp
  qed
qed

lemma reach_passes_closed:
  assumes "finite V" and "\<And>e. e \<in> set es \<Longrightarrow> follows rt e \<Longrightarrow> graph_target rt e \<in> V"
    and "card {v \<in> V. \<not> r v} \<le> n"
  shows "edge_closed rt es (reach_passes n rt es r)"
  using assms(3)
proof (induction n arbitrary: r)
  case 0
  then have "\<forall>v \<in> V. r v" using assms(1) by simp
  then show ?case using assms(2) by (auto simp: edge_closed_def)
next
  case (Suc n)
  obtain r' c where "reach_pass rt es r = (r', c)" by fastforce
  then have pass: "foldl (\<lambda>s e. reach_edge rt e s) (r, False) es = (r', c)" by (simp add: reach_pass_def)
  show ?case
  proof (cases c)
    case False
    then show ?thesis using reach_fold(3) [OF pass] pass by (simp add: reach_pass_def)
  next
    case True
    obtain e where e: "e \<in> set es" "follows rt e" "\<not> r (graph_target rt e)" "r' (graph_target rt e)"
      using reach_fold(4) [OF pass True] by blast
    have "{v \<in> V. \<not> r' v} \<subset> {v \<in> V. \<not> r v}"
      using reach_fold(1) [OF pass] e assms(2) by blast
    then have "card {v \<in> V. \<not> r' v} < card {v \<in> V. \<not> r v}"
      using assms(1) by (simp add: psubset_card_mono)
    then have "card {v \<in> V. \<not> r' v} \<le> n" using Suc.prems by simp
    then show ?thesis using Suc.IH [of r'] True pass by (simp add: reach_pass_def)
  qed
qed

text \<open>The targets that edges lead to are nodes of the graph.\<close>

lemma check_regions_template:
  assumes "check_regions img h nt = Inr rt"
  shows "unat (rt_each_template rt region) \<le> ih_node_count h"
proof -
  have loop: "for_each (check_region img h nt) [0..<ih_region_count h] no_regions = Inr rt"
    using assms by (simp add: check_regions_def)
  show ?thesis
  proof (rule for_each_invariant [OF loop, where I = "\<lambda>_ rt. unat (rt_each_template rt region) \<le> ih_node_count h"])
    show "unat (rt_each_template no_regions region) \<le> ih_node_count h" by (simp add: no_regions_def)
  next
    fix i t t'
    assume inv: "unat (rt_each_template t region) \<le> ih_node_count h" and step: "check_region img h nt i t = Inr t'"
    let ?o = "ih_regions h + i * HERMAS_REGION_RECORD_SIZE"
    have "rt_each_template t' = rt_each_template t" if "check_deadline img h ?o t = Inr t'"
      using that unfolding check_deadline_def Let_def by (simp split: if_splits) (drule sym, simp)
    moreover have "rt_each_template t' = rt_each_template t" if "check_saga_step img h nt ?o t = Inr t'"
      using that unfolding check_saga_step_def Let_def by (simp split: if_splits) (drule sym, simp)
    moreover have "rt_each_template t' = rt_each_template t" if "check_saga_outcome img h ?o t = Inr t'"
      using that unfolding check_saga_outcome_def Let_def by (simp split: if_splits) (drule sym, simp)
    moreover have "unat (rt_each_template t' region) \<le> ih_node_count h" if "check_each img h nt ?o t = Inr t'"
      using that inv unfolding check_each_def Let_def by (simp split: if_splits) (drule sym, simp)
    ultimately show "unat (rt_each_template t' region) \<le> ih_node_count h"
      using step inv by (auto simp: check_region_def Let_def split: if_splits)
  qed
qed

lemma check_edges_edge:
  assumes "check_edges img h nt rt = Inr et" and "e \<in> set (image_edges img h)"
  shows "valid_source img h nt rt e" and "valid_target img h nt rt e"
proof -
  have loop: "for_each (check_edge img h nt rt) [0..<ih_edge_count h] no_edges = Inr et"
    using assms(1) by (auto simp: check_edges_def split: sum.splits if_splits)
  have "\<forall>i < ih_edge_count h. valid_source img h nt rt (read_edge img h i) \<and> valid_target img h nt rt (read_edge img h i)"
    by (rule for_each_invariant [OF loop, where I = "\<lambda>n _. \<forall>i < n. valid_source img h nt rt (read_edge img h i) \<and>
        valid_target img h nt rt (read_edge img h i)"]) (auto simp: less_Suc_eq elim: check_edge_counts)
  with assms(2) show "valid_source img h nt rt e" and "valid_target img h nt rt e"
    by (auto simp: image_edges_def)
qed

lemma graph_target_le:
  assumes "check_regions img h nt = Inr rt" and "valid_target img h nt rt e"
  shows "graph_target rt e \<le> ih_node_count h"
  using assms(2) check_regions_template [OF assms(1)]
  by (simp add: graph_target_def valid_target_def Let_def)

text \<open>After the edge loop the reachable set holds the targets of the workflow input.\<close>

lemma check_edges_input:
  assumes "check_edges img h nt rt = Inr et"
  shows "et_reachable et v \<longleftrightarrow>
    (\<exists>e \<in> set (image_edges img h). ie_source_kind e = 0 \<and> graph_target rt e = v \<and> v \<noteq> 0)"
proof -
  have loop: "for_each (check_edge img h nt rt) [0..<ih_edge_count h] no_edges = Inr et"
    using assms by (auto simp: check_edges_def split: sum.splits if_splits)
  let ?P = "\<lambda>n et. et_reachable et v \<longleftrightarrow>
      (\<exists>i < n. ie_source_kind (read_edge img h i) = 0 \<and> graph_target rt (read_edge img h i) = v \<and> v \<noteq> 0)"
  have "?P (ih_edge_count h) et"
  proof (rule for_each_invariant [OF loop])
    show "?P 0 no_edges" by (simp add: no_edges_def)
  next
    fix i t t'
    assume "?P i t" and "check_edge img h nt rt i t = Inr t'"
    moreover from this(2) obtain t1 where "count_target (read_edge img h i) t = Inr t1"
      "count_source rt (read_edge img h i) t1 = Inr t'" by (rule check_edge_counts)
    ultimately show "?P (Suc i) t'"
      using count_target_counted(9) count_source_counted(9) by (auto simp: less_Suc_eq)
  qed
  then show ?thesis by (auto simp: image_edges_def)
qed

text \<open>C14: The reachability check of the validator is exact: on the tables of the preceding stages,
  \<open>all_reachable\<close>, the loop that stops after at most as many passes as there are nodes, holds if and
  only if every node is reachable from the workflow input along the edges of the graph.\<close>

theorem all_reachable_iff:
  assumes "check_regions img h nt = Inr rt" and "check_edges img h nt rt = Inr et"
  shows "all_reachable img h rt et \<longleftrightarrow>
    list_all (graph_reachable rt (image_edges img h)) [1..<ih_node_count h + 1]"
proof -
  let ?es = "image_edges img h" and ?n = "ih_node_count h"
  let ?r = "reach_passes ?n rt ?es (et_reachable et)"
  have init: "et_reachable et v \<longleftrightarrow> (\<exists>e \<in> set ?es. ie_source_kind e = 0 \<and> graph_target rt e = v \<and> v \<noteq> 0)" for v
    by (rule check_edges_input [OF assms(2)])
  have "card {v \<in> {1..?n}. \<not> et_reachable et v} \<le> card {1..?n}" by (intro card_mono) auto
  then have card: "card {v \<in> {1..?n}. \<not> et_reachable et v} \<le> ?n" by simp
  have target: "graph_target rt e \<in> {1..?n}" if "e \<in> set ?es" "follows rt e" for e
    using graph_target_le [OF assms(1) check_edges_edge(2) [OF assms(2) that(1)]] that(2)
    by (simp add: follows_def)
  have closed: "edge_closed rt ?es ?r"
    by (rule reach_passes_closed [of "{1..?n}"]) (use card target in auto)
  have "graph_reachable rt ?es v" if "?r v" for v
    by (rule reach_passes_sound [OF _ _ that, where P = "graph_reachable rt ?es"])
      (auto simp: init follows_def intro: graph_reachable.intros)
  moreover have "?r v" if "graph_reachable rt ?es v" for v
    using that
  proof induction
    case (input e)
    then show ?case by (intro reach_passes_mono) (auto simp: init)
  next
    case (edge e)
    then show ?case using closed by (simp add: edge_closed_def follows_def)
  qed
  ultimately have "?r = graph_reachable rt ?es" by blast
  then show ?thesis by (simp add: all_reachable_def Let_def)
qed

end
