(* ===== verification/Hermas_Runtime_Path.thy ===== *)
theory Hermas_Runtime_Path
  imports Hermas_Runtime Hermas_Image_Graph
begin

text \<open>
  The path that a sequential execution takes through the graph of an accepted image. Every Action
  and every dispatch node is entered by one edge, so a path from the workflow input never visits a
  node twice; a run has therefore at most as many deliveries as the graph has nodes.
\<close>

section \<open>The edges that the runtime looks up\<close>

lemma first_edge_Some:
  assumes "first_edge img P = Some offset"
  obtains i where "i < ih_edge_count (read_header img)" and "offset = ih_edges (read_header img) + i * 16"
    and "P offset"
  using assms by (auto simp: first_edge_def Let_def first_index_Some read_header_def)

lemma first_edge_None:
  "first_edge img P = None \<longleftrightarrow>
     (\<forall>i < ih_edge_count (read_header img). \<not> P (ih_edges (read_header img) + i * 16))"
  by (simp add: first_edge_def Let_def first_index_None read_header_def)

lemma read_edge_fields:
  "ie_source_kind (read_edge img h i) = img ! (ih_edges h + i * 16)"
  "ie_target_kind (read_edge img h i) = img ! (ih_edges h + i * 16 + 1)"
  "ie_case_tag (read_edge img h i) = img ! (ih_edges h + i * 16 + 3)"
  "ie_source_node (read_edge img h i) = read_u16 img (ih_edges h + i * 16 + 4)"
  "ie_target_node (read_edge img h i) = read_u16 img (ih_edges h + i * 16 + 6)"
  "ie_source_type (read_edge img h i) = read_u16 img (ih_edges h + i * 16 + 8)"
  "ie_target_type (read_edge img h i) = read_u16 img (ih_edges h + i * 16 + 10)"
  by (simp_all add: read_edge_def Let_def)

lemma read_edge_in: "i < ih_edge_count h \<Longrightarrow> read_edge img h i \<in> set (image_edges img h)"
  by (simp add: image_edges_def)

section \<open>The graph of an accepted image\<close>

lemma edges_with_unique:
  assumes "edges_with P es = 1" and "p \<in> set es" and "P p" and "q \<in> set es" and "P q"
  shows "p = q"
proof -
  obtain x where "filter P es = [x]" using assms(1) by (auto simp: edges_with_def length_Suc_conv)
  then have "set (filter P es) = {x}" by simp
  moreover have "p \<in> set (filter P es)" "q \<in> set (filter P es)" using assms(2-5) by simp_all
  ultimately show ?thesis by simp
qed

lemma accepted_type_nonzero:
  assumes "image_check img n = Inr (h, nt, rt, et)" and "n \<le> length img"
  shows "\<not> known_type img h 0"
proof -
  obtain tys where "type_table img h tys" using accepted_types [OF assms] .
  then show ?thesis by (auto simp: type_table_def known_type_def contains_u16_def list_ex_iff)
qed

text \<open>An edge that carries no value (not sent, unknown) enters neither an Action nor a dispatch.\<close>

lemma accepted_valueless_edge:
  assumes "image_check img n = Inr (h, nt, rt, et)" and "n \<le> length img"
    and "e \<in> set (image_edges img h)" and "ie_source_kind e = 3 \<or> ie_source_kind e = 4"
  shows "ie_target_kind e \<noteq> 1" and "ie_target_kind e \<noteq> 3"
proof -
  note valid = check_edges_edge [OF image_check_stages(9) [OF assms(1)] assms(3)]
  have "ie_target_type e = 0"
    using valid(1) assms(4) by (auto simp: valid_source_def valid_dispatch_source_def Let_def)
  then show "ie_target_kind e \<noteq> 1" and "ie_target_kind e \<noteq> 3"
    using valid(2) accepted_type_nonzero [OF assms(1,2)] by (auto simp: valid_target_def Let_def)
qed

text \<open>An edge into an Action carries a value: its types are types of the image.\<close>

lemma descriptor_known: "image_descriptor img h type_id = Some d \<Longrightarrow> known_type img h type_id"
  by (auto simp: image_descriptor_def type_descriptor_def known_type_def contains_u16_def first_index_Some
      list_ex_iff split: option.splits)

lemma list_of_items_known:
  "list_of_items img h listed item P \<Longrightarrow> known_type img h listed \<and> known_type img h item"
  by (auto simp: list_of_items_def dest: descriptor_known split: option.splits)

lemma check_regions_types:
  assumes "check_regions img h nt = Inr rt" and "1 \<le> region" and "region \<le> rt_each_count rt"
  shows "known_type img h (rt_each_item_input rt region)" and "known_type img h (rt_each_collected rt region)"
proof -
  have loop: "for_each (check_region img h nt) [0..<ih_region_count h] no_regions = Inr rt"
    using assms(1) by (simp add: check_regions_def)
  let ?I = "\<lambda>rt. \<forall>region. 1 \<le> region \<longrightarrow> region \<le> rt_each_count rt \<longrightarrow>
      known_type img h (rt_each_item_input rt region) \<and> known_type img h (rt_each_collected rt region)"
  have "?I rt"
  proof (rule for_each_invariant [OF loop, where I = "\<lambda>_. ?I"])
    show "?I no_regions" by (simp add: no_regions_def)
  next
    fix i t t'
    assume inv: "?I t" and step: "check_region img h nt i t = Inr t'"
    let ?o = "ih_regions h + i * HERMAS_REGION_RECORD_SIZE"
    let ?same = "rt_each_count t' = rt_each_count t \<and> rt_each_item_input t' = rt_each_item_input t \<and>
        rt_each_collected t' = rt_each_collected t"
    have "?same" if "check_deadline img h ?o t = Inr t'"
      using that unfolding check_deadline_def Let_def by (simp split: if_splits) (drule sym, simp)
    moreover have "?same" if "check_saga_step img h nt ?o t = Inr t'"
      using that unfolding check_saga_step_def Let_def by (simp split: if_splits) (drule sym, simp)
    moreover have "?same" if "check_saga_outcome img h ?o t = Inr t'"
      using that unfolding check_saga_outcome_def Let_def by (simp split: if_splits) (drule sym, simp)
    moreover have "?I t'" if each: "check_each img h nt ?o t = Inr t'"
    proof -
      have "rt_each_count t' = rt_each_count t + 1 \<and>
          rt_each_item_input t' = (rt_each_item_input t)(rt_each_count t + 1 := read_u16 img (?o + 6)) \<and>
          rt_each_collected t' = (rt_each_collected t)(rt_each_count t + 1 := read_u16 img (?o + 10))"
        using each unfolding check_each_def Let_def by (simp split: if_splits) (drule sym, simp)
      moreover have "known_type img h (read_u16 img (?o + 6))" "known_type img h (read_u16 img (?o + 10))"
        using each list_of_items_known unfolding check_each_def Let_def by (simp_all split: if_splits) blast+
      ultimately show ?thesis using inv by (auto simp: le_Suc_eq)
    qed
    ultimately show "?I t'" using step inv by (auto simp: check_region_def Let_def split: if_splits)
  qed
  with assms(2,3) show "known_type img h (rt_each_item_input rt region)"
    and "known_type img h (rt_each_collected rt region)" by blast+
qed

lemma accepted_action_edge:
  assumes "image_check img n = Inr (h, nt, rt, et)" and "n \<le> length img"
    and "e \<in> set (image_edges img h)" and "ie_target_kind e = 1"
  shows "ie_source_type e \<noteq> 0" and "ie_target_type e \<noteq> 0"
proof -
  note zero = accepted_type_nonzero [OF assms(1,2)]
  note valid = check_edges_edge [OF image_check_stages(9) [OF assms(1)] assms(3)]
  show "ie_target_type e \<noteq> 0" using valid(2) assms(4) zero by (auto simp: valid_target_def)
  have fork: "nt_fork_type nt node \<noteq> 0 \<Longrightarrow> ie_source_type e = nt_fork_type nt node \<Longrightarrow> ie_source_type e \<noteq> 0" for node
    by simp
  have dispatch: "ie_source_type e \<noteq> 0" if "valid_dispatch_source img h nt e"
    using that descriptor_known zero by (auto simp: valid_dispatch_source_def Let_def split: option.splits)
  have each: "known_type img h (rt_each_item_input rt node)" "known_type img h (rt_each_collected rt node)"
    if "node > 0" "node \<le> rt_each_count rt" for node
    using check_regions_types [OF image_check_stages(8) [OF assms(1)]] that by simp_all
  show "ie_source_type e \<noteq> 0"
    using valid(1) accepted_valueless_edge [OF assms(1-3)] assms(4) zero fork dispatch each
    unfolding valid_source_def Let_def by metis
qed

text \<open>The record of an Action node names an app and an Action.\<close>

lemma check_contracts_app:
  assumes "check_contracts img h = Inr ()"
    and "contains_action_contract img (ih_contracts h) (ih_contract_count h) app action"
  shows "app \<noteq> 0"
proof -
  have "\<forall>i < ih_contract_count h. read_u16 img (ih_contracts h + i * 36) \<noteq> 0"
    by (rule for_each_invariant [OF assms(1)[unfolded check_contracts_def],
          where I = "\<lambda>n _. \<forall>i < n. read_u16 img (ih_contracts h + i * 36) \<noteq> 0"])
      (auto simp: Let_def less_Suc_eq split: if_splits)
  then show ?thesis using assms(2) by (auto simp: contains_action_contract_def list_ex_iff Let_def)
qed

lemma accepted_action_node:
  assumes "image_check img n = Inr (h, nt, rt, et)" and "nt_action nt (unat node)"
  shows "read_u16 img (node_record img node + 2) \<noteq> 0" and "read_u16 img (node_record img node + 4) \<noteq> 0"
proof -
  have loop: "for_each (check_node img h) [0..<ih_node_count h] no_nodes = Inr nt"
    using image_check_stages(7) [OF assms(1)] by (auto simp: check_nodes_def split: sum.splits if_splits)
  let ?I = "\<lambda>nt. \<forall>k. nt_action nt k \<longrightarrow> 1 \<le> k \<and> read_u16 img (ih_nodes h + k * 8 - 8 + 2) \<noteq> 0 \<and>
      contains_action_contract img (ih_contracts h) (ih_contract_count h)
        (read_u16 img (ih_nodes h + k * 8 - 8 + 4)) (read_u16 img (ih_nodes h + k * 8 - 8 + 2))"
  have "?I nt"
  proof (rule for_each_invariant [OF loop, where I = "\<lambda>_. ?I"])
    show "?I no_nodes" by (simp add: no_nodes_def)
  next
    fix i t t'
    assume inv: "?I t" and step: "check_node img h i t = Inr t'"
    have "nt_action t' = nt_action t \<or> nt_action t' = (nt_action t)(Suc i := True) \<and>
        read_u16 img (ih_nodes h + i * 8 + 2) \<noteq> 0 \<and>
        contains_action_contract img (ih_contracts h) (ih_contract_count h)
          (read_u16 img (ih_nodes h + i * 8 + 4)) (read_u16 img (ih_nodes h + i * 8 + 2))"
      using step unfolding check_node_def Let_def
      by (simp split: if_splits option.splits prod.splits) (use sym in \<open>fastforce\<close>)+
    then show "?I t'" using inv by (auto split: if_splits)
  qed
  then show "read_u16 img (node_record img node + 2) \<noteq> 0" "read_u16 img (node_record img node + 4) \<noteq> 0"
    using assms(2) check_contracts_app [OF image_check_stages(5) [OF assms(1)]] accepted_header(1) [OF assms(1)]
    by (auto simp: node_record_def read_header_def)
qed

text \<open>Two edges that enter the same Action or dispatch node are the same edge.\<close>

lemma accepted_entered_once:
  assumes "image_check img n = Inr (h, nt, rt, et)" and "p \<in> set (image_edges img h)"
    and "q \<in> set (image_edges img h)" and "ie_target_kind p = 1 \<or> ie_target_kind p = 3"
    and "ie_target_kind q = 1 \<or> ie_target_kind q = 3" and "ie_target_node p = ie_target_node q"
  shows "p = q"
proof -
  let ?node = "unat (ie_target_node p)"
  have target: "valid_target img h nt rt p"
    by (rule check_edges_edge(2) [OF image_check_stages(9) [OF assms(1)] assms(2)])
  then have "1 \<le> ?node" "?node \<le> ih_node_count h" by (simp_all add: valid_target_def Let_def)
  then have "node_topology nt rt et ?node"
    using image_check_stages(10) [OF assms(1)] by (auto simp: list_all_iff)
  moreover have "nt_action nt ?node \<or> nt_dispatch_type nt ?node \<noteq> 0"
    using target assms(4) by (auto simp: valid_target_def Let_def)
  ultimately have "et_input et ?node = 1" using node_topologyD(1,2) by blast
  moreover have "edges_with (enters ?node) (image_edges img h) \<le> 192"
    using edges_with_le [of "enters ?node" "image_edges img h"] accepted_header(4) [OF assms(1)]
    by (simp add: image_edges_def counts_valid_def)
  ultimately have "edges_with (enters ?node) (image_edges img h) = 1"
    using count_is_one check_edges_counted(1) [OF image_check_stages(9) [OF assms(1)]]
    by (metis counted_def)
  then show ?thesis
    by (rule edges_with_unique) (use assms in \<open>auto simp: enters_def\<close>)
qed

section \<open>Paths from the workflow input\<close>

definition graph_path :: "image_edge list \<Rightarrow> image_edge list \<Rightarrow> bool" where
  "graph_path es ps \<longleftrightarrow>
     ps \<noteq> [] \<and> set ps \<subseteq> set es \<and> ie_source_kind (hd ps) = 0 \<and>
     (\<forall>p \<in> set ps. ie_target_kind p = 1 \<or> ie_target_kind p = 3) \<and>
     (\<forall>i. Suc i < length ps \<longrightarrow>
        ie_source_kind (ps ! Suc i) \<noteq> 0 \<and> ie_source_node (ps ! Suc i) = ie_target_node (ps ! i))"

lemma graph_path_single:
  "e \<in> set es \<Longrightarrow> ie_source_kind e = 0 \<Longrightarrow> ie_target_kind e = 1 \<or> ie_target_kind e = 3 \<Longrightarrow> graph_path es [e]"
  by (simp add: graph_path_def)

lemma graph_path_snoc:
  assumes "graph_path es ps" and "e \<in> set es" and "ie_source_kind e \<noteq> 0"
    and "ie_source_node e = ie_target_node (last ps)" and "ie_target_kind e = 1 \<or> ie_target_kind e = 3"
  shows "graph_path es (ps @ [e])"
proof -
  have "ie_source_kind ((ps @ [e]) ! Suc i) \<noteq> 0 \<and>
      ie_source_node ((ps @ [e]) ! Suc i) = ie_target_node ((ps @ [e]) ! i)" if "Suc i < length (ps @ [e])" for i
  proof (cases "Suc i < length ps")
    case True
    then show ?thesis using assms(1) by (simp add: graph_path_def nth_append)
  next
    case False
    with that have len: "Suc i = length ps" by simp
    then have "length ps - Suc 0 = i" by simp
    then show ?thesis using assms(1,3,4) len by (auto simp: graph_path_def nth_append last_conv_nth)
  qed
  then show ?thesis using assms by (auto simp: graph_path_def)
qed

lemma graph_path_distinct:
  assumes "image_check img n = Inr (h, nt, rt, et)" and "graph_path (image_edges img h) ps"
    and "i < j" and "j < length ps"
  shows "ie_target_node (ps ! i) \<noteq> ie_target_node (ps ! j)"
  using assms(3,4)
proof (induction i arbitrary: j)
  case (0 j)
  show ?case
  proof
    assume "ie_target_node (ps ! 0) = ie_target_node (ps ! j)"
    then have "ps ! 0 = ps ! j"
      by (intro accepted_entered_once [OF assms(1)]) (use assms(2) 0 in \<open>auto simp: graph_path_def\<close>)
    moreover have "ie_source_kind (ps ! j) \<noteq> 0"
      using assms(2) 0 by (cases j) (auto simp: graph_path_def)
    moreover have "ie_source_kind (ps ! 0) = 0" using assms(2) by (auto simp: graph_path_def hd_conv_nth)
    ultimately show False by simp
  qed
next
  case (Suc i j)
  obtain j' where j: "j = Suc j'" using Suc.prems(1) by (cases j) simp_all
  show ?case
  proof
    assume "ie_target_node (ps ! Suc i) = ie_target_node (ps ! j)"
    then have "ps ! Suc i = ps ! j"
      by (intro accepted_entered_once [OF assms(1)]) (use assms(2) Suc.prems in \<open>auto simp: graph_path_def\<close>)
    then have "ie_target_node (ps ! i) = ie_target_node (ps ! j')"
      using assms(2) Suc.prems unfolding j graph_path_def by (metis Suc_lessD less_trans_Suc)
    then show False using Suc.IH [of j'] Suc.prems j by simp
  qed
qed

lemma graph_path_length:
  assumes "image_check img n = Inr (h, nt, rt, et)" and "graph_path (image_edges img h) ps"
  shows "length ps \<le> ih_node_count h"
proof -
  let ?targets = "map (unat \<circ> ie_target_node) ps"
  have "distinct ?targets"
    unfolding distinct_conv_nth
  proof (intro allI impI)
    fix i j
    assume "i < length ?targets" "j < length ?targets" "i \<noteq> j"
    then show "?targets ! i \<noteq> ?targets ! j"
      using graph_path_distinct [OF assms, of i j] graph_path_distinct [OF assms, of j i]
      by (cases "i < j") (auto simp: word_unat_eq_iff)
  qed
  moreover have "set ?targets \<subseteq> {1..ih_node_count h}"
    using assms(2) check_edges_edge(2) [OF image_check_stages(9) [OF assms(1)]]
    by (fastforce simp: graph_path_def valid_target_def Let_def)
  ultimately have "length ?targets \<le> card {1..ih_node_count h}"
    by (metis card_mono distinct_card finite_atLeastAtMost)
  then show ?thesis by simp
qed


section \<open>An execution follows a path\<close>

text \<open>Entering an edge and routing through dispatch nodes extends the path.\<close>

definition same_run :: "hermas_execution \<Rightarrow> hermas_execution \<Rightarrow> bool" where
  "same_run e e' \<longleftrightarrow>
     ex_image e' = ex_image e \<and> ex_image_size e' = ex_image_size e \<and>
     ex_execution_id e' = ex_execution_id e \<and> ex_request_id e' = ex_request_id e \<and>
     ex_value_capacity e' = ex_value_capacity e"

definition follows_to :: "hermas_execution \<Rightarrow> image_edge list \<Rightarrow> hermas_execution \<Rightarrow> bool" where
  "follows_to e ps e' \<longleftrightarrow>
     same_run e e' \<and>
     (ex_state e' = HERMAS_EXECUTION_COMPLETE \<or>
      ex_state e' = HERMAS_EXECUTION_READY \<and> ie_target_kind (last ps) = 1 \<and>
        ex_current_node e' = ie_target_node (last ps) \<and>
        ex_value_source_type e' = ie_source_type (last ps) \<and>
        ex_value_destination_type e' = ie_target_type (last ps) \<or>
      ex_state e' = ex_state e \<and> ex_current_node e' = ie_target_node (last ps))"

lemma enter_edge_path:
  assumes "h = read_header img" and "es = image_edges img h"
  shows "ex_image e = img \<Longrightarrow> edge_offset = ih_edges h + i * 16 \<Longrightarrow> i < ih_edge_count h \<Longrightarrow>
      enter_edge e edge_offset out = (r, e') \<Longrightarrow>
      (\<And>q. q = read_edge img h i \<Longrightarrow> ie_target_kind q = 1 \<or> ie_target_kind q = 3 \<Longrightarrow> graph_path es (ps @ [q])) \<Longrightarrow>
      (\<exists>qs. follows_to e (ps @ qs) e' \<and> (qs = [] \<longrightarrow> ex_state e' = HERMAS_EXECUTION_COMPLETE) \<and>
        (qs \<noteq> [] \<longrightarrow> graph_path es (ps @ qs)) \<and>
        (ie_target_kind (read_edge img h i) = 1 \<or> ie_target_kind (read_edge img h i) = 3 \<longleftrightarrow> qs \<noteq> []))"
    and "ex_image d = img \<Longrightarrow> graph_path es ps' \<Longrightarrow> ex_current_node d = ie_target_node (last ps') \<Longrightarrow>
      route_dispatch d out = (r, e') \<Longrightarrow>
      \<exists>qs. follows_to d (ps' @ qs) e' \<and> graph_path es (ps' @ qs)"
proof (induction e edge_offset out and d out arbitrary: i ps r e' and ps' r e'
    rule: enter_edge_route_dispatch.induct)
  case (1 e edge_offset out)
  let ?q = "read_edge img h i"
  let ?e = "e\<lparr>ex_value_source_type := read_u16 img (edge_offset + 8),
      ex_value_destination_type := read_u16 img (edge_offset + 10),
      ex_current_node := read_u16 img (edge_offset + 6)\<rparr>"
  have kind: "img ! (edge_offset + 1) = ie_target_kind ?q"
    and node: "ex_current_node ?e = ie_target_node ?q" "ex_value_source_type ?e = ie_source_type ?q"
      "ex_value_destination_type ?e = ie_target_type ?q"
    using 1(3) by (simp_all add: read_edge_fields)
  note step = 1(5)[unfolded enter_edge.simps [of e] Let_def 1(2) kind]
  consider "ie_target_kind ?q = 1" | "ie_target_kind ?q = 3"
    | "ie_target_kind ?q \<noteq> 1" "ie_target_kind ?q \<noteq> 3" by blast
  then show ?case
  proof cases
    case 1
    then show ?thesis
      using step node \<open>\<And>q. q = ?q \<Longrightarrow> _ \<Longrightarrow> graph_path es (ps @ [q])\<close>
      by (intro exI [of _ "[?q]"]) (auto simp: follows_to_def same_run_def)
  next
    case 2
    then have "graph_path es (ps @ [?q])" using "1.prems"(5) by blast
    moreover have "route_dispatch ?e out = (r, e')" using step 2 by simp
    ultimately obtain qs where "follows_to ?e ((ps @ [?q]) @ qs) e'" "graph_path es ((ps @ [?q]) @ qs)"
      using "1.IH" [OF refl refl, of "ps @ [?q]" r e'] 2 kind node "1.prems"(1) by auto
    then show ?thesis
      using 2 by (intro exI [of _ "?q # qs"]) (simp add: follows_to_def same_run_def)
  next
    case 3
    then show ?thesis
      using step by (intro exI [of _ "[]"]) (auto simp: follows_to_def same_run_def)
  qed
next
  case (2 d out)
  let ?tag = "read_u32 (payload_bytes (ex_value_buffer d)) 0"
  let ?d = "d\<lparr>ex_value_buffer := shift_value 8 (ex_value_length d) (ex_value_buffer d),
      ex_value_length := ex_value_length d - 8\<rparr>"
  have stay: "\<exists>qs. follows_to d (ps' @ qs) d' \<and> graph_path es (ps' @ qs)"
    if "d' = d \<or> d' = ?d" for d'
    using that "2.prems" by (intro exI [of _ "[]"]) (auto simp: follows_to_def same_run_def)
  show ?case
  proof (cases "ex_value_length d < 8 \<or> read_u32 (payload_bytes (ex_value_buffer d)) 4 \<noteq> 0 \<or> ?tag > 255 \<or>
      find_case_edge d (ex_current_node d) (ucast ?tag) = None")
    case True
    then show ?thesis
      using "2.prems"(4) by (intro stay) (auto simp: route_dispatch.simps [of d] Let_def split: if_splits)
  next
    case False
    then obtain edge where edge: "find_case_edge d (ex_current_node d) (ucast ?tag) = Some edge" by blast
    then obtain i where i: "i < ih_edge_count h" "edge = ih_edges h + i * 16"
      and source: "ie_source_kind (read_edge img h i) = 5"
        "ie_source_node (read_edge img h i) = ex_current_node d"
      unfolding find_case_edge_def "2.prems"(1)
      by (rule first_edge_Some) (use assms(1) in \<open>auto simp: read_edge_fields\<close>)
    have path: "graph_path es (ps' @ [q])"
      if "q = read_edge img h i" "ie_target_kind q = 1 \<or> ie_target_kind q = 3" for q
      using that i(1) source "2.prems"(2,3) assms(2) by (intro graph_path_snoc) (auto intro: read_edge_in)
    show ?thesis
    proof (cases "hermas_image_validate_value (Some (ex_image ?d)) (ex_image_size ?d)
        (read_u16 (ex_image ?d) (edge + 8)) (ex_value_buffer ?d) (ex_value_length ?d) = HERMAS_IMAGE_OK")
      case True
      then have enter: "enter_edge ?d edge out = (r, e')"
        using "2.prems"(4) False edge by (simp add: route_dispatch.simps [of d] Let_def)
      obtain qs where "follows_to ?d (ps' @ qs) e'" "qs \<noteq> [] \<longrightarrow> graph_path es (ps' @ qs)"
        using "2.IH" [OF _ refl refl refl _ edge refl refl _ _ i(2,1) enter path] False True "2.prems"(1) by auto
      then show ?thesis
        using "2.prems"(2) by (intro exI [of _ qs]) (cases "qs = []"; simp add: follows_to_def same_run_def)
    next
      case False
      then show ?thesis
        using "2.prems"(4) edge by (intro stay)
          (auto simp: route_dispatch.simps [of d] Let_def split: if_splits)
    qed
  qed
qed

end
