(* ===== verification/Hermas_Runtime_Run.thy ===== *)
theory Hermas_Runtime_Run
  imports Hermas_Runtime_Path
begin

text \<open>
  Runs of the sequential runtime: any sequence of calls on a started execution, the failing ones
  included. The properties of runs rest on one invariant, carried by every call: the execution
  stands at the end of a path through the graph.
\<close>

section \<open>Calls and runs\<close>

datatype execution_call =
    Prepare
  | Mark_sent
  | Mark_not_sent
  | Mark_unknown
  | Accept_result hermas_frame

definition no_frame :: hermas_frame where
  "no_frame =
    \<lparr>fr_kind = 0, fr_execution_id = 0, fr_request_id = 0, fr_app_id = 0, fr_action_id = 0,
     fr_source_type = 0, fr_destination_type = 0, fr_outcome = 0, fr_payload = None,
     fr_payload_length = 0\<rparr>"

text \<open>A call returns its result, the execution, and the invocation it prepared, if any.\<close>

definition execution_call ::
  "execution_call \<Rightarrow> hermas_execution \<Rightarrow>
   hermas_runtime_result \<times> hermas_execution option \<times> hermas_frame list" where
  "execution_call c e =
    (let plain = (\<lambda>(r, e'). (r, e', []))
     in case c of
         Prepare \<Rightarrow>
           (case hermas_execution_prepare (Some e) (Some no_frame) of
              (r, e', Some f) \<Rightarrow> (r, e', if r = HERMAS_RUNTIME_OK then [f] else [])
            | (r, e', None) \<Rightarrow> (r, e', []))
       | Mark_sent \<Rightarrow> plain (hermas_execution_mark_sent (Some e))
       | Mark_not_sent \<Rightarrow> plain (hermas_execution_mark_not_sent (Some e))
       | Mark_unknown \<Rightarrow> plain (hermas_execution_mark_unknown (Some e))
       | Accept_result f \<Rightarrow> plain (hermas_execution_accept_result (Some e) (Some f)))"

text \<open>A run: the result of every call, the invocations prepared, the execution at the end.\<close>

fun execution_run ::
  "execution_call list \<Rightarrow> hermas_execution \<Rightarrow>
   hermas_runtime_result list \<times> hermas_frame list \<times> hermas_execution" where
  "execution_run [] e = ([], [], e)"
| "execution_run (c # cs) e =
    (case execution_call c e of
       (r, None, fs) \<Rightarrow> ([r], fs, e)
     | (r, Some e', fs) \<Rightarrow>
         (case execution_run cs e' of (rs, gs, e'') \<Rightarrow> (r # rs, fs @ gs, e'')))"

section \<open>The invariant of runs\<close>

text \<open>The nodes at which the invocations of a run are prepared.\<close>

fun delivered_nodes :: "execution_call list \<Rightarrow> hermas_execution \<Rightarrow> u16 list" where
  "delivered_nodes [] e = []"
| "delivered_nodes (c # cs) e =
    (case execution_call c e of (r, e', fs) \<Rightarrow>
       map (\<lambda>f. ex_current_node e) fs @
       (case e' of None \<Rightarrow> [] | Some e1 \<Rightarrow> delivered_nodes cs e1))"

text \<open>An invocation for the Action of a node.\<close>

definition invokes :: "bytes \<Rightarrow> hermas_frame \<Rightarrow> u16 \<Rightarrow> bool" where
  "invokes img f node \<longleftrightarrow>
     fr_app_id f = read_u16 img (node_record img node + 4) \<and>
     fr_action_id f = read_u16 img (node_record img node + 2)"

definition run_inv ::
  "bytes \<Rightarrow> nat \<Rightarrow> u64 \<Rightarrow> image_edge list \<Rightarrow> u16 list \<Rightarrow> hermas_frame list \<Rightarrow> hermas_execution \<Rightarrow> bool" where
  "run_inv img n xid ps nodes frames e \<longleftrightarrow>
     ex_image e = img \<and> ex_image_size e = n \<and> ex_execution_id e = xid \<and>
     graph_path (image_edges img (read_header img)) ps \<and>
     ex_request_id e \<noteq> 0 \<and> unat (ex_request_id e) \<le> length ps \<and>
     sorted_wrt (<) (map fr_request_id frames) \<and>
     list_all (\<lambda>f. fr_execution_id f = xid \<and> fr_request_id f \<noteq> 0 \<and> fr_request_id f \<le> ex_request_id e) frames \<and>
     list_all2 (invokes img) frames nodes \<and> distinct nodes \<and> set nodes \<subseteq> ie_target_node ` set ps \<and>
     (ex_state e = HERMAS_EXECUTION_READY \<longrightarrow>
        ie_target_node (last ps) \<notin> set nodes \<and> list_all (\<lambda>f. fr_request_id f < ex_request_id e) frames \<and>
        ie_target_kind (last ps) = 1 \<and> ex_value_source_type e = ie_source_type (last ps) \<and>
        ex_value_destination_type e = ie_target_type (last ps)) \<and>
     (ex_state e \<noteq> HERMAS_EXECUTION_COMPLETE \<longrightarrow> ex_current_node e = ie_target_node (last ps))"

lemma graph_path_last_new:
  assumes "image_check img n = Inr (h, nt, rt, et)" and "graph_path (image_edges img h) (ps @ qs)" and "qs \<noteq> []"
  shows "ie_target_node (last (ps @ qs)) \<notin> ie_target_node ` set ps"
proof
  assume "ie_target_node (last (ps @ qs)) \<in> ie_target_node ` set ps"
  then obtain i where i: "i < length ps" "ie_target_node (last (ps @ qs)) = ie_target_node (ps ! i)"
    by (auto simp: in_set_conv_nth)
  have "last (ps @ qs) = (ps @ qs) ! (length (ps @ qs) - 1)" using assms(3) by (simp add: last_conv_nth)
  moreover have "i < length (ps @ qs) - 1" "length (ps @ qs) - 1 < length (ps @ qs)"
    using i(1) assms(3) by (cases qs; simp)+
  ultimately show False
    using graph_path_distinct [OF assms(1,2), of i "length (ps @ qs) - 1"] i by (simp add: nth_append)
qed

lemma find_edge_Some:
  assumes "find_edge e kind node = Some offset" and "ex_image e = img" and "h = read_header img"
  obtains i where "i < ih_edge_count h" and "offset = ih_edges h + i * 16"
    and "ie_source_kind (read_edge img h i) = kind" and "ie_source_node (read_edge img h i) = node"
  using assms(1) unfolding find_edge_def assms(2)
  by (rule first_edge_Some) (use that assms(3) in \<open>auto simp: read_edge_fields\<close>)

lemma copy_value_same:
  assumes "copy_value e v len = (r, e')"
  shows "same_run e e'" and "ex_state e' = ex_state e" and "ex_current_node e' = ex_current_node e"
    and "r \<noteq> HERMAS_RUNTIME_OK \<Longrightarrow> e' = e" and "r \<noteq> HERMAS_RUNTIME_REQUEST_ID_EXHAUSTED"
  using assms by (auto simp: copy_value_def same_run_def split: if_splits option.splits)

text \<open>What the operations that enter an edge do: nothing, or they follow one edge of the node.\<close>

lemma finish_cases:
  assumes "finish_delivery_outcome (Some e) required kind out = (r, e')"
  obtains (stay) "e' = Some e" and "r \<noteq> HERMAS_RUNTIME_REQUEST_ID_EXHAUSTED"
    | (go) edge e1 where "e' = Some e1" and "ex_state e = required"
      and "find_edge e kind (ex_current_node e) = Some edge"
      and "enter_edge (e\<lparr>ex_value_length := 0\<rparr>) edge out = (r, e1)"
  using assms by (auto simp: finish_delivery_outcome_def map_prod_def split: if_splits option.splits prod.splits)

lemma accept_cases:
  assumes "execution_accept_result e f = (r, e')"
  defines "kind \<equiv> if fr_outcome f = HERMAS_OUTCOME_SUCCESS then 1 else 2 :: u8"
  obtains (stay) "e' = e" and "r = HERMAS_RUNTIME_REQUEST_ID_EXHAUSTED \<Longrightarrow> ex_request_id e = - 1"
      and "r \<noteq> HERMAS_RUNTIME_OK"
    | (go) edge e1 where "ex_state e = HERMAS_EXECUTION_SENT" and "result_expected e f"
      and "find_edge e kind (ex_current_node e) = Some edge"
      and "fr_source_type f = read_u16 (ex_image e) (edge + 8)"
      and "unat (fr_payload_length f) \<le> HERMAS_PROTOCOL_MAX_PAYLOAD_SIZE"
      and "hermas_image_validate_value (Some (ex_image e)) (ex_image_size e)
        (fr_source_type f) (fr_payload f) (unat (fr_payload_length f)) = HERMAS_IMAGE_OK"
      and "copy_value e (fr_payload f) (unat (fr_payload_length f)) = (HERMAS_RUNTIME_OK, e1)"
      and "enter_edge (if ex_image e ! (edge + 1) = 1 \<or> ex_image e ! (edge + 1) = 3
          then e1\<lparr>ex_request_id := ex_request_id e1 + 1\<rparr> else e1) edge (fr_outcome f) = (r, e')"
proof -
  have "e' = e \<and> (r = HERMAS_RUNTIME_REQUEST_ID_EXHAUSTED \<longrightarrow> ex_request_id e = - 1) \<and> r \<noteq> HERMAS_RUNTIME_OK \<or>
      (\<exists>edge e1. ex_state e = HERMAS_EXECUTION_SENT \<and> result_expected e f \<and>
        find_edge e kind (ex_current_node e) = Some edge \<and>
        fr_source_type f = read_u16 (ex_image e) (edge + 8) \<and>
        unat (fr_payload_length f) \<le> HERMAS_PROTOCOL_MAX_PAYLOAD_SIZE \<and>
        hermas_image_validate_value (Some (ex_image e)) (ex_image_size e)
          (fr_source_type f) (fr_payload f) (unat (fr_payload_length f)) = HERMAS_IMAGE_OK \<and>
        copy_value e (fr_payload f) (unat (fr_payload_length f)) = (HERMAS_RUNTIME_OK, e1) \<and>
        enter_edge (if ex_image e ! (edge + 1) = 1 \<or> ex_image e ! (edge + 1) = 3
          then e1\<lparr>ex_request_id := ex_request_id e1 + 1\<rparr> else e1) edge (fr_outcome f) = (r, e'))"
    using assms(1) unfolding execution_accept_result_def Let_def kind_def
    by (simp split: if_splits option.splits prod.splits) (use copy_value_same(4,5) in \<open>fastforce\<close>)+
  then show thesis using stay go by blast
qed

text \<open>Entering an edge that leaves the current node.\<close>

lemma run_inv_enter:
  assumes check: "image_check img n = Inr (h, nt, rt, et)"
    and "run_inv img n xid ps nodes frames e0" and "ex_state e0 \<noteq> HERMAS_EXECUTION_COMPLETE"
    and "ex_state e0 \<noteq> HERMAS_EXECUTION_READY"
    and "find_edge e0 kind (ex_current_node e0) = Some offset" and "kind \<noteq> 0"
    and "ex_image e = img" and "ex_image_size e = n" and "ex_execution_id e = xid" and "ex_state e = ex_state e0"
    and "ex_request_id e = ex_request_id e0 +
      (if img ! (offset + 1) = 1 \<or> img ! (offset + 1) = 3 then 1 else 0)"
    and "ex_request_id e0 \<noteq> - 1" and "enter_edge e offset out = (r, e')"
  shows "\<exists>ps'. run_inv img n xid ps' nodes frames e'"
proof -
  let ?h = "read_header img"
  have img: "ex_image e0 = img" using assms(2) by (simp add: run_inv_def)
  obtain i where i: "i < ih_edge_count ?h" "offset = ih_edges ?h + i * 16"
    and source: "ie_source_kind (read_edge img ?h i) = kind"
      "ie_source_node (read_edge img ?h i) = ie_target_node (last ps)"
    using find_edge_Some [OF assms(5) img refl] assms(2,3) by (metis run_inv_def)
  let ?q = "read_edge img ?h i"
  have kind: "img ! (offset + 1) = ie_target_kind ?q" using i(2) by (simp add: read_edge_fields)
  have path: "graph_path (image_edges img ?h) (ps @ [q])"
    if "q = ?q" "ie_target_kind q = 1 \<or> ie_target_kind q = 3" for q
    using that assms(2,6) source i(1) by (intro graph_path_snoc) (auto simp: run_inv_def intro: read_edge_in)
  obtain qs where qs: "follows_to e (ps @ qs) e'" "qs = [] \<longrightarrow> ex_state e' = HERMAS_EXECUTION_COMPLETE"
    "qs \<noteq> [] \<longrightarrow> graph_path (image_edges img ?h) (ps @ qs)"
    "ie_target_kind ?q = 1 \<or> ie_target_kind ?q = 3 \<longleftrightarrow> qs \<noteq> []"
    using enter_edge_path(1) [OF refl refl assms(7) i(2,1) assms(13) path] by blast
  have rid: "ex_request_id e' = ex_request_id e0 + (if qs = [] then 0 else 1)"
    using qs(1,4) assms(11) unfolding kind by (auto simp: follows_to_def same_run_def)
  have "unat (ex_request_id e') = unat (ex_request_id e0) + (if qs = [] then 0 else 1)"
    using rid unat_plus_one [OF assms(12)] by simp
  moreover have "unat (ex_request_id e0) \<noteq> 0" "unat (ex_request_id e0) \<le> length ps"
    using assms(2) by (simp_all add: run_inv_def unat_gt_0)
  moreover have "qs = [] \<or> 1 \<le> length qs" by (cases qs) simp_all
  ultimately have bound: "ex_request_id e' \<noteq> 0" "unat (ex_request_id e') \<le> length (ps @ qs)"
    by (auto split: if_splits)
  have less: "w < ex_request_id e'" if "w \<le> ex_request_id e0" "qs \<noteq> []" for w
    using that rid word_less_plus_one [OF assms(12)] by simp
  have le: "w \<le> ex_request_id e'" if "w \<le> ex_request_id e0" for w
    using that rid less by (cases "qs = []") (auto intro: less_imp_le)
  have new: "ie_target_node (last (ps @ qs)) \<notin> ie_target_node ` set ps" if "qs \<noteq> []"
    using graph_path_last_new [OF check] qs(3) that accepted_header(1) [OF check] by metis
  have "run_inv img n xid (ps @ qs) nodes frames e'"
    using assms(2-4,7-10) qs bound less le new
    by (cases "qs = []") (auto simp: run_inv_def follows_to_def same_run_def list_all_iff)
  then show ?thesis ..
qed

text \<open>The request counter stays far below its maximum: it is at most the length of the path.\<close>

lemma run_inv_request_id:
  assumes "image_check img n = Inr (h, nt, rt, et)" and "run_inv img n xid ps nodes frames e"
  shows "ex_request_id e \<noteq> - 1"
proof
  assume "ex_request_id e = - 1"
  then have "unat (ex_request_id e) = 2 ^ 64 - 1" by (simp add: unsigned_minus_1_eq_mask mask_eq_exp_minus_1)
  moreover have "length ps \<le> 64"
    using graph_path_length [OF assms(1)] assms(2) accepted_header(1,4) [OF assms(1)]
    by (fastforce simp: run_inv_def counts_valid_def)
  moreover have "unat (ex_request_id e) \<le> length ps" using assms(2) by (simp add: run_inv_def)
  ultimately show False by simp
qed

lemma enter_edge_result:
  "fst (enter_edge e offset out) \<noteq> HERMAS_RUNTIME_REQUEST_ID_EXHAUSTED"
  "fst (route_dispatch e out) \<noteq> HERMAS_RUNTIME_REQUEST_ID_EXHAUSTED"
proof (induction e offset out and e out rule: enter_edge_route_dispatch.induct)
  case (1 e offset out)
  then show ?case by (auto simp: enter_edge.simps [of e] Let_def)
next
  case (2 e out)
  then show ?case by (auto simp: route_dispatch.simps [of e] Let_def split: option.split)
qed

text \<open>Every call keeps the invariant.\<close>

lemma run_inv_finish:
  assumes "image_check img n = Inr (h, nt, rt, et)" and "n \<le> length img"
    and "run_inv img n xid ps nodes frames e"
    and "required = HERMAS_EXECUTION_PREPARED \<or> required = HERMAS_EXECUTION_SENT"
    and "kind = 3 \<or> kind = 4"
    and "finish_delivery_outcome (Some e) required kind out = (r, e')"
  obtains ps' e1 where "e' = Some e1" and "run_inv img n xid ps' nodes frames e1"
    and "r \<noteq> HERMAS_RUNTIME_REQUEST_ID_EXHAUSTED"
  using assms(6)
proof (cases rule: finish_cases)
  case stay
  then show thesis using that assms(3) by blast
next
  case (go offset e1)
  have img: "ex_image e = img" "h = read_header img"
    using assms(3) accepted_header(1) [OF assms(1)] by (simp_all add: run_inv_def)
  obtain i where i: "i < ih_edge_count h" "offset = ih_edges h + i * 16"
    and kind: "ie_source_kind (read_edge img h i) = kind"
    using find_edge_Some [OF go(3) img] by blast
  have "ie_target_kind (read_edge img h i) \<noteq> 1" "ie_target_kind (read_edge img h i) \<noteq> 3"
    using accepted_valueless_edge [OF assms(1,2) read_edge_in [OF i(1)]] kind assms(5) by simp_all
  then have target: "img ! (offset + 1) \<noteq> 1" "img ! (offset + 1) \<noteq> 3" by (simp_all add: read_edge_fields i(2))
  have "\<exists>ps'. run_inv img n xid ps' nodes frames e1"
    by (rule run_inv_enter [OF assms(1,3) _ _ go(3) _ _ _ _ _ _ run_inv_request_id [OF assms(1,3)] go(4)])
      (use assms(3-5) go(2) img(1) target in \<open>auto simp: run_inv_def\<close>)
  moreover have "r \<noteq> HERMAS_RUNTIME_REQUEST_ID_EXHAUSTED"
    using go(4) enter_edge_result(1) by (metis fst_conv)
  ultimately show thesis using that go(1) by blast
qed

lemma run_inv_accept:
  assumes "image_check img n = Inr (h, nt, rt, et)"
    and "run_inv img n xid ps nodes frames e" and "execution_accept_result e f = (r, e')"
  shows "(\<exists>ps'. run_inv img n xid ps' nodes frames e') \<and> r \<noteq> HERMAS_RUNTIME_REQUEST_ID_EXHAUSTED"
  using assms(3)
proof (cases rule: accept_cases)
  case stay
  then show ?thesis using assms(2) run_inv_request_id [OF assms(1,2)] by blast
next
  case (go edge e1)
  have "\<exists>ps'. run_inv img n xid ps' nodes frames e'"
    using copy_value_same(1-3) [OF go(7)] assms(2) go(1)
    by (intro run_inv_enter [OF assms(1,2) _ _ go(3) _ _ _ _ _ _ run_inv_request_id [OF assms(1,2)] go(8)])
      (auto simp: run_inv_def same_run_def)
  moreover have "r \<noteq> HERMAS_RUNTIME_REQUEST_ID_EXHAUSTED"
    using go(8) enter_edge_result(1) by (metis fst_conv)
  ultimately show ?thesis by blast
qed

lemma run_inv_prepare:
  assumes "run_inv img n xid ps nodes frames e" and "ex_state e = HERMAS_EXECUTION_READY"
  shows "run_inv img n xid ps (nodes @ [ex_current_node e])
    (frames @ [invocation_frame e (node_offset e (ex_current_node e))]) (e\<lparr>ex_state := HERMAS_EXECUTION_PREPARED\<rparr>)"
proof -
  have "ps \<noteq> []" using assms(1) by (simp add: run_inv_def graph_path_def)
  moreover have "invokes img (invocation_frame e (node_offset e (ex_current_node e))) (ex_current_node e)"
    using assms(1) by (simp add: invokes_def invocation_frame_def node_offset_def run_inv_def)
  ultimately show ?thesis
    using assms by (auto simp: run_inv_def invocation_frame_def sorted_wrt_append list_all_iff list_all2_appendI)
qed

lemma run_inv_call:
  assumes "image_check img n = Inr (h, nt, rt, et)" and "n \<le> length img"
    and "run_inv img n xid ps nodes frames e" and "execution_call c e = (r, e', fs)"
  obtains ps' e1 where "e' = Some e1"
    and "run_inv img n xid ps' (nodes @ map (\<lambda>f. ex_current_node e) fs) (frames @ fs) e1"
    and "r \<noteq> HERMAS_RUNTIME_REQUEST_ID_EXHAUSTED"
proof (cases c)
  case Prepare
  then show thesis
    using assms(3,4) that run_inv_prepare [OF assms(3)]
    by (auto simp: execution_call_def hermas_execution_prepare_def Let_def split: if_splits)
next
  case Mark_sent
  then show thesis
    using assms(3,4) that [of "e\<lparr>ex_state := HERMAS_EXECUTION_SENT\<rparr>" ps] that [of e ps]
    by (auto simp: execution_call_def hermas_execution_mark_sent_def run_inv_def split: if_splits)
next
  case Mark_not_sent
  then have "finish_delivery_outcome (Some e) HERMAS_EXECUTION_PREPARED 3 HERMAS_OUTCOME_NOT_SENT = (r, e')"
    and "fs = []"
    using assms(4) by (auto simp: execution_call_def hermas_execution_mark_not_sent_def split: prod.splits)
  then show thesis using run_inv_finish [OF assms(1-3)] that by (metis append_Nil2 list.map(1))
next
  case Mark_unknown
  then have "finish_delivery_outcome (Some e) HERMAS_EXECUTION_SENT 4 HERMAS_OUTCOME_UNKNOWN = (r, e')"
    and "fs = []"
    using assms(4) by (auto simp: execution_call_def hermas_execution_mark_unknown_def split: prod.splits)
  then show thesis using run_inv_finish [OF assms(1-3)] that by (metis append_Nil2 list.map(1))
next
  case (Accept_result f)
  then have "execution_accept_result e f = (r, the e')" and e': "e' \<noteq> None" "fs = []"
    using assms(4)
    by (auto simp: execution_call_def hermas_execution_accept_result_def map_prod_def split: prod.splits)
  then show thesis
    using run_inv_accept [OF assms(1,3)] that by fastforce
qed

lemma run_inv_run:
  assumes "image_check img n = Inr (h, nt, rt, et)" and "n \<le> length img"
  shows "run_inv img n xid ps nodes frames e \<Longrightarrow> execution_run calls e = (rs, fs, e') \<Longrightarrow>
    (\<exists>ps'. run_inv img n xid ps' (nodes @ delivered_nodes calls e) (frames @ fs) e') \<and> HERMAS_RUNTIME_REQUEST_ID_EXHAUSTED \<notin> set rs"
proof (induction calls arbitrary: ps nodes frames e rs fs)
  case Nil
  then show ?case by auto
next
  case (Cons c cs)
  obtain r ee gs where call: "execution_call c e = (r, ee, gs)" by (metis prod_cases3)
  obtain ps' e1 where e1: "ee = Some e1" "run_inv img n xid ps' (nodes @ map (\<lambda>f. ex_current_node e) gs) (frames @ gs) e1"
    "r \<noteq> HERMAS_RUNTIME_REQUEST_ID_EXHAUSTED"
    using run_inv_call [OF assms Cons.prems(1) call] .
  obtain rs' fs' where rest: "execution_run cs e1 = (rs', fs', e')" and "rs = r # rs'" "fs = gs @ fs'"
    using Cons.prems(2) call e1(1) by (auto split: prod.splits)
  moreover have "delivered_nodes (c # cs) e = map (\<lambda>f. ex_current_node e) gs @ delivered_nodes cs e1"
    using call e1(1) by simp
  ultimately show ?case using Cons.IH [OF e1(2) rest] e1(3) by (auto simp del: delivered_nodes.simps)
qed

section \<open>Started executions\<close>

lemma execution_admit_not_OK:
  "execution_admit img n xid buffer capacity type_id input len \<noteq> Inl HERMAS_RUNTIME_OK"
  by (simp add: execution_admit_def split: prod.split hermas_image_result.split option.split)

lemma run_inv_start:
  assumes "hermas_execution_start (Some old) (Some img) n xid buffer capacity type_id input len =
      (HERMAS_RUNTIME_OK, Some e)"
    and "n \<le> length img"
  obtains h nt rt et ps where "image_check img n = Inr (h, nt, rt, et)" and "run_inv img n xid ps [] [] e"
proof -
  let ?fresh = "fresh_execution img n xid buffer capacity"
  from assms(1) have admit: "execution_admit img n xid buffer capacity type_id input len = Inr e"
    by (auto simp: hermas_execution_start_def execution_admit_not_OK split: if_splits sum.splits)
  then have "fst (hermas_image_validate (Some img) n (Some no_summary)) = HERMAS_IMAGE_OK"
    by (auto simp: execution_admit_def split: prod.splits hermas_image_result.splits option.splits)
  then obtain h nt rt et where ok: "image_check img n = Inr (h, nt, rt, et)"
    by (auto simp: validate_OK_iff)
  obtain fresh root where copy: "copy_value ?fresh input len = (HERMAS_RUNTIME_OK, fresh)"
    and root: "find_edge fresh 0 0 = Some root" "img ! (root + 1) = 1"
    and e: "e = snd (enter_edge fresh root HERMAS_OUTCOME_NONE)"
    using admit by (auto simp: execution_admit_def
        split: prod.splits hermas_image_result.splits option.splits if_splits)
  have img: "ex_image fresh = img" "h = read_header img"
    using copy_value_same(1) [OF copy] accepted_header(1) [OF ok] by (simp_all add: same_run_def fresh_execution_def)
  obtain i where i: "i < ih_edge_count h" "root = ih_edges h + i * 16"
    and source: "ie_source_kind (read_edge img h i) = 0"
    using find_edge_Some [OF root(1) img] .
  have kind: "ie_target_kind (read_edge img h i) = 1" using root(2) i(2) by (simp add: read_edge_fields)
  have "graph_path (image_edges img h) [read_edge img h i]"
    using source kind i(1) by (intro graph_path_single) (auto intro: read_edge_in)
  moreover have "enter_edge fresh root HERMAS_OUTCOME_NONE = (HERMAS_RUNTIME_OK, e)"
    using e root(2) by (simp add: enter_edge.simps [of fresh] img(1) Let_def)
  ultimately have "run_inv img n xid [read_edge img h i] [] [] e"
    using copy_value_same(1) [OF copy] root(2) img i(2)
    by (auto simp: run_inv_def same_run_def fresh_execution_def enter_edge.simps [of fresh] Let_def read_edge_fields)
  then show thesis using that ok by blast
qed

text \<open>C19: A sequential execution delivers every node at most once. Whatever calls are made on a started
  execution, in whatever order and with whatever result frames, the nodes at which its invocations are
  prepared are pairwise distinct nodes of the graph, and each invocation is for the app and the
  Action of its node. So there are at most as many invocations as nodes; they carry the
  execution ID and strictly increasing nonzero request IDs, and the request counter never runs out.\<close>

theorem execution_run_bounded:
  assumes "hermas_execution_start (Some old) (Some img) n xid buffer capacity type_id input len =
      (HERMAS_RUNTIME_OK, Some e)"
    and "n \<le> length img"
    and "execution_run calls e = (results, invocations, e')"
  shows "distinct (delivered_nodes calls e) \<and>
    list_all2 (invokes img) invocations (delivered_nodes calls e) \<and>
    (\<forall>node \<in> set (delivered_nodes calls e). 1 \<le> unat node \<and> unat node \<le> ih_node_count (read_header img)) \<and>
    length invocations \<le> ih_node_count (read_header img) \<and>
    sorted_wrt (<) (map fr_request_id invocations) \<and>
    list_all (\<lambda>f. fr_execution_id f = xid \<and> fr_request_id f \<noteq> 0) invocations \<and>
    HERMAS_RUNTIME_REQUEST_ID_EXHAUSTED \<notin> set results"
proof -
  let ?nodes = "delivered_nodes calls e"
  obtain h nt rt et ps where ok: "image_check img n = Inr (h, nt, rt, et)" and start: "run_inv img n xid ps [] [] e"
    using run_inv_start [OF assms(1,2)] .
  obtain ps' where inv: "run_inv img n xid ps' ?nodes invocations e'"
    and ids: "HERMAS_RUNTIME_REQUEST_ID_EXHAUSTED \<notin> set results"
    using run_inv_run [OF ok assms(2) start assms(3)] by auto
  have h: "h = read_header img" by (rule accepted_header(1) [OF ok])
  have path: "graph_path (image_edges img h) ps'" and sub: "set ?nodes \<subseteq> ie_target_node ` set ps'"
    and once: "distinct ?nodes" and pairs: "list_all2 (invokes img) invocations ?nodes"
    using inv h by (simp_all add: run_inv_def)
  have in_graph: "1 \<le> unat node \<and> unat node \<le> ih_node_count h" if in_nodes: "node \<in> set ?nodes" for node
  proof -
    obtain p where "p \<in> set ps'" and node: "node = ie_target_node p" using in_nodes sub by blast
    then have "valid_target img h nt rt p"
      using path check_edges_edge(2) [OF image_check_stages(9) [OF ok]] by (auto simp: graph_path_def)
    then show ?thesis by (simp add: valid_target_def node Let_def)
  qed
  have "length ?nodes = card (set ?nodes)" using distinct_card [OF once] by simp
  also have "\<dots> \<le> card (ie_target_node ` set ps')" by (rule card_mono [OF _ sub]) simp
  also have "\<dots> \<le> length ps'" by (rule le_trans [OF card_image_le card_length]) simp
  also have "\<dots> \<le> ih_node_count h" by (rule graph_path_length [OF ok path])
  finally have "length invocations \<le> ih_node_count h" using list_all2_lengthD [OF pairs] by simp
  then show ?thesis
    using inv ids once pairs in_graph unfolding h by (auto simp: run_inv_def list_all_iff)
qed

section \<open>The value buffer\<close>

text \<open>The value lies in the capacity the caller gave, and no byte behind it is written.\<close>

definition value_ok :: "bytes \<Rightarrow> nat \<Rightarrow> hermas_execution \<Rightarrow> bool" where
  "value_ok buffer capacity e \<longleftrightarrow>
     ex_value_capacity e = capacity \<and> ex_value_length e \<le> capacity \<and>
     ex_value_length e \<le> HERMAS_PROTOCOL_MAX_PAYLOAD_SIZE \<and>
     (\<exists>b. ex_value_buffer e = Some b \<and> length b = length buffer \<and> drop capacity b = drop capacity buffer)"

lemma value_ok_write:
  assumes "length xs \<le> capacity" and "capacity \<le> length b"
  shows "length (write_bytes b 0 xs) = length b" and "drop capacity (write_bytes b 0 xs) = drop capacity b"
  using assms by (simp_all add: drop_write_bytes)

lemma value_ok_copy:
  assumes "value_ok buffer capacity e" and "capacity \<le> length buffer"
    and "len \<le> HERMAS_PROTOCOL_MAX_PAYLOAD_SIZE" and "copy_value e v len = (r, e')"
  shows "value_ok buffer capacity e'"
proof -
  have "value_ok buffer capacity (e\<lparr>ex_value_buffer := Some (write_bytes b 0 (take len bs)), ex_value_length := len\<rparr>)"
    if "ex_value_buffer e = Some b" "len \<le> capacity" for b bs
  proof -
    have "capacity \<le> length b" "length (take len bs) \<le> capacity"
      using assms(1,2) that by (auto simp: value_ok_def)
    from value_ok_write [OF this(2,1)] show ?thesis using assms that by (auto simp: value_ok_def)
  qed
  then show ?thesis
    using assms by (auto simp: copy_value_def value_ok_def split: if_splits option.splits)
qed

lemma value_ok_enter:
  assumes "capacity \<le> length buffer"
  shows "value_ok buffer capacity e \<Longrightarrow> value_ok buffer capacity (snd (enter_edge e offset out))"
    and "value_ok buffer capacity d \<Longrightarrow> value_ok buffer capacity (snd (route_dispatch d out))"
proof (induction e offset out and d out rule: enter_edge_route_dispatch.induct)
  case (1 e offset out)
  then show ?case by (auto simp: enter_edge.simps [of e] Let_def value_ok_def)
next
  case (2 d out)
  let ?d = "d\<lparr>ex_value_buffer := shift_value 8 (ex_value_length d) (ex_value_buffer d),
      ex_value_length := ex_value_length d - 8\<rparr>"
  have "value_ok buffer capacity ?d"
  proof -
    obtain b where b: "ex_value_buffer d = Some b" "length b = length buffer"
      "drop capacity b = drop capacity buffer" and len: "ex_value_length d \<le> capacity"
      using "2.prems" by (auto simp: value_ok_def)
    have "length (chunk b 8 (ex_value_length d - 8)) \<le> capacity" using len by simp
    from value_ok_write [OF this, of b] show ?thesis
      using "2.prems" b assms by (auto simp: value_ok_def shift_value_def simp del: length_chunk)
  qed
  then show ?case
    using "2.IH" "2.prems" by (simp add: route_dispatch.simps [of d] Let_def split: option.split)
qed

lemma value_ok_upd [simp]:
  "value_ok buffer capacity (e\<lparr>ex_state := s\<rparr>) = value_ok buffer capacity e"
  "value_ok buffer capacity (e\<lparr>ex_request_id := i\<rparr>) = value_ok buffer capacity e"
  by (simp_all add: value_ok_def)

lemma value_ok_finish:
  assumes "capacity \<le> length buffer" and "value_ok buffer capacity e"
    and "finish_delivery_outcome (Some e) required kind out = (r, Some e')"
  shows "value_ok buffer capacity e'"
  using assms(3)
proof (cases rule: finish_cases)
  case (go edge e1)
  have "value_ok buffer capacity (e\<lparr>ex_value_length := 0\<rparr>)" using assms(2) by (simp add: value_ok_def)
  then show ?thesis using value_ok_enter(1) [OF assms(1), of _ edge out] go by fastforce
qed (use assms(2) in simp)

lemma value_ok_accept:
  assumes "capacity \<le> length buffer" and "value_ok buffer capacity e"
    and "execution_accept_result e f = (r, e')"
  shows "value_ok buffer capacity e'"
  using assms(3)
proof (cases rule: accept_cases)
  case (go edge e1)
  have "value_ok buffer capacity e1" by (rule value_ok_copy [OF assms(2,1) go(5,7)])
  then have "value_ok buffer capacity (if b then e1\<lparr>ex_request_id := i\<rparr> else e1)" for b i by simp
  from value_ok_enter(1) [OF assms(1) this] go(8) show ?thesis by (metis snd_conv)
qed (use assms(2) in simp)

lemma value_ok_call:
  assumes "capacity \<le> length buffer" and "value_ok buffer capacity e"
    and "execution_call c e = (r, Some e', fs)"
  shows "value_ok buffer capacity e'"
proof (cases c)
  case Prepare
  then show ?thesis
    using assms(2,3) by (auto simp: execution_call_def hermas_execution_prepare_def Let_def split: if_splits)
next
  case Mark_sent
  then show ?thesis
    using assms(2,3) by (auto simp: execution_call_def hermas_execution_mark_sent_def split: if_splits)
next
  case Mark_not_sent
  then show ?thesis
    using assms(3) value_ok_finish [OF assms(1,2)]
    by (auto simp: execution_call_def hermas_execution_mark_not_sent_def split: prod.splits)
next
  case Mark_unknown
  then show ?thesis
    using assms(3) value_ok_finish [OF assms(1,2)]
    by (auto simp: execution_call_def hermas_execution_mark_unknown_def split: prod.splits)
next
  case (Accept_result f)
  then show ?thesis
    using assms(3) value_ok_accept [OF assms(1,2)]
    by (auto simp: execution_call_def hermas_execution_accept_result_def map_prod_def split: prod.splits)
qed


lemma value_ok_run:
  assumes "capacity \<le> length buffer"
  shows "value_ok buffer capacity e \<Longrightarrow> execution_run calls e = (rs, fs, e') \<Longrightarrow> value_ok buffer capacity e'"
proof (induction calls arbitrary: e rs fs)
  case (Cons c cs)
  then show ?case
    using value_ok_call [OF assms Cons.prems(1)] by (auto split: prod.splits option.splits) blast+
qed simp

lemma value_ok_start:
  assumes "hermas_execution_start (Some old) (Some img) n xid (Some buffer) capacity type_id input len =
      (HERMAS_RUNTIME_OK, Some e)"
    and "capacity \<le> length buffer"
  shows "value_ok buffer capacity e" and "xid \<noteq> 0"
proof -
  let ?fresh = "fresh_execution img n xid (Some buffer) capacity"
  have admit: "execution_admit img n xid (Some buffer) capacity type_id input len = Inr e"
    and len: "len \<le> HERMAS_PROTOCOL_MAX_PAYLOAD_SIZE" and "xid \<noteq> 0"
    using assms(1) by (auto simp: hermas_execution_start_def execution_admit_not_OK split: if_splits sum.splits)
  show "xid \<noteq> 0" by fact
  obtain fresh root where copy: "copy_value ?fresh input len = (HERMAS_RUNTIME_OK, fresh)"
    and e: "e = snd (enter_edge fresh root HERMAS_OUTCOME_NONE)"
    using admit by (auto simp: execution_admit_def
        split: prod.splits hermas_image_result.splits option.splits if_splits)
  have "value_ok buffer capacity ?fresh" by (simp add: value_ok_def fresh_execution_def)
  then show "value_ok buffer capacity e"
    unfolding e by (intro value_ok_enter(1) [OF assms(2)] value_ok_copy [OF _ assms(2) len copy])
qed

text \<open>The invocations are frames that the protocol knows.\<close>

definition frame_ok :: "hermas_frame \<Rightarrow> bool" where
  "frame_ok f \<longleftrightarrow>
     fr_kind f = HERMAS_FRAME_INVOKE \<and> fr_outcome f = HERMAS_OUTCOME_NONE \<and>
     validate_semantics f = HERMAS_PROTOCOL_OK \<and> fr_payload f \<noteq> None \<and>
     unat (fr_payload_length f) \<le> HERMAS_PROTOCOL_MAX_PAYLOAD_SIZE"

lemma frame_ok_encode:
  assumes "frame_ok f" and "length packet = HERMAS_PROTOCOL_MAX_PACKET_SIZE"
  shows "fst (hermas_protocol_encode (Some f) (Some packet) (Some size0)) = HERMAS_PROTOCOL_OK"
  using assms by (simp add: frame_ok_def hermas_protocol_encode_def known_kind_def valid_outcome_def Let_def)

lemma prepared_frame_ok:
  assumes "image_check img n = Inr (h, nt, rt, et)" and "n \<le> length img" and "xid \<noteq> 0"
    and "run_inv img n xid ps nodes frames e" and "value_ok buffer capacity e"
    and "ex_state e = HERMAS_EXECUTION_READY"
  shows "frame_ok (invocation_frame e (node_offset e (ex_current_node e)))"
proof -
  let ?q = "last ps"
  have img: "ex_image e = img" "h = read_header img"
    using assms(4) accepted_header(1) [OF assms(1)] by (simp_all add: run_inv_def)
  have q: "?q \<in> set (image_edges img h)" "ie_target_kind ?q = 1"
    using assms(4,6) img(2) by (auto simp: run_inv_def graph_path_def)
  have "valid_target img h nt rt ?q"
    by (rule check_edges_edge(2) [OF image_check_stages(9) [OF assms(1)] q(1)])
  then have "nt_action nt (unat (ex_current_node e))"
    using q(2) assms(4,6) by (simp add: valid_target_def run_inv_def Let_def)
  note node = accepted_action_node [OF assms(1) this]
  have len: "unat (of_nat (ex_value_length e) :: u32) = ex_value_length e"
    using assms(5) unfolding unat_of_nat value_ok_def by simp
  show ?thesis
    using node accepted_action_edge [OF assms(1,2) q] assms(3-6) len img(1)
    by (auto simp: frame_ok_def invocation_frame_def node_offset_def validate_semantics_def run_inv_def value_ok_def Let_def)
qed

lemma run_frames_ok:
  assumes "image_check img n = Inr (h, nt, rt, et)" and "n \<le> length img" and "xid \<noteq> 0"
    and "capacity \<le> length buffer"
  shows "run_inv img n xid ps nodes frames e \<Longrightarrow> value_ok buffer capacity e \<Longrightarrow>
    execution_run calls e = (rs, fs, e') \<Longrightarrow> list_all frame_ok fs"
proof (induction calls arbitrary: ps nodes frames e rs fs)
  case Nil
  then show ?case by auto
next
  case (Cons c cs)
  obtain r ee gs where call: "execution_call c e = (r, ee, gs)" by (metis prod_cases3)
  obtain ps' e1 where e1: "ee = Some e1" "run_inv img n xid ps' (nodes @ map (\<lambda>f. ex_current_node e) gs) (frames @ gs) e1"
    using run_inv_call [OF assms(1,2) Cons.prems(1) call] .
  obtain rs' fs' where rest: "execution_run cs e1 = (rs', fs', e')" and fs: "fs = gs @ fs'"
    using Cons.prems(3) call e1(1) by (auto split: prod.splits)
  have "list_all frame_ok gs"
    using call prepared_frame_ok [OF assms(1-3) Cons.prems(1,2)]
    by (cases c) (auto simp: execution_call_def hermas_execution_prepare_def Let_def split: if_splits prod.splits)
  then show ?case
    using Cons.IH [OF e1(2) value_ok_call [OF assms(4) Cons.prems(2)] rest] call e1(1) fs by simp
qed

text \<open>C22: The runtime never leaves the value buffer: whatever calls are made on a started execution, the
  length of its value stays within the capacity that the caller gave, the buffer keeps its length
  and no byte behind the capacity is ever written.\<close>

theorem execution_value_bounds:
  assumes "hermas_execution_start (Some old) (Some img) n xid (Some buffer) capacity type_id input len =
      (HERMAS_RUNTIME_OK, Some e)"
    and "capacity \<le> length buffer" and "execution_run calls e = (results, invocations, e')"
  shows "ex_value_length e' \<le> capacity \<and>
    (\<exists>b. ex_value_buffer e' = Some b \<and> length b = length buffer \<and> drop capacity b = drop capacity buffer)"
  using value_ok_run [OF assms(2) value_ok_start(1) [OF assms(1,2)] assms(3)] by (auto simp: value_ok_def)

text \<open>C20: Every invocation of the sequential runtime is a packet: on an accepted image, whatever calls are
  made, the frame that \<open>hermas_execution_prepare\<close> hands out is one that the protocol encoder accepts
  (known kind, identifiers and types nonzero, payload within the frame limit).\<close>

theorem execution_invocations_encode:
  assumes "hermas_execution_start (Some old) (Some img) n xid (Some buffer) capacity type_id input len =
      (HERMAS_RUNTIME_OK, Some e)"
    and "n \<le> length img" and "capacity \<le> length buffer"
    and "execution_run calls e = (results, invocations, e')" and "f \<in> set invocations"
    and "length packet = HERMAS_PROTOCOL_MAX_PACKET_SIZE"
  shows "fst (hermas_protocol_encode (Some f) (Some packet) (Some size0)) = HERMAS_PROTOCOL_OK"
proof -
  obtain h nt rt et ps where "image_check img n = Inr (h, nt, rt, et)" and "run_inv img n xid ps [] [] e"
    using run_inv_start [OF assms(1,2)] .
  then have "list_all frame_ok invocations"
    using run_frames_ok [OF _ assms(2) value_ok_start(2) [OF assms(1,3)] assms(3) _ value_ok_start(1) [OF assms(1,3)] assms(4)]
    by blast
  then show ?thesis using frame_ok_encode assms(5,6) by (simp add: list_all_iff)
qed


section \<open>Accepting a result\<close>

text \<open>
  The way of a value through the dispatch nodes: a dispatch takes the case edge whose tag the first
  four bytes of the value spell, drops these eight bytes, and the rest conforms to the case's type.
  \<open>dispatched img n q v p w\<close>: the value \<open>v\<close> that enters along the edge \<open>q\<close> ends on the edge \<open>p\<close> as \<open>w\<close>.
\<close>

inductive dispatched :: "bytes \<Rightarrow> nat \<Rightarrow> image_edge \<Rightarrow> bytes \<Rightarrow> image_edge \<Rightarrow> bytes \<Rightarrow> bool" for img n where
  arrived: "ie_target_kind q \<noteq> 3 \<Longrightarrow> dispatched img n q v q v"
| case_of: "ie_target_kind q = 3 \<Longrightarrow> 8 \<le> length v \<Longrightarrow>
    p \<in> set (image_edges img (read_header img)) \<Longrightarrow> ie_source_kind p = 5 \<Longrightarrow>
    ie_source_node p = ie_target_node q \<Longrightarrow> read_u32 v 0 = ucast (ie_case_tag p) \<Longrightarrow> read_u32 v 4 = 0 \<Longrightarrow>
    take (length v - 8) b = drop 8 v \<Longrightarrow>
    hermas_image_validate_value (Some img) n (ie_source_type p) (Some b) (length v - 8) = HERMAS_IMAGE_OK \<Longrightarrow>
    dispatched img n p (drop 8 v) p' w \<Longrightarrow> dispatched img n q v p' w"

definition value_of :: "hermas_execution \<Rightarrow> bytes" where
  "value_of e = chunk (payload_bytes (ex_value_buffer e)) 0 (ex_value_length e)"

definition value_held :: "hermas_execution \<Rightarrow> bool" where
  "value_held e \<longleftrightarrow> (\<exists>b. ex_value_buffer e = Some b \<and> ex_value_length e \<le> length b)"

text \<open>Where an execution that entered the edge \<open>p\<close> at last stands.\<close>

definition arrived_at :: "u16 \<Rightarrow> image_edge \<Rightarrow> bytes \<Rightarrow> hermas_execution \<Rightarrow> bool" where
  "arrived_at out p w e' \<longleftrightarrow>
     value_of e' = w \<and> ex_current_node e' = ie_target_node p \<and>
     ex_value_source_type e' = ie_source_type p \<and> ex_value_destination_type e' = ie_target_type p \<and>
     (if ie_target_kind p = 1 then ex_state e' = HERMAS_EXECUTION_READY
      else ex_state e' = HERMAS_EXECUTION_COMPLETE \<and> ex_terminal_outcome e' = out)"

lemma value_shift:
  assumes "value_held e" and "8 \<le> ex_value_length e"
  defines "e1 \<equiv> e\<lparr>ex_value_buffer := shift_value 8 (ex_value_length e) (ex_value_buffer e),
      ex_value_length := ex_value_length e - 8\<rparr>"
  shows "value_held e1" and "value_of e1 = drop 8 (value_of e)"
    and "take (ex_value_length e - 8) (payload_bytes (ex_value_buffer e1)) = drop 8 (value_of e)"
  using assms
  by (auto simp: value_held_def value_of_def shift_value_def payload_bytes_def chunk_def write_bytes_def drop_take min_absorb1 min_absorb2)

lemma small_tag: "(tag :: u32) \<le> 255 \<Longrightarrow> ucast (ucast tag :: u8) = tag"
proof (rule word_unat_eq_iff [THEN iffD2])
  assume "tag \<le> 255"
  then have "unat tag \<le> 255" by (simp add: word_le_nat_alt)
  then show "unat (ucast (ucast tag :: u8) :: u32) = unat tag" by (simp add: unsigned_ucast_eq unsigned_take_bit_eq take_bit_nat_eq_self)
qed

lemma enter_edge_dispatched:
  assumes "h = read_header img"
  shows "ex_image e = img \<Longrightarrow> ex_image_size e = n \<Longrightarrow> value_held e \<Longrightarrow>
      edge_offset = ih_edges h + i * 16 \<Longrightarrow> i < ih_edge_count h \<Longrightarrow>
      enter_edge e edge_offset out = (HERMAS_RUNTIME_OK, e') \<Longrightarrow>
      \<exists>p w. dispatched img n (read_edge img h i) (value_of e) p w \<and> arrived_at out p w e' \<and>
        ex_request_id e' = ex_request_id e"
    and "ex_image d = img \<Longrightarrow> ex_image_size d = n \<Longrightarrow> value_held d \<Longrightarrow>
      ie_target_kind q = 3 \<Longrightarrow> ex_current_node d = ie_target_node q \<Longrightarrow>
      route_dispatch d out = (HERMAS_RUNTIME_OK, e') \<Longrightarrow>
      \<exists>p w. dispatched img n q (value_of d) p w \<and> arrived_at out p w e' \<and>
        ex_request_id e' = ex_request_id d"
proof (induction e edge_offset out and d out arbitrary: i e' and q e' rule: enter_edge_route_dispatch.induct)
  case (1 e edge_offset out)
  let ?q = "read_edge img h i"
  let ?e = "e\<lparr>ex_value_source_type := read_u16 img (edge_offset + 8),
      ex_value_destination_type := read_u16 img (edge_offset + 10),
      ex_current_node := read_u16 img (edge_offset + 6)\<rparr>"
  have kind: "img ! (edge_offset + 1) = ie_target_kind ?q"
    and node: "ex_current_node ?e = ie_target_node ?q" "ex_value_source_type ?e = ie_source_type ?q"
      "ex_value_destination_type ?e = ie_target_type ?q"
    using "1.prems"(4) by (simp_all add: read_edge_fields)
  note step = "1.prems"(6) [unfolded enter_edge.simps [of e] Let_def "1.prems"(1) kind]
  show ?case
  proof (cases "ie_target_kind ?q = 3")
    case True
    have "value_held ?e" "value_of ?e = value_of e" using "1.prems"(3) by (simp_all add: value_held_def value_of_def)
    moreover have "route_dispatch ?e out = (HERMAS_RUNTIME_OK, e')" using step True by simp
    ultimately show ?thesis
      using "1.IH" [OF refl refl, of ?q e'] True kind node(1) "1.prems"(1,2) by auto
  next
    case False
    then have "arrived_at out ?q (value_of e) e'" "ex_request_id e' = ex_request_id e"
      using step node by (auto simp: arrived_at_def value_of_def split: if_splits)
    then show ?thesis using arrived [OF False] by blast
  qed
next
  case (2 d out)
  let ?tag = "read_u32 (payload_bytes (ex_value_buffer d)) 0"
  let ?d = "d\<lparr>ex_value_buffer := shift_value 8 (ex_value_length d) (ex_value_buffer d),
      ex_value_length := ex_value_length d - 8\<rparr>"
  have long: "8 \<le> ex_value_length d" and tag: "read_u32 (payload_bytes (ex_value_buffer d)) 4 = 0" "?tag \<le> 255"
    using "2.prems"(6) by (auto simp: route_dispatch.simps [of d] Let_def split: if_splits)
  then obtain edge where edge: "find_case_edge d (ex_current_node d) (ucast ?tag) = Some edge"
    using "2.prems"(6) by (auto simp: route_dispatch.simps [of d] Let_def split: option.splits if_splits)
  obtain i where i: "i < ih_edge_count h" "edge = ih_edges h + i * 16"
    and p: "ie_source_kind (read_edge img h i) = 5" "ie_source_node (read_edge img h i) = ex_current_node d"
      "ie_case_tag (read_edge img h i) = ucast ?tag"
    using edge unfolding find_case_edge_def "2.prems"(1)
    by (rule first_edge_Some) (use assms(1) in \<open>auto simp: read_edge_fields\<close>)
  have valid: "hermas_image_validate_value (Some img) n (ie_source_type (read_edge img h i))
      (ex_value_buffer ?d) (ex_value_length d - 8) = HERMAS_IMAGE_OK"
    and enter: "enter_edge ?d edge out = (HERMAS_RUNTIME_OK, e')"
    using "2.prems"(1,2,6) long tag edge i(2)
    by (auto simp: route_dispatch.simps [of d] Let_def read_edge_fields not_less split: if_splits)
  note shift = value_shift [OF "2.prems"(3) long]
  obtain p' w where rest: "dispatched img n (read_edge img h i) (value_of ?d) p' w" "arrived_at out p' w e'"
    "ex_request_id e' = ex_request_id ?d"
    using "2.IH" [OF _ refl refl refl _ edge refl refl _ _ _ shift(1) i(2,1) enter] long tag valid i(2) "2.prems"(1,2)
    by (auto simp: not_less read_edge_fields)
  obtain b where b: "ex_value_buffer d = Some b" "ex_value_length d \<le> length b"
    using "2.prems"(3) by (auto simp: value_held_def)
  have len: "length (value_of d) = ex_value_length d" using b by (simp add: value_of_def payload_bytes_def)
  have reads: "read_u32 (value_of d) 0 = ?tag" "read_u32 (value_of d) 4 = read_u32 (payload_bytes (ex_value_buffer d)) 4"
    using b long by (simp_all add: value_of_def payload_bytes_def chunk_def read_u32_def)
  have "?tag = ucast (ucast ?tag :: u8)"
    using tag(2) by (metis small_tag)
  then have "dispatched img n q (value_of d) p' w"
    using "2.prems"(4,5) long len reads tag(1) p i(1) assms(1) shift valid rest(1) b(1)
    by (intro case_of [of q "value_of d" "read_edge img h i"])
      (auto simp: shift_value_def payload_bytes_def intro: read_edge_in)
  then show ?case using rest(2,3) by auto
qed

text \<open>C21: A result is accepted only if it answers the delivery in progress, and it then follows the node's
  edge for its outcome: the execution was waiting for it; the frame is a \<open>RESULT\<close>, carries the execution
  ID, the request ID of the sent invocation and the app and Action of the current node, names one type
  twice, and its outcome is success or application error. Its payload conforms to the type of
  the node's edge for that outcome; it is routed from there through dispatch nodes by the tags it
  spells, each dropped with its eight bytes, to an edge that enters no dispatch. The execution
  stands at that edge's target with the rest of the payload as its value: ready if it is an Action, else
  complete with the frame's outcome. The request ID goes up by one exactly if the first
  edge enters an Action or a dispatch.\<close>

theorem accept_result_routes:
  assumes "hermas_execution_accept_result (Some e) (Some f) = (HERMAS_RUNTIME_OK, Some e')"
    and "ex_value_buffer e = Some buffer" and "ex_value_capacity e \<le> length buffer"
    and "fr_payload f = Some payload" and "length payload = unat (fr_payload_length f)"
  shows "ex_state e = HERMAS_EXECUTION_SENT \<and> fr_kind f = HERMAS_FRAME_RESULT \<and>
    fr_execution_id f = ex_execution_id e \<and> fr_request_id f = ex_request_id e \<and>
    invokes (ex_image e) f (ex_current_node e) \<and> fr_destination_type f = fr_source_type f \<and>
    (fr_outcome f = HERMAS_OUTCOME_SUCCESS \<or> fr_outcome f = HERMAS_OUTCOME_APP_ERROR) \<and>
    hermas_image_validate_value (Some (ex_image e)) (ex_image_size e) (fr_source_type f)
      (Some payload) (length payload) = HERMAS_IMAGE_OK \<and>
    (\<exists>q \<in> set (image_edges (ex_image e) (read_header (ex_image e))). \<exists>p w.
       ie_source_kind q = (if fr_outcome f = HERMAS_OUTCOME_SUCCESS then 1 else 2) \<and>
       ie_source_node q = ex_current_node e \<and> ie_source_type q = fr_source_type f \<and>
       dispatched (ex_image e) (ex_image_size e) q payload p w \<and> ie_target_kind p \<noteq> 3 \<and>
       value_of e' = w \<and> ex_current_node e' = ie_target_node p \<and>
       ex_value_source_type e' = ie_source_type p \<and> ex_value_destination_type e' = ie_target_type p \<and>
       (ie_target_kind p = 1 \<longrightarrow> ex_state e' = HERMAS_EXECUTION_READY) \<and>
       (ie_target_kind p \<noteq> 1 \<longrightarrow>
          ex_state e' = HERMAS_EXECUTION_COMPLETE \<and> ex_terminal_outcome e' = fr_outcome f) \<and>
       ex_request_id e' = ex_request_id e + (if ie_target_kind q = 1 \<or> ie_target_kind q = 3 then 1 else 0))"
proof -
  let ?h = "read_header (ex_image e)"
  have "execution_accept_result e f = (HERMAS_RUNTIME_OK, e')"
    using assms(1) by (auto simp: hermas_execution_accept_result_def map_prod_def split: prod.splits)
  then show ?thesis
  proof (cases rule: accept_cases)
    case (go edge e1)
    obtain i where i: "i < ih_edge_count ?h" "edge = ih_edges ?h + i * 16"
      and q: "ie_source_kind (read_edge (ex_image e) ?h i) = (if fr_outcome f = HERMAS_OUTCOME_SUCCESS then 1 else 2)"
        "ie_source_node (read_edge (ex_image e) ?h i) = ex_current_node e"
      using find_edge_Some [OF go(3) refl refl] .
    let ?q = "read_edge (ex_image e) ?h i"
    let ?e2 = "if ex_image e ! (edge + 1) = 1 \<or> ex_image e ! (edge + 1) = 3
        then e1\<lparr>ex_request_id := ex_request_id e1 + 1\<rparr> else e1"
    have kind: "ex_image e ! (edge + 1) = ie_target_kind ?q" by (simp add: read_edge_fields i(2))
    have copied: "ex_image e1 = ex_image e" "ex_image_size e1 = ex_image_size e" "ex_request_id e1 = ex_request_id e"
      "value_of e1 = payload" "value_held e1"
      using go(7) assms(2-5) copy_value_same(1) [OF go(7)]
      by (auto simp: copy_value_def same_run_def payload_bytes_def value_of_def value_held_def buffer_simps
          split: if_splits option.splits)
    then have "ex_image ?e2 = ex_image e" "ex_image_size ?e2 = ex_image_size e" "value_of ?e2 = payload" "value_held ?e2"
      by (simp_all add: value_of_def value_held_def)
    then obtain p w where p: "dispatched (ex_image e) (ex_image_size e) ?q payload p w" "arrived_at (fr_outcome f) p w e'"
      "ex_request_id e' = ex_request_id ?e2"
      using enter_edge_dispatched(1) [OF refl _ _ _ i(2,1) go(8)] by metis
    have "ie_target_kind p \<noteq> 3" using p(1) by (induction rule: dispatched.induct) simp_all
    moreover have "invokes (ex_image e) f (ex_current_node e) \<and> fr_kind f = HERMAS_FRAME_RESULT \<and>
        fr_execution_id f = ex_execution_id e \<and> fr_request_id f = ex_request_id e \<and>
        fr_destination_type f = fr_source_type f \<and>
        (fr_outcome f = HERMAS_OUTCOME_SUCCESS \<or> fr_outcome f = HERMAS_OUTCOME_APP_ERROR)"
      using go(2) by (auto simp: result_expected_def invokes_def node_offset_def Let_def)
    moreover have "ie_source_type ?q = fr_source_type f" using go(4) by (simp add: read_edge_fields i(2))
    moreover have "hermas_image_validate_value (Some (ex_image e)) (ex_image_size e) (fr_source_type f)
        (Some payload) (length payload) = HERMAS_IMAGE_OK" using go(6) assms(4,5) by simp
    moreover have "ex_request_id e' = ex_request_id e + (if ie_target_kind ?q = 1 \<or> ie_target_kind ?q = 3 then 1 else 0)"
      using p(3) copied(3) by (simp add: kind [simplified])
    ultimately show ?thesis
      using go(1) q p(1,2) read_edge_in [OF i(1), of "ex_image e"] unfolding arrived_at_def
      by (intro conjI bexI [of _ ?q] exI [of _ p] exI [of _ w]) (simp_all split: if_splits)
  qed simp
qed

end
