(* ===== verification/Hermas_Group_Run.thy ===== *)
theory Hermas_Group_Run
  imports Hermas_Group_Progress Hermas_Runtime_Run
begin

text \<open>
  Runs of a group execution: any sequence of calls, with any arguments, from a started execution. The
  relation collects the invocations that \<open>hermas_group_prepare\<close> handed out on the way, and is restricted
  by a condition on the results of the calls, so that the runs without a failed call are a case of it.
\<close>

inductive group_reach ::
  "(hermas_runtime_result \<Rightarrow> bool) \<Rightarrow> nat \<Rightarrow> hermas_group_execution \<Rightarrow> hermas_frame list \<Rightarrow>
   hermas_group_execution \<Rightarrow> bool"
  for admitted n g0 where
  reach_start: "group_reach admitted n g0 [] g0"
| reach_prepare: "group_reach admitted n g0 fs g \<Longrightarrow>
    hermas_group_prepare (Some g) i (Some no_frame) = (r, Some g', Some f) \<Longrightarrow> admitted r \<Longrightarrow>
    group_reach admitted n g0 (if r = HERMAS_RUNTIME_OK then fs @ [f] else fs) g'"
| reach_sent: "group_reach admitted n g0 fs g \<Longrightarrow>
    hermas_group_mark_sent (Some g) i = (r, Some g') \<Longrightarrow> admitted r \<Longrightarrow> group_reach admitted n g0 fs g'"
| reach_not_sent: "group_reach admitted n g0 fs g \<Longrightarrow>
    hermas_group_mark_not_sent n (Some g) i = Some (r, Some g') \<Longrightarrow> admitted r \<Longrightarrow>
    group_reach admitted n g0 fs g'"
| reach_unknown: "group_reach admitted n g0 fs g \<Longrightarrow>
    hermas_group_mark_unknown n (Some g) i = Some (r, Some g') \<Longrightarrow> admitted r \<Longrightarrow>
    group_reach admitted n g0 fs g'"
| reach_result: "group_reach admitted n g0 fs g \<Longrightarrow>
    hermas_group_accept_result n (Some g) i (Some result) = Some (r, Some g') \<Longrightarrow> admitted r \<Longrightarrow>
    group_reach admitted n g0 fs g'"
| reach_expire: "group_reach admitted n g0 fs g \<Longrightarrow>
    hermas_group_expire_region n (Some g) region = Some (r, Some g') \<Longrightarrow> admitted r \<Longrightarrow>
    group_reach admitted n g0 fs g'"

section \<open>Every call but prepare stays in the progress relation\<close>

lemma on_group_Some [simp]:
  "on_group operation (Some g) = Some (r, Some g') \<longleftrightarrow> operation g = Some (r, g')"
  by (auto simp: on_group_def)

lemma progress_mark_sent:
  "hermas_group_mark_sent (Some g) i = (r, Some g') \<Longrightarrow> group_progress g g'"
  by (auto simp: hermas_group_mark_sent_def split: if_splits intro!: progress_set_flow)

lemma progress_delivery_outcome:
  assumes "group_delivery_outcome n g i required kind outcome = Some (r, g')"
  shows "group_progress g g'"
proof -
  have "group_progress g (set_flow i ((flow_at g i)\<lparr>fl_value_length := 0\<rparr>) g)" by (rule progress_set_flow) simp
  then show ?thesis
    using assms progress_enter_later [OF progress_group_enter_edge]
    by (auto simp: group_delivery_outcome_def Let_def split: if_splits option.splits)
qed

lemma progress_accept_result:
  assumes "group_accept_result n g i f = Some (r, g')"
  shows "group_progress g g'"
proof -
  have "group_progress g (set_flow i flow g)"
    if "group_copy_value (flow_at g i) v len = (copied, flow)" for v len copied flow
    by (rule progress_copy [OF that]) simp
  then show ?thesis
    using assms progress_enter_later [OF progress_group_enter_edge]
    by (auto simp: group_accept_result_def Let_def split: if_splits option.splits prod.splits)
qed

lemma progress_expire_sent: "expire_sent n region is g = Some (r, g') \<Longrightarrow> group_progress g g'"
proof (induction "is" arbitrary: g)
  case (Cons i "is")
  have "group_progress g g'"
    if "and_then (group_mark_unknown n g i) (expire_sent n region is) = Some (r, g')"
    using that by (rule progress_and_then)
      (use progress_delivery_outcome Cons.IH in \<open>auto simp: group_mark_unknown_def\<close>)
  then show ?case using Cons.prems Cons.IH by (auto split: if_splits)
qed simp

lemma progress_expire_unsent:
  assumes "expire_unsent n g i = Some (r, g')"
  shows "group_progress g g'"
proof -
  have "group_progress g (set_flow i ((flow_at g i)\<lparr>fl_value_length := 0\<rparr>) g)" by (rule progress_set_flow) simp
  then show ?thesis
    using assms progress_enter_later [OF progress_group_enter_edge]
      progress_record_terminal [OF group_progress_refl] progress_delivery_outcome
    by (auto simp: expire_unsent_def group_mark_not_sent_def Let_def
        split: if_splits option.splits hermas_execution_state.splits)
qed

lemma progress_expire_region:
  "group_expire_region n g region = Some (r, g') \<Longrightarrow> group_progress g g'"
  using progress_expire_sent progress_expire_unsent
  by (auto simp: group_expire_region_def split: if_splits option.splits)

section \<open>The invariant of runs\<close>

definition group_inv :: "u64 \<Rightarrow> nat \<Rightarrow> hermas_frame list \<Rightarrow> hermas_group_execution \<Rightarrow> bool" where
  "group_inv xid stride fs g \<longleftrightarrow>
     length (ge_flows g) = HERMAS_RUNTIME_MAX_FLOWS \<and> ge_execution_id g = xid \<and>
     length fs < 2 ^ 64 \<and> ge_next_request_id g = of_nat (Suc (length fs)) \<and>
     map fr_request_id fs = map of_nat [1..<Suc (length fs)] \<and>
     list_all (\<lambda>f. fr_execution_id f = xid) fs \<and>
     list_all (\<lambda>f. flow_bounded f \<and> fl_value_capacity f = stride) (ge_flows g) \<and>
     list_all (\<lambda>k. unat k \<le> length fs) (map fl_request_id (ge_flows g)) \<and>
     distinct (filter (\<lambda>k. k \<noteq> 0) (map fl_request_id (ge_flows g))) \<and>
     each_bounded g"

lemma progress_flow_fields:
  assumes "list_all2 flow_progress xs ys"
  shows "map fl_request_id ys = map fl_request_id xs" and "length ys = length xs"
    and "list_all (\<lambda>f. flow_bounded f \<and> fl_value_capacity f = stride) xs \<Longrightarrow>
         list_all (\<lambda>f. flow_bounded f \<and> fl_value_capacity f = stride) ys"
  using assms by (induction rule: list_all2_induct) (auto simp: flow_progress_def)

lemma group_inv_progress:
  assumes "group_inv xid stride fs g" and "group_progress g g'"
  shows "group_inv xid stride fs g'"
proof -
  have flows: "list_all2 flow_progress (ge_flows g) (ge_flows g')" and "each_bounded g'"
    using assms by (auto simp: group_progress_def group_inv_def)
  then show ?thesis
    using assms(1) progress_flow_fields [OF flows] group_progress_static [OF assms(2)]
    by (simp add: group_inv_def del: upt_Suc list.set_map)
qed

text \<open>\<open>hermas_group_prepare\<close> gives the next request ID to one flow.\<close>

lemma unat_of_nat_u64: "k < 2 ^ 64 \<Longrightarrow> unat (of_nat k :: u64) = k"
  by (simp add: unat_of_nat take_bit_nat_eq_self)

lemma distinct_nonzero_update:
  assumes "distinct (filter (\<lambda>k. k \<noteq> 0) xs)" and "v \<notin> set xs"
  shows "distinct (filter (\<lambda>k. k \<noteq> 0) (xs[i := v]))"
proof (cases "i < length xs")
  case True
  have "distinct (filter (\<lambda>k. k \<noteq> 0) (take i xs @ xs ! i # drop (Suc i) xs))"
    using True assms(1) by (simp add: id_take_nth_drop [symmetric])
  moreover have "v \<notin> set (take i xs)" "v \<notin> set (drop (Suc i) xs)"
    using assms(2) by (auto dest: in_set_takeD in_set_dropD)
  ultimately show ?thesis using True by (auto simp: upd_conv_take_nth_drop split: if_splits)
qed (use assms in \<open>simp add: list_update_beyond\<close>)

lemma group_inv_prepare:
  assumes inv: "group_inv xid stride fs g" and prepare: "group_prepare g i = (r, g', Some f)"
    and i: "i < HERMAS_RUNTIME_MAX_FLOWS"
  shows "r = HERMAS_RUNTIME_OK \<and> group_inv xid stride (fs @ [f]) g'"
proof -
  let ?k = "ge_next_request_id g"
  let ?flow = "(flow_at g i)\<lparr>fl_request_id := ?k, fl_state := HERMAS_EXECUTION_PREPARED\<rparr>"
  have r: "r = HERMAS_RUNTIME_OK" and k: "?k \<noteq> 0"
    and g': "g' = set_flow i ?flow (g\<lparr>ge_next_request_id := ?k + 1\<rparr>)"
    and f: "fr_request_id f = ?k" "fr_execution_id f = ge_execution_id g"
    using prepare by (auto simp: group_prepare_def Let_def group_invocation_def split: if_splits option.splits)
  have ids: "map fr_request_id fs = map of_nat [1..<Suc (length fs)]"
    and count: "?k = of_nat (Suc (length fs))" and len: "length fs < 2 ^ 64"
    and given: "list_all (\<lambda>k. unat k \<le> length fs) (map fl_request_id (ge_flows g))"
    and dist: "distinct (filter (\<lambda>k. k \<noteq> 0) (map fl_request_id (ge_flows g)))"
    and rest: "list_all (\<lambda>f. flow_bounded f \<and> fl_value_capacity f = stride) (ge_flows g)"
      "length (ge_flows g) = HERMAS_RUNTIME_MAX_FLOWS"
    using inv by (simp_all only: group_inv_def)
  have short: "Suc (length fs) < 2 ^ 64"
  proof (rule ccontr)
    assume "\<not> Suc (length fs) < 2 ^ 64"
    then have "Suc (length fs) = 2 ^ 64" using len by simp
    then have "?k = of_nat (2 ^ 64)" using count by simp
    then show False using k by simp
  qed
  have fresh: "unat ?k = Suc (length fs)" unfolding count by (rule unat_of_nat_u64) (use short in simp)
  have flow_ids: "map fl_request_id (ge_flows g') = (map fl_request_id (ge_flows g)) [i := ?k]"
    by (simp add: g' set_flow_def map_update)
  have "?k \<notin> set (map fl_request_id (ge_flows g))"
    using given fresh by (fastforce simp: list_all_iff)
  then have "distinct (filter (\<lambda>k. k \<noteq> 0) (map fl_request_id (ge_flows g')))"
    unfolding flow_ids by (rule distinct_nonzero_update [OF dist])
  moreover have "list_all (\<lambda>k. unat k \<le> length (fs @ [f])) (map fl_request_id (ge_flows g'))"
    unfolding flow_ids using given fresh set_update_subset_insert [of "map fl_request_id (ge_flows g)" i ?k]
    by (fastforce simp: list_all_iff)
  moreover have "list_all (\<lambda>f. flow_bounded f \<and> fl_value_capacity f = stride) (ge_flows g')"
  proof -
    have "flow_bounded (flow_at g i) \<and> fl_value_capacity (flow_at g i) = stride"
      using rest i by (simp add: list_all_length flow_at_def)
    then have "flow_bounded ?flow \<and> fl_value_capacity ?flow = stride" by (auto simp: flow_bounded_def)
    then show ?thesis
      using rest(1) set_update_subset_insert [of "ge_flows g" i ?flow]
      by (auto simp: g' set_flow_def list_all_iff)
  qed
  moreover have "map fr_request_id (fs @ [f]) = map of_nat [1..<Suc (length (fs @ [f]))]"
    using ids f(1) count by simp
  ultimately have "group_inv xid stride (fs @ [f]) g'"
    using inv f short count
    by (simp add: group_inv_def g' set_flow_def each_bounded_def del: upt_Suc list.set_map)
  then show ?thesis using r by simp
qed

section \<open>Start\<close>

lemma load_region_keeps:
  "ge_flows (load_region img b i g) = ge_flows g" "ge_execution_id (load_region img b i g) = ge_execution_id g"
  "ge_next_request_id (load_region img b i g) = ge_next_request_id g"
  "ge_pending_outcome (load_region img b i g) = ge_pending_outcome g"
  "ge_complete (load_region img b i g) = ge_complete g"
  "each_bounded (load_region img b i g) = each_bounded g"
  "ge_image (load_region img b i g) = ge_image g" "ge_image_size (load_region img b i g) = ge_image_size g"
  by (simp_all add: load_region_def Let_def each_bounded_def)

lemma load_regions_keeps:
  "ge_execution_id (load_regions img g) = ge_execution_id g"
  "ge_next_request_id (load_regions img g) = ge_next_request_id g"
  "ge_pending_outcome (load_regions img g) = ge_pending_outcome g"
  "ge_complete (load_regions img g) = ge_complete g"
  "each_bounded (load_regions img g) = each_bounded g"
  "ge_image (load_regions img g) = ge_image g" "ge_image_size (load_regions img g) = ge_image_size g"
proof -
  have "ge_execution_id (fold (load_region img b) js g) = ge_execution_id g \<and>
    ge_next_request_id (fold (load_region img b) js g) = ge_next_request_id g \<and>
    ge_pending_outcome (fold (load_region img b) js g) = ge_pending_outcome g \<and>
    ge_complete (fold (load_region img b) js g) = ge_complete g \<and>
    each_bounded (fold (load_region img b) js g) = each_bounded g \<and>
    ge_image (fold (load_region img b) js g) = ge_image g \<and>
    ge_image_size (fold (load_region img b) js g) = ge_image_size g" for b js
    by (induction js arbitrary: g) (simp_all add: load_region_keeps)
  then show "ge_execution_id (load_regions img g) = ge_execution_id g"
    "ge_next_request_id (load_regions img g) = ge_next_request_id g"
    "ge_pending_outcome (load_regions img g) = ge_pending_outcome g"
    "ge_complete (load_regions img g) = ge_complete g"
    "each_bounded (load_regions img g) = each_bounded g"
    "ge_image (load_regions img g) = ge_image g" "ge_image_size (load_regions img g) = ge_image_size g"
    by (simp_all add: load_regions_def)
qed

lemma loaded_group_fields:
  "ge_execution_id (loaded_group img n xid storage stride) = xid"
  "ge_next_request_id (loaded_group img n xid storage stride) = 1"
  "ge_pending_outcome (loaded_group img n xid storage stride) = 0"
  "ge_complete (loaded_group img n xid storage stride) = 0"
  "each_bounded (loaded_group img n xid storage stride)"
  "ge_image (loaded_group img n xid storage stride) = img"
  "ge_image_size (loaded_group img n xid storage stride) = n"
proof -
  have "each_bounded (load_flows storage stride (set_deadline g)) = each_bounded g" for g
    by (simp add: load_flows_def set_deadline_def each_bounded_def Let_def)
  then show "each_bounded (loaded_group img n xid storage stride)"
    by (simp add: loaded_group_def load_regions_keeps) (simp add: each_bounded_def no_group_def)
qed (simp_all add: loaded_group_def load_flows_def set_deadline_def load_regions_keeps no_group_def Let_def)

text \<open>The slices of the storage are the buffers of the flows, all of the same size.\<close>

lemma loaded_flow:
  assumes "8 * stride \<le> length storage" and "f \<in> set (ge_flows (loaded_group img n xid storage stride))"
  shows "flow_bounded f \<and> fl_value_capacity f = stride \<and> fl_request_id f = 0"
proof -
  have slice: "length (chunk storage (i * stride) stride) = stride" if "i < 8" for i
  proof -
    have "Suc i * stride \<le> 8 * stride" using that by (intro mult_le_mono1) linarith
    then have "stride + i * stride \<le> length storage" using assms(1) unfolding mult_Suc by linarith
    then show ?thesis by simp
  qed
  have "f \<in> (\<lambda>i. no_flow\<lparr>fl_value_buffer := Some (chunk storage (i * stride) stride), fl_value_capacity := stride\<rparr>) ` {0..<8} \<or>
      f = no_flow\<lparr>fl_value_buffer := Some (chunk storage 0 stride), fl_value_capacity := stride, fl_active := 1\<rparr>"
    using assms(2) set_update_subset_insert by (fastforce simp: loaded_group_def load_flows_def Let_def)
  then show ?thesis using slice slice [of 0] by (auto simp: no_flow_def flow_bounded_def)
qed

lemma loaded_inv:
  assumes "8 * stride \<le> length storage"
  shows "group_inv xid stride [] (loaded_group img n xid storage stride)"
proof -
  have "length (ge_flows (loaded_group img n xid storage stride)) = 8"
    by (simp add: loaded_group_def load_flows_def Let_def)
  moreover have "filter (\<lambda>k. k \<noteq> 0) (map fl_request_id (ge_flows (loaded_group img n xid storage stride))) = []"
    using loaded_flow [OF assms] by (simp add: filter_empty_conv)
  ultimately show ?thesis
    using loaded_flow [OF assms] by (simp add: group_inv_def loaded_group_fields list_all_iff)
qed

lemma start_loaded:
  assumes "hermas_group_start n (Some old) (Some img) size0 xid (Some storage) cap stride type_id input len =
      Some (HERMAS_RUNTIME_OK, Some g)"
  shows "group_progress (loaded_group img size0 xid storage stride) g"
    and "stride \<le> HERMAS_PROTOCOL_MAX_PAYLOAD_SIZE" and "8 * stride \<le> cap" and "xid \<noteq> 0"
proof -
  let ?g0 = "loaded_group img size0 xid storage stride"
  have start: "group_start_flow n ?g0 input len = Some (HERMAS_RUNTIME_OK, g)"
    and stride: "stride \<le> HERMAS_PROTOCOL_MAX_PAYLOAD_SIZE" and div: "stride \<le> cap div 8" and "xid \<noteq> 0"
    using assms by (auto simp: hermas_group_start_def split: if_splits prod.splits option.splits hermas_image_result.splits)
  show "xid \<noteq> 0" "stride \<le> HERMAS_PROTOCOL_MAX_PAYLOAD_SIZE" by fact+
  show "8 * stride \<le> cap" using div by linarith
  obtain copied flow where copy: "group_copy_value (flow_at ?g0 0) input len = (copied, flow)" by fastforce
  then have "group_progress ?g0 (set_flow 0 flow ?g0)" by (rule progress_copy) simp
  then show "group_progress ?g0 g"
    using start copy progress_enter_later [OF progress_group_enter_edge]
    by (auto simp: group_start_flow_def Let_def split: if_splits option.splits)
qed

lemma start_inv:
  assumes "hermas_group_start n (Some old) (Some img) size0 xid (Some storage) cap stride type_id input len =
      Some (HERMAS_RUNTIME_OK, Some g)" and "cap \<le> length storage"
  shows "group_inv xid stride [] g"
  using start_loaded [OF assms(1)] assms(2) by (intro group_inv_progress [OF loaded_inv]) simp_all

section \<open>Properties of runs\<close>

lemma reach_progress:
  assumes "hermas_group_accept_result n (Some g) i (Some f) = Some (r, Some g')"
  shows "group_progress g g'"
  using assms progress_accept_result by (auto simp: hermas_group_accept_result_def split: if_splits)

lemmas call_progress = progress_mark_sent progress_delivery_outcome reach_progress progress_expire_region

lemma prepare_cases:
  assumes "hermas_group_prepare (Some g) i (Some no_frame) = (r, Some g', Some f)"
  obtains (refused) "g' = g" and "r \<noteq> HERMAS_RUNTIME_OK"
    | (prepared) "r = HERMAS_RUNTIME_OK" and "i < HERMAS_RUNTIME_MAX_FLOWS" and "group_prepare g i = (HERMAS_RUNTIME_OK, g', Some f)"
proof (cases "i < HERMAS_RUNTIME_MAX_FLOWS")
  case True
  have "fst (group_prepare g i) = HERMAS_RUNTIME_OK \<and> snd (snd (group_prepare g i)) \<noteq> None \<or>
        fst (group_prepare g i) \<noteq> HERMAS_RUNTIME_OK \<and> snd (group_prepare g i) = (g, None)"
    by (auto simp: group_prepare_def Let_def first_conflict_def delivery_conflict_def split: option.splits)
  then show thesis
    using assms True that by (auto simp: hermas_group_prepare_def split: prod.splits option.splits)
qed (use assms that in \<open>auto simp: hermas_group_prepare_def\<close>)

lemma group_reach_inv:
  assumes "group_reach admitted n g0 fs g" and "group_inv xid stride [] g0"
  shows "group_inv xid stride fs g"
  using assms
proof (induction rule: group_reach.induct)
  case (reach_prepare fs g i r g' f)
  from reach_prepare.hyps(2) show ?case
    using reach_prepare.IH [OF reach_prepare.prems] group_inv_prepare by (cases rule: prepare_cases) auto
qed (use group_inv_progress call_progress in
      \<open>auto simp: hermas_group_mark_not_sent_def hermas_group_mark_unknown_def hermas_group_expire_region_def
        group_mark_not_sent_def group_mark_unknown_def\<close>)

lemma distinct_ids:
  assumes "map fr_request_id fs = map of_nat [1..<Suc (length fs)]" and "length fs < 2 ^ 64"
  shows "distinct (map fr_request_id fs)" and "0 \<notin> set (map fr_request_id fs)"
proof -
  have "inj_on (of_nat :: nat \<Rightarrow> u64) {1..<Suc (length fs)}"
    using assms(2) unat_of_nat_u64 by (intro inj_on_inverseI [of _ unat]) simp
  then show "distinct (map fr_request_id fs)"
    unfolding assms(1) by (simp add: distinct_map del: upt_Suc)
  have "(0 :: u64) \<noteq> of_nat k" if "k \<in> {1..<Suc (length fs)}" for k
  proof
    assume "(0 :: u64) = of_nat k"
    then have "unat (of_nat k :: u64) = 0" by (metis unat_0)
    then show False using unat_of_nat_u64 [of k] that assms(2) by simp
  qed
  then have "(0 :: u64) \<notin> of_nat ` {1..<Suc (length fs)}" by blast
  then show "0 \<notin> set (map fr_request_id fs)"
    unfolding assms(1) set_map set_upt .
qed

lemma complete_prepares_nothing:
  assumes "hermas_group_prepare (Some g) i (Some no_frame) = (r, Some g', Some f)"
  shows "group_outcome_precedence (ge_pending_outcome g') = group_outcome_precedence (ge_pending_outcome g)"
    and "ge_complete g' = ge_complete g" and "ge_complete g \<noteq> 0 \<Longrightarrow> r \<noteq> HERMAS_RUNTIME_OK"
  using assms
  by (auto elim!: prepare_cases simp: group_prepare_def Let_def set_flow_def split: if_splits option.splits)

end
