(* ===== verification/Hermas_Group_Flight.thy ===== *)
theory Hermas_Group_Flight
  imports Hermas_Group_Run
begin

text \<open>
  The deliveries in flight. A flow has a delivery in flight when it is active and its request is
  prepared or sent. Entering an edge never puts a delivery in flight and leaves those of the other
  flows as they are: \<open>quiet X g g'\<close> says so of two states and a set of flows that have none at the end.
  With the check that \<open>hermas_group_prepare\<close> makes, an Action has one delivery in flight at a time,
  items of one each region apart.
\<close>

definition in_flight :: "hermas_flow \<Rightarrow> bool" where
  "in_flight f \<longleftrightarrow>
     is_active f \<and> (fl_state f = HERMAS_EXECUTION_PREPARED \<or> fl_state f = HERMAS_EXECUTION_SENT)"

definition same_delivery :: "hermas_flow \<Rightarrow> hermas_flow \<Rightarrow> bool" where
  "same_delivery f f' \<longleftrightarrow>
     fl_current_node f' = fl_current_node f \<and> fl_each_region f' = fl_each_region f \<and>
     fl_request_id f' = fl_request_id f \<and> fl_state f' = fl_state f"

definition quiet :: "nat set \<Rightarrow> hermas_group_execution \<Rightarrow> hermas_group_execution \<Rightarrow> bool" where
  "quiet X g g' \<longleftrightarrow>
     length (ge_flows g') = length (ge_flows g) \<and>
     (\<forall>j < length (ge_flows g). in_flight (flow_at g' j) \<longrightarrow>
        j \<notin> X \<and> in_flight (flow_at g j) \<and> same_delivery (flow_at g j) (flow_at g' j))"

lemma quiet_refl [simp]: "quiet {} g g"
  by (simp add: quiet_def same_delivery_def)

lemma quiet_trans: "quiet X g g1 \<Longrightarrow> quiet Y g1 g2 \<Longrightarrow> quiet (X \<union> Y) g g2"
  by (auto simp: quiet_def same_delivery_def)

lemma quiet_mono: "quiet X g g' \<Longrightarrow> Y \<subseteq> X \<Longrightarrow> quiet Y g g'"
  by (auto simp: quiet_def)

lemma quiet_after: "quiet X g g1 \<Longrightarrow> quiet Y g1 g2 \<Longrightarrow> quiet X g g2"
  by (rule quiet_mono [OF quiet_trans]) auto

text \<open>What happens to the flows of \<open>X\<close> before they are made quiet does not matter.\<close>

lemma quiet_before:
  "quiet X g1 g2 \<Longrightarrow> length (ge_flows g1) = length (ge_flows g) \<Longrightarrow>
   (\<And>j. j \<notin> X \<Longrightarrow> flow_at g1 j = flow_at g j) \<Longrightarrow> quiet X g g2"
  by (simp add: quiet_def) metis

lemma flow_at_set [simp]:
  "flow_at (set_flow i f g) j = (if i = j \<and> j < length (ge_flows g) then f else flow_at g j)"
  by (cases "i < length (ge_flows g)") (auto simp: flow_at_def set_flow_def nth_list_update list_update_beyond)

lemma flows_set [simp]: "length (ge_flows (set_flow i f g)) = length (ge_flows g)"
  by (simp add: set_flow_def)

lemma quiet_before_set: "quiet {i} (set_flow i f g) g' \<Longrightarrow> quiet {i} g g'"
  by (erule quiet_before) auto

lemma quiet_set: "\<not> in_flight f \<Longrightarrow> quiet {i} g (set_flow i f g)"
  by (simp add: quiet_def same_delivery_def)

text \<open>The other fields do not matter.\<close>

lemma quiet_same_flows:
  "ge_flows g1 = ge_flows g \<Longrightarrow> quiet X g1 g2 = quiet X g g2"
  "ge_flows g2 = ge_flows g \<Longrightarrow> quiet X g1 g2 = quiet X g1 g"
  by (simp_all add: quiet_def flow_at_def)

lemma quiet_maybe_complete [simp]: "quiet X g (group_maybe_complete g') = quiet X g g'"
  by (rule quiet_same_flows(2)) (simp add: group_maybe_complete_def)

lemma quiet_record_terminal: "quiet {i} g (group_record_terminal g i outcome)"
proof -
  let ?f = "(flow_at g i)\<lparr>fl_active := 0\<rparr>"
  have "quiet {i} g (g\<lparr>ge_flows := (ge_flows g)[i := ?f]\<rparr>)"
    using quiet_set [of ?f i g] by (simp add: set_flow_def in_flight_def is_active_def)
  moreover have "quiet {} (g\<lparr>ge_flows := (ge_flows g)[i := ?f]\<rparr>)
      (g\<lparr>ge_flows := map cut_off ((ge_flows g)[i := ?f])\<rparr>)"
    by (auto simp: quiet_def flow_at_def cut_off_def in_flight_def is_active_def same_delivery_def)
  ultimately have cut: "quiet {i} g (g\<lparr>ge_flows := map cut_off ((ge_flows g)[i := ?f])\<rparr>)"
    and plain: "quiet {i} g (g\<lparr>ge_flows := (ge_flows g)[i := ?f]\<rparr>)"
    using quiet_after by blast+
  show ?thesis
    unfolding group_record_terminal_def Let_def quiet_maybe_complete
    using cut plain by (auto simp: quiet_def set_flow_def flow_at_def)
qed

section \<open>Entering an edge\<close>

lemma quiet_flush: "group_flush region_id g = (r, g') \<Longrightarrow> quiet {} g g'"
proof (induction region_id g rule: group_flush.induct)
  case (1 region_id g)
  have "quiet {} g (flush_item ready g)" for ready
  proof -
    let ?f = "(flow_at g ready)\<lparr>fl_active := 0, fl_each_region := 0\<rparr>"
    have "quiet {ready} g (set_flow ready ?f g)" by (rule quiet_set) (simp add: in_flight_def is_active_def)
    then have "quiet {} g (set_flow ready ?f g)" by (rule quiet_mono) simp
    then show ?thesis
      by (rule quiet_same_flows(2) [THEN iffD1, rotated]) (simp add: flush_item_def Let_def set_flow_def)
  qed
  then show ?case
    using 1 quiet_after [of "{}" g _ "{}" g']
    by (auto simp: group_flush.simps [of region_id g] split: option.splits if_splits)
qed

lemma fork_flows_others:
  assumes "group_fork_flows source n g = (HERMAS_RUNTIME_OK, flows, g')"
  shows "length (ge_flows g') = length (ge_flows g)" and "j \<notin> set flows \<Longrightarrow> flow_at g' j = flow_at g j"
    and "length flows = n"
proof -
  have "length (ge_flows g') = length (ge_flows g) \<and> (j \<notin> set flows \<longrightarrow> flow_at g' j = flow_at g j) \<and> length flows = n"
    using assms
  proof (induction n arbitrary: g flows)
    case (Suc n)
    then obtain i f flows' where "group_fork_flows source n (set_flow i f g) = (HERMAS_RUNTIME_OK, flows', g')"
      and "flows = i # flows'"
      by (auto simp: Let_def split: option.splits prod.splits if_splits)
    then show ?case using Suc.IH [of "set_flow i f g" flows'] by auto
  qed simp
  then show "length (ge_flows g') = length (ge_flows g)" and "j \<notin> set flows \<Longrightarrow> flow_at g' j = flow_at g j"
    and "length flows = n" by auto
qed

text \<open>The edges that \<open>group_find_edge\<close> can return; the forks they enter have a branch.\<close>

definition edge_offsets :: "bytes \<Rightarrow> nat list" where
  "edge_offsets img = map (\<lambda>i. ih_edges (read_header img) + i * 16) [0..<ih_edge_count (read_header img)]"

definition forks_branch :: "bytes \<Rightarrow> bool" where
  "forks_branch img \<longleftrightarrow>
     list_all (\<lambda>edge. img ! (edge + 1) = 4 \<longrightarrow> img ! (node_record img (read_u16 img (edge + 6)) + 1) \<noteq> 0)
       (edge_offsets img)"

lemma find_edge_offset: "group_find_edge g kind node tag = Some edge \<Longrightarrow> edge \<in> set (edge_offsets (ge_image g))"
  unfolding group_find_edge_def by (erule first_edge_Some) (simp add: edge_offsets_def)

text \<open>
  What the functions rely on when they enter an edge, as an interface: the function they are given
  stays in the progress relation and, on an edge of the image, makes the flow quiet.
\<close>

locale group_entry =
  fixes enter :: group_enter
  assumes progress: "progress_enter enter"
    and quiet_entered: "forks_branch (ge_image g) \<Longrightarrow> edge \<in> set (edge_offsets (ge_image g)) \<Longrightarrow>
      enter g i edge outcome = Some (HERMAS_RUNTIME_OK, g') \<Longrightarrow> quiet {i} g g'"
begin

lemma image_entered: "enter g i edge outcome = Some (r, g') \<Longrightarrow> ge_image g' = ge_image g"
  using group_progress_static(1) [OF progress_enterD [OF progress]] .

lemma quiet_found:
  assumes "group_find_edge g0 kind node tag = Some edge" and "ge_image g0 = ge_image g"
    and "forks_branch (ge_image g)" and "enter g i edge outcome = Some (HERMAS_RUNTIME_OK, g')"
  shows "quiet {i} g g'"
  using quiet_entered [OF assms(3) _ assms(4)] find_edge_offset [OF assms(1)] assms(2) by simp

lemma quiet_each_finish:
  assumes "forks_branch (ge_image g)" and "group_each_finish enter g = Some (HERMAS_RUNTIME_OK, g')"
  shows "quiet {} g g'"
proof -
  let ?c = "unat (ge_each_coordinator_flow g)"
  obtain copied flow where copy: "group_copy_value (flow_at g ?c) (Some (ge_each_collection g))
      (ge_each_collection_length g) = (copied, flow)" by fastforce
  define g2 where "g2 = (set_flow ?c (flow\<lparr>fl_active := 1, fl_each_region := 0\<rparr>) g)\<lparr>ge_active_each_region := 0\<rparr>"
  have image: "ge_image g2 = ge_image g" by (simp add: g2_def set_flow_def)
  obtain edge where "group_find_edge g2 9 (ucast (ge_active_each_region g)) 0 = Some edge"
    and "enter g2 ?c edge HERMAS_OUTCOME_SUCCESS = Some (HERMAS_RUNTIME_OK, g')"
    using assms(2) copy unfolding group_each_finish_def Let_def g2_def
    by (auto split: if_splits option.splits)
  then have "quiet {?c} g2 g'" using quiet_found [of g2] image assms(1) by simp
  then have "quiet {?c} g g'" by (rule quiet_before) (simp_all add: g2_def)
  then show ?thesis by (rule quiet_mono) simp
qed

lemma quiet_admit_items:
  "forks_branch (ge_image g) \<Longrightarrow>
   group_admit_items n enter region_id g = Some (HERMAS_RUNTIME_OK, g') \<Longrightarrow> quiet {} g g'"
proof (induction n arbitrary: g)
  case (Suc n)
  show ?case
  proof (cases "find_flow g (\<lambda>_ f. \<not> is_active f)")
    case None
    then show ?thesis using Suc.prems by (auto split: if_splits)
  next
    case (Some slot)
    obtain copied g1 where admit: "admit_item region_id slot g = (copied, g1)" by fastforce
    then have image: "ge_image g1 = ge_image g" using group_progress_static(1) [OF progress_admit_item] by blast
    have others: "length (ge_flows g1) = length (ge_flows g)" "\<And>j. j \<notin> {slot} \<Longrightarrow> flow_at g1 j = flow_at g j"
      using admit by (auto simp: admit_item_def Let_def split: prod.splits)
    have "quiet {} g g'"
      if find: "group_find_edge g1 8 (ucast region_id) 0 = Some edge"
        and enter: "enter g1 slot edge HERMAS_OUTCOME_NONE = Some (HERMAS_RUNTIME_OK, g2)"
        and rest: "group_admit_items n enter region_id g2 = Some (HERMAS_RUNTIME_OK, g')" for edge g2
    proof -
      have "quiet {slot} g g2"
        using quiet_before [OF quiet_found [OF find _ _ enter] others] Suc.prems(1) image by simp
      moreover have "quiet {} g2 g'" using Suc.IH [OF _ rest] Suc.prems(1) image image_entered [OF enter] by simp
      ultimately show ?thesis using quiet_after quiet_mono by blast
    qed
    then show ?thesis
      using Suc.prems Some admit by (auto simp: and_then_Some split: if_splits option.splits)
  qed
qed simp

lemma quiet_each_admit:
  "forks_branch (ge_image g) \<Longrightarrow> group_each_admit n enter g = Some (HERMAS_RUNTIME_OK, g') \<Longrightarrow> quiet {} g g'"
  using quiet_admit_items by (auto simp: group_each_admit_def Let_def split: if_splits)

lemma quiet_each_collect:
  assumes "forks_branch (ge_image g)" and "group_each_collect n enter g i region_id = Some (HERMAS_RUNTIME_OK, g')"
  shows "quiet {i} g g'"
proof -
  let ?f = "(flow_at g i)\<lparr>fl_state := HERMAS_EXECUTION_WAITING\<rparr>"
  let ?g1 = "(set_flow i ?f g)\<lparr>ge_each_completed_items := ge_each_completed_items g + 1\<rparr>"
  have "quiet {i} g (set_flow i ?f g)" by (rule quiet_set) (simp add: in_flight_def)
  then have g1: "quiet {i} g ?g1" by (simp add: quiet_same_flows(2) [of ?g1 "set_flow i ?f g"])
  obtain flushed g2 where flush: "group_flush region_id ?g1 = (flushed, g2)" by fastforce
  have "ge_image g2 = ge_image g"
    using group_progress_static(1) [OF progress_flush [OF flush]] by (simp add: set_flow_def)
  then have "quiet {} g2 g'"
    using assms flush quiet_each_finish [of g2 g'] quiet_each_admit [of g2 n g']
    by (auto simp: group_each_collect_def Let_def split: if_splits)
  then show ?thesis by (rule quiet_after [OF quiet_after [OF g1 quiet_flush [OF flush]]])
qed

lemma quiet_each_start:
  assumes "forks_branch (ge_image g)" and "group_each_start n enter g i region_id = Some (HERMAS_RUNTIME_OK, g')"
  shows "quiet {i} g g'"
proof -
  obtain listed count g1 where list: "each_list g i region_id = (listed, count, g1)" by (metis prod_cases3)
  let ?g2 = "each_open g1 i region_id count"
  have flows: "ge_flows g1 = ge_flows g" and image: "ge_image ?g2 = ge_image g"
    using list by (auto simp: each_list_def each_open_def set_flow_def Let_def split: prod.splits)
  let ?f = "(flow_at g1 i)\<lparr>fl_active := 0, fl_each_region := 0\<rparr>"
  have "quiet {i} g1 (set_flow i ?f g1)" by (rule quiet_set) (simp add: in_flight_def is_active_def)
  then have "quiet {i} g ?g2"
    using quiet_same_flows(1) [OF flows] quiet_same_flows(2) [of ?g2 "set_flow i ?f g1"]
    by (simp add: each_open_def set_flow_def flow_at_def)
  moreover have "quiet {} ?g2 g'"
    using assms list image quiet_each_finish [of ?g2 g'] quiet_each_admit [of ?g2 n g']
    by (auto simp: group_each_start_def split: if_splits)
  ultimately show ?thesis by (rule quiet_after)
qed

lemma quiet_route_dispatch:
  assumes "forks_branch (ge_image g)"
    and "group_route_dispatch enter g i node outcome = Some (HERMAS_RUNTIME_OK, g')"
  shows "quiet {i} g g'"
proof -
  obtain tag edge f where find: "group_find_edge g 5 node tag = Some edge"
    and enter: "enter (set_flow i f g) i edge outcome = Some (HERMAS_RUNTIME_OK, g')"
    using assms(2) unfolding group_route_dispatch_def Let_def by (auto split: if_splits option.splits)
  have image: "ge_image (set_flow i f g) = ge_image g" by (simp add: set_flow_def)
  show ?thesis
    by (rule quiet_before_set [OF quiet_found [OF find _ _ enter]]) (simp_all add: image assms(1))
qed

lemma quiet_join_outputs:
  "forks_branch (ge_image g) \<Longrightarrow>
   group_join_outputs enter node branches g = Some (HERMAS_RUNTIME_OK, g') \<Longrightarrow> quiet {} g g'"
proof (induction branches arbitrary: g)
  case (Cons branch branches)
  obtain tag i where branch: "branch = (tag, i)" by fastforce
  have next_branch: "quiet {} g g'"
    if "quiet {i} g g1" and "ge_image g1 = ge_image g"
      and "group_join_outputs enter node branches g1 = Some (HERMAS_RUNTIME_OK, g')" for g1
    using quiet_mono [OF quiet_after [OF that(1) Cons.IH [OF _ that(3)]]] Cons.prems(1) that(2) by simp
  show ?case
  proof (cases "group_find_edge g 7 node (of_nat tag)")
    case None
    have "quiet {i} g (set_flow i ((flow_at g i)\<lparr>fl_active := 0\<rparr>) g)"
      by (rule quiet_set) (simp add: in_flight_def is_active_def)
    then show ?thesis
      by (rule next_branch) (use None Cons.prems in \<open>simp_all add: branch set_flow_def\<close>)
  next
    case (Some edge)
    then obtain g1 where "enter g i edge HERMAS_OUTCOME_SUCCESS = Some (HERMAS_RUNTIME_OK, g1)"
      and "group_join_outputs enter node branches g1 = Some (HERMAS_RUNTIME_OK, g')"
      using Cons.prems by (auto simp: branch and_then_Some)
    then show ?thesis using quiet_found [OF Some refl Cons.prems(1)] image_entered next_branch by blast
  qed
qed auto

lemma quiet_resolve_join:
  assumes "forks_branch (ge_image g)" and "group_resolve_join enter g node = Some (HERMAS_RUNTIME_OK, g')"
  shows "quiet {} g g'"
  using assms quiet_join_outputs [OF assms(1)]
  by (auto simp: group_resolve_join_def Let_def split: if_splits)

lemma quiet_fork_outputs:
  "forks_branch (ge_image g) \<Longrightarrow>
   group_fork_outputs enter node branches g = Some (HERMAS_RUNTIME_OK, g') \<Longrightarrow>
   quiet (snd ` set branches) g g'"
proof (induction branches arbitrary: g)
  case (Cons branch branches)
  obtain tag i where branch: "branch = (tag, i)" by fastforce
  obtain edge g1 where find: "group_find_edge g 6 node (of_nat tag) = Some edge"
    and enter: "enter g i edge HERMAS_OUTCOME_NONE = Some (HERMAS_RUNTIME_OK, g1)"
    and rest: "group_fork_outputs enter node branches g1 = Some (HERMAS_RUNTIME_OK, g')"
    using Cons.prems unfolding branch by (auto simp: and_then_Some split: option.splits)
  have "quiet (snd ` set branches) g1 g'"
    using Cons.IH [OF _ rest] Cons.prems(1) image_entered [OF enter] by simp
  then show ?case
    using quiet_trans [OF quiet_found [OF find refl Cons.prems(1) enter]] branch by simp
qed simp

lemma quiet_enter_fork:
  assumes "forks_branch (ge_image g)" and "group_enter_fork enter g source node = Some (HERMAS_RUNTIME_OK, g')"
    and "ge_image g ! (node_record (ge_image g) node + 1) \<noteq> 0"
  shows "quiet {source} g g'"
proof -
  let ?n = "unat (ge_image g ! (node_record (ge_image g) node + 1))"
  obtain flows g1 where fork: "group_fork_flows source (?n - 1) g = (HERMAS_RUNTIME_OK, flows, g1)"
    and outputs: "group_fork_outputs enter node (zip [0..<?n] (source # flows)) g1 = Some (HERMAS_RUNTIME_OK, g')"
    using assms(2) by (auto simp: group_enter_fork_def Let_def split: if_splits prod.splits)
  have "0 < ?n" using assms(3) by (simp add: unat_gt_0)
  then have len: "length (source # flows) = ?n" using fork_flows_others(3) [OF fork] by simp
  have image: "ge_image g1 = ge_image g" using group_progress_static(1) [OF progress_fork_flows [OF fork]] .
  have "snd ` set (zip [0..<?n] (source # flows)) = set (source # flows)"
    using len by (metis length_map length_upt map_snd_zip minus_nat.diff_0 set_map)
  then have "quiet (set (source # flows)) g1 g'"
    using quiet_fork_outputs [OF _ outputs] assms(1) image by simp
  then have "quiet (set (source # flows)) g g'"
    using fork_flows_others(1,2) [OF fork] by (elim quiet_before) auto
  then show ?thesis by (rule quiet_mono) simp
qed

end

text \<open>The induction on the depth of the calls.\<close>

lemma quiet_group_enter_edge:
  "forks_branch (ge_image g) \<Longrightarrow> edge \<in> set (edge_offsets (ge_image g)) \<Longrightarrow>
   group_enter_edge n g i edge outcome = Some (HERMAS_RUNTIME_OK, g') \<Longrightarrow> quiet {i} g g'"
proof (induction n arbitrary: g i edge outcome g')
  case (Suc n)
  then have entry: "group_entry (group_enter_edge n)"
    by (unfold_locales) (use progress_group_enter_edge in auto)
  let ?f = "entering_flow g i edge" and ?kind = "ge_image g ! (edge + 1)"
    and ?node = "read_u16 (ge_image g) (edge + 6)"
  have image: "forks_branch (ge_image (set_flow i f g))" "ge_image (set_flow i f g) = ge_image g" for f
    using Suc.prems(1) by (simp_all add: set_flow_def)
  note before = quiet_before_set [of i _ g g']
  consider "?kind = 1" | "?kind = 4" | "?kind = 3" | "?kind = 5" | "?kind = 6" | "?kind = 7" | "?kind = 2"
    | "?kind \<notin> {1, 2, 3, 4, 5, 6, 7}" by auto
  then show ?case
  proof cases
    case 1
    then show ?thesis
      using Suc.prems(3) quiet_set [of "?f\<lparr>fl_state := HERMAS_EXECUTION_READY, fl_active := 1\<rparr>" i g]
      by (simp add: group_enter_edge.simps(2) Let_def in_flight_def)
  next
    case 2
    have "ge_image g ! (node_record (ge_image g) ?node + 1) \<noteq> 0"
      using Suc.prems(1,2) 2 by (simp add: forks_branch_def list_all_iff)
    then show ?thesis
      using Suc.prems(3) 2 before [OF group_entry.quiet_enter_fork [OF entry image(1)]] image(2)
      by (simp add: group_enter_edge.simps(2) Let_def)
  next
    case 3
    then show ?thesis using Suc.prems(3) before [OF group_entry.quiet_route_dispatch [OF entry image(1)]]
      by (simp add: group_enter_edge.simps(2) Let_def)
  next
    case 4
    let ?w = "?f\<lparr>fl_join_node := ?node, fl_join_tag := ge_image g ! (edge + 3), fl_state := HERMAS_EXECUTION_WAITING\<rparr>"
    have "quiet {i} g (set_flow i ?w g)" by (rule quiet_set) (simp add: in_flight_def)
    moreover have "quiet {} (set_flow i ?w g) g'"
      using Suc.prems(3) 4 group_entry.quiet_resolve_join [OF entry image(1)]
      by (simp add: group_enter_edge.simps(2) Let_def)
    ultimately show ?thesis by (rule quiet_after)
  next
    case 5
    then show ?thesis using Suc.prems(3) before [OF group_entry.quiet_each_start [OF entry image(1)]]
      by (simp add: group_enter_edge.simps(2) Let_def)
  next
    case 6
    then show ?thesis using Suc.prems(3) before [OF group_entry.quiet_each_collect [OF entry image(1)]]
      by (simp add: group_enter_edge.simps(2) Let_def)
  next
    case 7
    then show ?thesis using Suc.prems(3) quiet_before_set [OF quiet_record_terminal]
      by (auto simp: group_enter_edge.simps(2) Let_def)
  next
    case 8
    then show ?thesis using Suc.prems(3) by (auto simp: group_enter_edge.simps(2) Let_def)
  qed
qed simp

interpretation entry: group_entry "group_enter_edge n" for n
  by unfold_locales (use progress_group_enter_edge quiet_group_enter_edge in auto)

end
