(* ===== verification/Hermas_Group_Delivery.thy ===== *)
theory Hermas_Group_Delivery
  imports Hermas_Group_Flight
begin

text \<open>
  One delivery at a time: in a run of a group without a failed call, no Action has two deliveries in
  flight, unless they are items of the same each region.
\<close>

section \<open>The forks of an accepted image have branches\<close>

lemma accepted_fork_node:
  assumes "image_check img n = Inr (h, nt, rt, et)" and "nt_fork_type nt (unat node) \<noteq> 0"
  shows "img ! (node_record img node + 1) \<noteq> 0"
proof -
  have loop: "for_each (check_node img h) [0..<ih_node_count h] no_nodes = Inr nt"
    using image_check_stages(7) [OF assms(1)] by (auto simp: check_nodes_def split: sum.splits if_splits)
  let ?I = "\<lambda>nt. \<forall>k. nt_fork_type nt k \<noteq> 0 \<longrightarrow> 1 \<le> k \<and> img ! (ih_nodes h + k * 8 - 8 + 1) \<noteq> 0"
  have "?I nt"
  proof (rule for_each_invariant [OF loop, where I = "\<lambda>_. ?I"])
    show "?I no_nodes" by (simp add: no_nodes_def)
  next
    fix i t t'
    assume inv: "?I t" and step: "check_node img h i t = Inr t'"
    have "nt_fork_type t' = nt_fork_type t \<or>
        (\<exists>ty. nt_fork_type t' = (nt_fork_type t)(Suc i := ty)) \<and> img ! (ih_nodes h + i * 8 + 1) \<ge> 2"
      using step unfolding check_node_def Let_def
      by (simp split: if_splits option.splits prod.splits) (use sym in \<open>fastforce\<close>)+
    then show "?I t'" using inv by (auto split: if_splits)
  qed
  then show ?thesis
    using assms(2) accepted_header(1) [OF assms(1)] by (auto simp: node_record_def read_header_def)
qed

lemma accepted_forks_branch:
  assumes "image_check img n = Inr (h, nt, rt, et)"
  shows "forks_branch img"
proof -
  have h: "h = read_header img" by (rule accepted_header(1) [OF assms])
  have "img ! (node_record img (read_u16 img (edge + 6)) + 1) \<noteq> 0"
    if edge: "edge \<in> set (edge_offsets img)" "img ! (edge + 1) = 4" for edge
  proof -
    obtain i where i: "i < ih_edge_count h" "edge = ih_edges h + i * 16"
      using edge(1) by (auto simp: edge_offsets_def h)
    let ?e = "read_edge img h i"
    have "ie_target_kind ?e = 4" and node: "ie_target_node ?e = read_u16 img (edge + 6)"
      using edge(2) i(2) by (simp_all add: read_edge_fields)
    then have "nt_fork_type nt (unat (ie_target_node ?e)) \<noteq> 0"
      using check_edges_edge(2) [OF image_check_stages(9) [OF assms] read_edge_in [OF i(1)]]
      by (auto simp: valid_target_def Let_def)
    then show ?thesis using accepted_fork_node [OF assms] node by metis
  qed
  then show ?thesis by (simp add: forks_branch_def list_all_iff)
qed

section \<open>The invariant\<close>

definition delivery_action :: "bytes \<Rightarrow> hermas_flow \<Rightarrow> u16 \<times> u16" where
  "delivery_action img f =
    (let node = node_record img (fl_current_node f) in (read_u16 img (node + 4), read_u16 img (node + 2)))"

definition single_flight :: "hermas_group_execution \<Rightarrow> bool" where
  "single_flight g \<longleftrightarrow>
     (\<forall>i < length (ge_flows g). \<forall>j < length (ge_flows g).
        i \<noteq> j \<longrightarrow> in_flight (flow_at g i) \<longrightarrow> in_flight (flow_at g j) \<longrightarrow>
        delivery_action (ge_image g) (flow_at g i) = delivery_action (ge_image g) (flow_at g j) \<longrightarrow>
        fl_each_region (flow_at g i) = fl_each_region (flow_at g j) \<and> fl_each_region (flow_at g i) \<noteq> 0)"

lemma single_flightD:
  assumes "single_flight g" and "i < length (ge_flows g)" and "j < length (ge_flows g)" and "i \<noteq> j"
    and "in_flight (flow_at g i)" and "in_flight (flow_at g j)"
    and "delivery_action (ge_image g) (flow_at g i) = delivery_action (ge_image g) (flow_at g j)"
  shows "fl_each_region (flow_at g i) = fl_each_region (flow_at g j)" and "fl_each_region (flow_at g i) \<noteq> 0"
  using assms unfolding single_flight_def by blast+

lemma single_flight_mono:
  assumes flight: "single_flight g" and len: "length (ge_flows g') = length (ge_flows g)"
    and image: "ge_image g' = ge_image g"
    and flows: "\<And>j. j < length (ge_flows g) \<Longrightarrow> in_flight (flow_at g' j) \<Longrightarrow>
      in_flight (flow_at g j) \<and> fl_each_region (flow_at g' j) = fl_each_region (flow_at g j) \<and>
      fl_current_node (flow_at g' j) = fl_current_node (flow_at g j)"
  shows "single_flight g'"
  unfolding single_flight_def len image
proof (intro allI impI)
  fix i j
  assume ij: "i < length (ge_flows g)" "j < length (ge_flows g)" "i \<noteq> j" "in_flight (flow_at g' i)" "in_flight (flow_at g' j)"
    and same: "delivery_action (ge_image g) (flow_at g' i) = delivery_action (ge_image g) (flow_at g' j)"
  note old = flows [OF ij(1,4)] flows [OF ij(2,5)]
  have "delivery_action (ge_image g) (flow_at g i) = delivery_action (ge_image g) (flow_at g j)"
    using same old by (simp add: delivery_action_def)
  then show "fl_each_region (flow_at g' i) = fl_each_region (flow_at g' j) \<and> fl_each_region (flow_at g' i) \<noteq> 0"
    using single_flightD [OF flight ij(1-3), OF conjunct1 [OF old(1)] conjunct1 [OF old(2)]] old by metis
qed

lemma single_flight_quiet:
  "single_flight g \<Longrightarrow> quiet X g g' \<Longrightarrow> ge_image g' = ge_image g \<Longrightarrow> single_flight g'"
  by (erule single_flight_mono) (auto simp: quiet_def same_delivery_def)

lemma first_conflict_None:
  "first_conflict g i app action = None \<longleftrightarrow> (\<forall>j < HERMAS_RUNTIME_MAX_FLOWS. delivery_conflict g i app action j = None)"
  by (auto simp: first_conflict_def first_index_None first_index_Some split: option.splits)

lemma single_flight_prepare:
  assumes flight: "single_flight g" and len: "length (ge_flows g) = HERMAS_RUNTIME_MAX_FLOWS"
    and prepare: "group_prepare g i = (HERMAS_RUNTIME_OK, g', Some f)"
  shows "single_flight g'"
proof -
  let ?flow = "flow_at g i"
  let ?new = "?flow\<lparr>fl_request_id := ge_next_request_id g, fl_state := HERMAS_EXECUTION_PREPARED\<rparr>"
  let ?key = "delivery_action (ge_image g) ?flow"
  have g': "g' = set_flow i ?new (g\<lparr>ge_next_request_id := ge_next_request_id g + 1\<rparr>)"
    and clear: "first_conflict g i (fst ?key) (snd ?key) = None"
    using prepare by (auto simp: group_prepare_def delivery_action_def Let_def split: if_splits option.splits)
  have others: "fl_each_region ?flow = fl_each_region (flow_at g j) \<and> fl_each_region ?flow \<noteq> 0"
    if "j < length (ge_flows g)" "j \<noteq> i" "in_flight (flow_at g j)" "delivery_action (ge_image g) (flow_at g j) = ?key" for j
  proof -
    have "delivery_conflict g i (fst ?key) (snd ?key) j = None"
      using clear that(1) by (simp add: first_conflict_None len)
    then show ?thesis
      using that(2-) by (auto simp: delivery_conflict_def in_flight_def delivery_action_def Let_def split: if_splits)
  qed
  have flow: "flow_at g' j = (if i = j \<and> j < length (ge_flows g) then ?new else flow_at g j)" for j
    unfolding g' by (simp add: flow_at_def set_flow_def nth_list_update list_update_beyond not_less) (metis list_update_beyond not_less nth_list_update)
  have key: "delivery_action (ge_image g) ?new = ?key" by (simp add: delivery_action_def)
  have rest: "ge_image g' = ge_image g" "length (ge_flows g') = length (ge_flows g)"
    by (simp_all add: g' set_flow_def)
  show ?thesis
    unfolding single_flight_def rest
  proof (intro allI impI)
    fix a b
    assume ab: "a < length (ge_flows g)" "b < length (ge_flows g)" "a \<noteq> b" "in_flight (flow_at g' a)" "in_flight (flow_at g' b)"
      and same: "delivery_action (ge_image g) (flow_at g' a) = delivery_action (ge_image g) (flow_at g' b)"
    consider "a = i" | "b = i" | "a \<noteq> i" "b \<noteq> i" by blast
    then show "fl_each_region (flow_at g' a) = fl_each_region (flow_at g' b) \<and> fl_each_region (flow_at g' a) \<noteq> 0"
    proof cases
      case 1
      then show ?thesis using ab same others [of b] by (auto simp: flow key)
    next
      case 2
      then show ?thesis using ab same others [of a] by (auto simp: flow key)
    next
      case 3
      then have "flow_at g' a = flow_at g a" "flow_at g' b = flow_at g b" by (auto simp: flow)
      then show ?thesis using single_flightD [OF flight ab(1-3)] ab(4,5) same by metis
    qed
  qed
qed

section \<open>The calls\<close>

lemma quiet_delivery_outcome:
  assumes "forks_branch (ge_image g)" and "group_delivery_outcome n g i required kind outcome = Some (HERMAS_RUNTIME_OK, g')"
  shows "quiet {i} g g'"
proof -
  obtain node edge where find: "group_find_edge g kind node 0 = Some edge"
    and enter: "group_enter_edge n (set_flow i ((flow_at g i)\<lparr>fl_value_length := 0\<rparr>) g) i edge outcome =
      Some (HERMAS_RUNTIME_OK, g')"
    using assms(2) by (auto simp: group_delivery_outcome_def Let_def split: if_splits option.splits)
  show ?thesis
    by (rule quiet_before_set [OF entry.quiet_found [OF find _ _ enter]]) (simp_all add: set_flow_def assms(1))
qed

lemma quiet_accept_result:
  assumes "forks_branch (ge_image g)" and "group_accept_result n g i f = Some (HERMAS_RUNTIME_OK, g')"
  shows "quiet {i} g g'"
proof -
  obtain kind node edge flow where find: "group_find_edge g kind node 0 = Some edge"
    and enter: "group_enter_edge n (set_flow i flow g) i edge (fr_outcome f) = Some (HERMAS_RUNTIME_OK, g')"
    using assms(2) by (auto simp: group_accept_result_def Let_def split: if_splits option.splits prod.splits)
  show ?thesis
    by (rule quiet_before_set [OF entry.quiet_found [OF find _ _ enter]]) (simp_all add: set_flow_def assms(1))
qed

lemma quiet_expire_sent:
  "forks_branch (ge_image g) \<Longrightarrow> expire_sent n region is g = Some (HERMAS_RUNTIME_OK, g') \<Longrightarrow> quiet {} g g'"
proof (induction "is" arbitrary: g)
  case (Cons i "is")
  show ?case
  proof (cases "sent_in_region g region i")
    case True
    then obtain g1 where mark: "group_mark_unknown n g i = Some (HERMAS_RUNTIME_OK, g1)"
      and rest: "expire_sent n region is g1 = Some (HERMAS_RUNTIME_OK, g')"
      using Cons.prems(2) by (auto simp: and_then_Some)
    have "quiet {i} g g1" and "ge_image g1 = ge_image g"
      using mark quiet_delivery_outcome [OF Cons.prems(1)] group_progress_static(1) [OF progress_delivery_outcome]
      by (auto simp: group_mark_unknown_def)
    then show ?thesis using Cons.IH [OF _ rest] Cons.prems(1) quiet_after quiet_mono by (metis empty_subsetI)
  next
    case False
    then show ?thesis using Cons by simp
  qed
qed simp

lemma quiet_expire_region:
  assumes fork: "forks_branch (ge_image g)" and "group_expire_region n g region = Some (HERMAS_RUNTIME_OK, g')"
  shows "quiet {} g g'"
proof -
  consider (sent) "expire_sent n region [0..<HERMAS_RUNTIME_MAX_FLOWS] g = Some (HERMAS_RUNTIME_OK, g')"
    | (unsent) i where "expire_unsent n g i = Some (HERMAS_RUNTIME_OK, g')"
    using assms(2) by (auto simp: group_expire_region_def split: if_splits option.splits)
  then show ?thesis
  proof cases
    case sent
    then show ?thesis by (rule quiet_expire_sent [OF fork])
  next
    case (unsent i)
    have "quiet {i} g g'"
      if "group_find_edge g 3 node 0 = Some edge"
        and "group_enter_edge n (set_flow i ((flow_at g i)\<lparr>fl_value_length := 0\<rparr>) g) i edge outcome = Some (HERMAS_RUNTIME_OK, g')"
      for node edge outcome
      by (rule quiet_before_set [OF entry.quiet_found [OF that(1) _ _ that(2)]]) (simp_all add: set_flow_def fork)
    then have "quiet {i} g g'"
      using unsent quiet_delivery_outcome [OF fork] quiet_record_terminal
      by (auto simp: expire_unsent_def group_mark_not_sent_def Let_def
          split: if_splits option.splits hermas_execution_state.splits)
    then show ?thesis by (rule quiet_mono) simp
  qed
qed

lemma single_flight_reach:
  assumes "group_reach (\<lambda>r. r = HERMAS_RUNTIME_OK) n g0 fs g" and "forks_branch (ge_image g0)"
    and "single_flight g0" and "group_inv xid stride [] g0"
  shows "single_flight g \<and> ge_image g = ge_image g0"
  using assms(1)
proof (induction rule: group_reach.induct)
  case reach_start
  show ?case using assms(3) by simp
next
  case (reach_prepare fs g i r g' f)
  have "length (ge_flows g) = HERMAS_RUNTIME_MAX_FLOWS"
    using group_reach_inv [OF reach_prepare.hyps(1) assms(4)] by (simp add: group_inv_def)
  moreover have "group_prepare g i = (HERMAS_RUNTIME_OK, g', Some f)"
    using reach_prepare.hyps(2,3) by (auto elim: prepare_cases)
  moreover from this have "ge_image g' = ge_image g"
    by (auto simp: group_prepare_def Let_def set_flow_def split: if_splits option.splits)
  ultimately show ?case using single_flight_prepare [of g i g' f] reach_prepare.IH by simp
next
  case (reach_sent fs g i r g')
  then have prepared: "is_active (flow_at g i)" "fl_state (flow_at g i) = HERMAS_EXECUTION_PREPARED"
    and g': "g' = set_flow i ((flow_at g i)\<lparr>fl_state := HERMAS_EXECUTION_SENT\<rparr>) g"
    by (auto simp: hermas_group_mark_sent_def split: if_splits)
  have image: "ge_image g' = ge_image g" by (simp add: g' set_flow_def)
  have "single_flight g'"
    by (rule single_flight_mono [OF _ _ image])
      (use reach_sent.IH prepared in \<open>auto simp: g' in_flight_def split: if_splits\<close>)
  then show ?case using reach_sent.IH image by simp
next
  case (reach_not_sent fs g i r g')
  then show ?case
    using single_flight_quiet quiet_delivery_outcome assms(2) group_progress_static(1) [OF progress_delivery_outcome]
    by (simp add: hermas_group_mark_not_sent_def group_mark_not_sent_def) metis
next
  case (reach_unknown fs g i r g')
  then show ?case
    using single_flight_quiet quiet_delivery_outcome assms(2) group_progress_static(1) [OF progress_delivery_outcome]
    by (simp add: hermas_group_mark_unknown_def group_mark_unknown_def) metis
next
  case (reach_result fs g i f r g')
  then have "group_accept_result n g i f = Some (HERMAS_RUNTIME_OK, g')"
    by (auto simp: hermas_group_accept_result_def split: if_splits)
  then show ?case
    using single_flight_quiet quiet_accept_result assms(2) group_progress_static(1) [OF progress_accept_result] reach_result.IH
    by metis
next
  case (reach_expire fs g region r g')
  then show ?case
    using single_flight_quiet quiet_expire_region assms(2) group_progress_static(1) [OF progress_expire_region]
    by (simp add: hermas_group_expire_region_def) metis
qed

section \<open>Start\<close>

lemma start_accepted:
  assumes "hermas_group_start n (Some old) (Some img) size0 xid (Some storage) cap stride type_id input len =
      Some (HERMAS_RUNTIME_OK, Some g)"
  obtains h nt rt et where "image_check img size0 = Inr (h, nt, rt, et)"
    and "group_start_flow n (loaded_group img size0 xid storage stride) input len = Some (HERMAS_RUNTIME_OK, g)"
proof -
  have "fst (hermas_image_validate (Some img) size0 (Some no_summary)) = HERMAS_IMAGE_OK"
    and start: "group_start_flow n (loaded_group img size0 xid storage stride) input len = Some (HERMAS_RUNTIME_OK, g)"
    using assms by (auto simp: hermas_group_start_def split: if_splits prod.splits option.splits hermas_image_result.splits)
  then obtain r where "image_check img size0 = Inr r" by (auto simp: validate_OK_iff)
  then show thesis using that start by (metis prod_cases4)
qed

lemma loaded_not_in_flight:
  "j < HERMAS_RUNTIME_MAX_FLOWS \<Longrightarrow> \<not> in_flight (flow_at (loaded_group img n xid storage stride) j)"
  by (auto simp: loaded_group_def load_flows_def flow_at_def in_flight_def no_flow_def nth_list_update Let_def)

lemma start_single_flight:
  assumes "hermas_group_start n (Some old) (Some img) size0 xid (Some storage) cap stride type_id input len =
      Some (HERMAS_RUNTIME_OK, Some g)"
  shows "forks_branch (ge_image g)" and "single_flight g"
proof -
  obtain h nt rt et where check: "image_check img size0 = Inr (h, nt, rt, et)"
    and start: "group_start_flow n (loaded_group img size0 xid storage stride) input len = Some (HERMAS_RUNTIME_OK, g)"
    using start_accepted [OF assms] .
  let ?g0 = "loaded_group img size0 xid storage stride"
  have image0: "ge_image ?g0 = img" by (rule loaded_group_fields(6))
  have image: "ge_image g = img"
    using group_progress_static(1) [OF start_loaded(1) [OF assms]] image0 by simp
  show fork: "forks_branch (ge_image g)" unfolding image by (rule accepted_forks_branch [OF check])
  obtain flow edge where find: "group_find_edge (set_flow 0 flow ?g0) 0 0 0 = Some edge"
    and enter: "group_enter_edge n (set_flow 0 flow ?g0) 0 edge HERMAS_OUTCOME_NONE = Some (HERMAS_RUNTIME_OK, g)"
    using start by (auto simp: group_start_flow_def Let_def split: if_splits option.splits prod.splits)
  have "quiet {0} ?g0 g"
    by (rule quiet_before_set [OF entry.quiet_found [OF find refl _ enter]])
      (use fork image image0 in \<open>simp add: set_flow_def\<close>)
  moreover have "length (ge_flows ?g0) = HERMAS_RUNTIME_MAX_FLOWS"
    by (simp add: loaded_group_def load_flows_def Let_def)
  ultimately show "single_flight g"
    using loaded_not_in_flight by (simp add: single_flight_def quiet_def)
qed

end
