(* ===== verification/Hermas_Image_Samples.thy ===== *)
theory Hermas_Image_Samples
  imports Hermas_Image_Graph
begin

definition sample_image :: bytes where
  "sample_image =
   [
    72, 71, 73, 49, 1, 0, 80, 0, 41, 1, 0, 0, 0, 0, 0, 0,
    40, 1, 0, 0, 1, 0, 1, 0, 1, 0, 1, 0, 1, 0, 5, 0,
    5, 0, 3, 0, 80, 0, 0, 0, 84, 0, 0, 0, 120, 0, 0, 0,
    144, 0, 0, 0, 184, 0, 0, 0, 8, 1, 0, 0, 40, 1, 0, 0,
    32, 0, 0, 0, 0, 0, 0, 0, 8, 1, 0, 0, 0, 0, 0, 0,
    1, 0, 0, 0, 7, 0, 9, 0, 0, 1, 2, 3, 4, 5, 6, 7,
    8, 9, 10, 11, 12, 13, 14, 15, 16, 17, 18, 19, 20, 21, 22, 23,
    24, 25, 26, 27, 28, 29, 30, 31, 1, 0, 0, 0, 8, 1, 0, 0,
    2, 0, 0, 0, 16, 1, 0, 0, 3, 0, 0, 0, 24, 1, 0, 0,
    1, 0, 9, 0, 7, 0, 0, 0, 2, 1, 0, 0, 0, 0, 0, 0,
    2, 2, 0, 0, 0, 0, 0, 0, 2, 3, 0, 0, 0, 0, 0, 0,
    2, 4, 0, 0, 0, 0, 0, 0, 0, 1, 0, 0, 0, 0, 1, 0,
    1, 0, 1, 0, 0, 0, 0, 0, 1, 2, 0, 0, 1, 0, 2, 0,
    1, 0, 1, 0, 0, 0, 0, 0, 2, 2, 0, 0, 1, 0, 3, 0,
    1, 0, 1, 0, 0, 0, 0, 0, 3, 2, 0, 0, 1, 0, 4, 0,
    0, 0, 0, 0, 0, 0, 0, 0, 4, 2, 0, 0, 1, 0, 5, 0,
    0, 0, 0, 0, 0, 0, 0, 0, 2, 0, 0, 0, 0, 0, 0, 0,
    1, 0, 0, 0, 0, 0, 0, 0, 7, 0, 1, 0, 4, 0, 0, 0,
    2, 0, 0, 0, 0, 0, 0, 0, 104]"

lemma sample_byte [simp]:
  "sample_image ! 0 = 72" "sample_image ! Suc 0 = 71" "sample_image ! 2 = 73" "sample_image ! 3 = 49"
  "sample_image ! 4 = 1" "sample_image ! 5 = 0" "sample_image ! 6 = 80" "sample_image ! 7 = 0"
  "sample_image ! 8 = 41" "sample_image ! 9 = 1" "sample_image ! 10 = 0" "sample_image ! 11 = 0"
  "sample_image ! 12 = 0" "sample_image ! 13 = 0" "sample_image ! 14 = 0" "sample_image ! 15 = 0"
  "sample_image ! 16 = 40" "sample_image ! 17 = 1" "sample_image ! 18 = 0" "sample_image ! 19 = 0"
  "sample_image ! 20 = 1" "sample_image ! 21 = 0" "sample_image ! 22 = 1" "sample_image ! 23 = 0"
  "sample_image ! 24 = 1" "sample_image ! 25 = 0" "sample_image ! 26 = 1" "sample_image ! 27 = 0"
  "sample_image ! 28 = 1" "sample_image ! 29 = 0" "sample_image ! 30 = 5" "sample_image ! 31 = 0"
  "sample_image ! 32 = 5" "sample_image ! 33 = 0" "sample_image ! 34 = 3" "sample_image ! 35 = 0"
  "sample_image ! 36 = 80" "sample_image ! 37 = 0" "sample_image ! 38 = 0" "sample_image ! 39 = 0"
  "sample_image ! 40 = 84" "sample_image ! 41 = 0" "sample_image ! 42 = 0" "sample_image ! 43 = 0"
  "sample_image ! 44 = 120" "sample_image ! 45 = 0" "sample_image ! 46 = 0" "sample_image ! 47 = 0"
  "sample_image ! 48 = 144" "sample_image ! 49 = 0" "sample_image ! 50 = 0" "sample_image ! 51 = 0"
  "sample_image ! 52 = 184" "sample_image ! 53 = 0" "sample_image ! 54 = 0" "sample_image ! 55 = 0"
  "sample_image ! 56 = 8" "sample_image ! 57 = 1" "sample_image ! 58 = 0" "sample_image ! 59 = 0"
  "sample_image ! 60 = 40" "sample_image ! 61 = 1" "sample_image ! 62 = 0" "sample_image ! 63 = 0"
  "sample_image ! 64 = 32" "sample_image ! 65 = 0" "sample_image ! 66 = 0" "sample_image ! 67 = 0"
  "sample_image ! 68 = 0" "sample_image ! 69 = 0" "sample_image ! 70 = 0" "sample_image ! 71 = 0"
  "sample_image ! 72 = 8" "sample_image ! 73 = 1" "sample_image ! 74 = 0" "sample_image ! 75 = 0"
  "sample_image ! 76 = 0" "sample_image ! 77 = 0" "sample_image ! 78 = 0" "sample_image ! 79 = 0"
  "sample_image ! 80 = 1" "sample_image ! 81 = 0" "sample_image ! 82 = 0" "sample_image ! 83 = 0"
  "sample_image ! 84 = 7" "sample_image ! 85 = 0" "sample_image ! 86 = 9" "sample_image ! 87 = 0"
  "sample_image ! 88 = 0" "sample_image ! 89 = 1" "sample_image ! 90 = 2" "sample_image ! 91 = 3"
  "sample_image ! 92 = 4" "sample_image ! 93 = 5" "sample_image ! 94 = 6" "sample_image ! 95 = 7"
  "sample_image ! 96 = 8" "sample_image ! 97 = 9" "sample_image ! 98 = 10" "sample_image ! 99 = 11"
  "sample_image ! 100 = 12" "sample_image ! 101 = 13" "sample_image ! 102 = 14" "sample_image ! 103 = 15"
  "sample_image ! 104 = 16" "sample_image ! 105 = 17" "sample_image ! 106 = 18" "sample_image ! 107 = 19"
  "sample_image ! 108 = 20" "sample_image ! 109 = 21" "sample_image ! 110 = 22" "sample_image ! 111 = 23"
  "sample_image ! 112 = 24" "sample_image ! 113 = 25" "sample_image ! 114 = 26" "sample_image ! 115 = 27"
  "sample_image ! 116 = 28" "sample_image ! 117 = 29" "sample_image ! 118 = 30" "sample_image ! 119 = 31"
  "sample_image ! 120 = 1" "sample_image ! 121 = 0" "sample_image ! 122 = 0" "sample_image ! 123 = 0"
  "sample_image ! 124 = 8" "sample_image ! 125 = 1" "sample_image ! 126 = 0" "sample_image ! 127 = 0"
  "sample_image ! 128 = 2" "sample_image ! 129 = 0" "sample_image ! 130 = 0" "sample_image ! 131 = 0"
  "sample_image ! 132 = 16" "sample_image ! 133 = 1" "sample_image ! 134 = 0" "sample_image ! 135 = 0"
  "sample_image ! 136 = 3" "sample_image ! 137 = 0" "sample_image ! 138 = 0" "sample_image ! 139 = 0"
  "sample_image ! 140 = 24" "sample_image ! 141 = 1" "sample_image ! 142 = 0" "sample_image ! 143 = 0"
  "sample_image ! 144 = 1" "sample_image ! 145 = 0" "sample_image ! 146 = 9" "sample_image ! 147 = 0"
  "sample_image ! 148 = 7" "sample_image ! 149 = 0" "sample_image ! 150 = 0" "sample_image ! 151 = 0"
  "sample_image ! 152 = 2" "sample_image ! 153 = 1" "sample_image ! 154 = 0" "sample_image ! 155 = 0"
  "sample_image ! 156 = 0" "sample_image ! 157 = 0" "sample_image ! 158 = 0" "sample_image ! 159 = 0"
  "sample_image ! 160 = 2" "sample_image ! 161 = 2" "sample_image ! 162 = 0" "sample_image ! 163 = 0"
  "sample_image ! 164 = 0" "sample_image ! 165 = 0" "sample_image ! 166 = 0" "sample_image ! 167 = 0"
  "sample_image ! 168 = 2" "sample_image ! 169 = 3" "sample_image ! 170 = 0" "sample_image ! 171 = 0"
  "sample_image ! 172 = 0" "sample_image ! 173 = 0" "sample_image ! 174 = 0" "sample_image ! 175 = 0"
  "sample_image ! 176 = 2" "sample_image ! 177 = 4" "sample_image ! 178 = 0" "sample_image ! 179 = 0"
  "sample_image ! 180 = 0" "sample_image ! 181 = 0" "sample_image ! 182 = 0" "sample_image ! 183 = 0"
  "sample_image ! 184 = 0" "sample_image ! 185 = 1" "sample_image ! 186 = 0" "sample_image ! 187 = 0"
  "sample_image ! 188 = 0" "sample_image ! 189 = 0" "sample_image ! 190 = 1" "sample_image ! 191 = 0"
  "sample_image ! 192 = 1" "sample_image ! 193 = 0" "sample_image ! 194 = 1" "sample_image ! 195 = 0"
  "sample_image ! 196 = 0" "sample_image ! 197 = 0" "sample_image ! 198 = 0" "sample_image ! 199 = 0"
  "sample_image ! 200 = 1" "sample_image ! 201 = 2" "sample_image ! 202 = 0" "sample_image ! 203 = 0"
  "sample_image ! 204 = 1" "sample_image ! 205 = 0" "sample_image ! 206 = 2" "sample_image ! 207 = 0"
  "sample_image ! 208 = 1" "sample_image ! 209 = 0" "sample_image ! 210 = 1" "sample_image ! 211 = 0"
  "sample_image ! 212 = 0" "sample_image ! 213 = 0" "sample_image ! 214 = 0" "sample_image ! 215 = 0"
  "sample_image ! 216 = 2" "sample_image ! 217 = 2" "sample_image ! 218 = 0" "sample_image ! 219 = 0"
  "sample_image ! 220 = 1" "sample_image ! 221 = 0" "sample_image ! 222 = 3" "sample_image ! 223 = 0"
  "sample_image ! 224 = 1" "sample_image ! 225 = 0" "sample_image ! 226 = 1" "sample_image ! 227 = 0"
  "sample_image ! 228 = 0" "sample_image ! 229 = 0" "sample_image ! 230 = 0" "sample_image ! 231 = 0"
  "sample_image ! 232 = 3" "sample_image ! 233 = 2" "sample_image ! 234 = 0" "sample_image ! 235 = 0"
  "sample_image ! 236 = 1" "sample_image ! 237 = 0" "sample_image ! 238 = 4" "sample_image ! 239 = 0"
  "sample_image ! 240 = 0" "sample_image ! 241 = 0" "sample_image ! 242 = 0" "sample_image ! 243 = 0"
  "sample_image ! 244 = 0" "sample_image ! 245 = 0" "sample_image ! 246 = 0" "sample_image ! 247 = 0"
  "sample_image ! 248 = 4" "sample_image ! 249 = 2" "sample_image ! 250 = 0" "sample_image ! 251 = 0"
  "sample_image ! 252 = 1" "sample_image ! 253 = 0" "sample_image ! 254 = 5" "sample_image ! 255 = 0"
  "sample_image ! 256 = 0" "sample_image ! 257 = 0" "sample_image ! 258 = 0" "sample_image ! 259 = 0"
  "sample_image ! 260 = 0" "sample_image ! 261 = 0" "sample_image ! 262 = 0" "sample_image ! 263 = 0"
  "sample_image ! 264 = 2" "sample_image ! 265 = 0" "sample_image ! 266 = 0" "sample_image ! 267 = 0"
  "sample_image ! 268 = 0" "sample_image ! 269 = 0" "sample_image ! 270 = 0" "sample_image ! 271 = 0"
  "sample_image ! 272 = 1" "sample_image ! 273 = 0" "sample_image ! 274 = 0" "sample_image ! 275 = 0"
  "sample_image ! 276 = 0" "sample_image ! 277 = 0" "sample_image ! 278 = 0" "sample_image ! 279 = 0"
  "sample_image ! 280 = 7" "sample_image ! 281 = 0" "sample_image ! 282 = 1" "sample_image ! 283 = 0"
  "sample_image ! 284 = 4" "sample_image ! 285 = 0" "sample_image ! 286 = 0" "sample_image ! 287 = 0"
  "sample_image ! 288 = 2" "sample_image ! 289 = 0" "sample_image ! 290 = 0" "sample_image ! 291 = 0"
  "sample_image ! 292 = 0" "sample_image ! 293 = 0" "sample_image ! 294 = 0" "sample_image ! 295 = 0"
  "sample_image ! 296 = 104"
  by (simp_all add: sample_image_def)

text \<open>Evaluating the validator on the image, stage by stage.\<close>

lemmas sample_reads = read_u16_def read_u32_def

definition sample_header :: image_header where
  "sample_header =
    \<lparr>ih_name_offset = 296, ih_name_length = 1, ih_input_type = 1,
     ih_success_type = 1, ih_error_count = 1, ih_contract_count = 1,
     ih_node_count = 5, ih_edge_count = 5, ih_type_count = 3,
     ih_region_count = 0, ih_errors = 80, ih_contracts = 84,
     ih_types = 120, ih_nodes = 144, ih_edges = 184,
     ih_representations = 264, ih_strings = 296,
     ih_representations_length = 32, ih_regions = 264\<rparr>"

lemma sample_header_fields [simp]:
  "ih_name_offset sample_header = 296" "ih_name_length sample_header = 1"
  "ih_input_type sample_header = 1" "ih_success_type sample_header = 1"
  "ih_error_count sample_header = 1" "ih_contract_count sample_header = 1"
  "ih_node_count sample_header = 5" "ih_edge_count sample_header = 5"
  "ih_type_count sample_header = 3" "ih_region_count sample_header = 0"
  "ih_errors sample_header = 80" "ih_contracts sample_header = 84" "ih_types sample_header = 120"
  "ih_nodes sample_header = 144" "ih_edges sample_header = 184"
  "ih_representations sample_header = 264" "ih_strings sample_header = 296"
  "ih_representations_length sample_header = 32" "ih_regions sample_header = 264"
  by (simp_all add: sample_header_def)

lemma length_sample [simp]: "length sample_image = 297"
  by (simp add: sample_image_def)

lemma read_header_sample: "read_header sample_image = sample_header"
  by (simp add: read_header_def sample_header_def sample_reads)

lemma check_header_sample: "check_header sample_image 297 = Inr sample_header"
proof -
  have "chunk sample_image 0 4 = image_magic"
    by (simp add: list_eq_iff_nth_eq image_magic_def numeral_eq_Suc less_Suc_eq all_conj_distrib)
       (simp add: sample_image_def)
  moreover have "counts_valid sample_header" by (simp add: counts_valid_def)
  ultimately show ?thesis
    by (simp add: check_header_def sample_reads read_header_sample)
qed

lemma offsets_valid_sample: "offsets_valid 297 sample_header"
  by (simp add: offsets_valid_def expected_contracts_def checked_table_end_def SIZE_MAX_def)

lemma name_valid_sample: "name_valid sample_image sample_header"
  by (simp add: name_valid_def chunk_Cons utf8_first_def)

lemma check_errors_sample: "check_errors sample_image sample_header = Inr ()"
  by (simp add: check_errors_def sample_reads)

lemma check_contracts_sample: "check_contracts sample_image sample_header = Inr ()"
  by (simp add: check_contracts_def sample_reads)

lemma sample_representations:
  "validate_representation sample_image 296 264 0 = Inr 272"
  "validate_representation sample_image 296 272 0 = Inr 280"
  "validate_representation sample_image 296 280 0 = Inr 296"
  by (simp_all add: validate_representation_def representation_walk.simps(2) [of 64, simplified]
      representation_walk.simps(2) [of 63, simplified] representation_valid_def sample_reads)

lemma known_type_sample [simp]: "known_type sample_image sample_header 1"
  by (simp add: known_type_def contains_u16_def sample_reads upt_rec)

lemma sample_indices: "[0..<2] = [0, 1::nat]" "[0..<4] = [0, 1, 2, 3::nat]" "[0..<3] = [0, 1, 2::nat]" "[0..<5] = [0, 1, 2, 3, 4::nat]"
    "[Suc 0..<6] = [1, 2, 3, 4, 5::nat]"
  "Suc (Suc 0) = 2"
  by (simp_all add: upt_rec)

lemma check_types_sample: "check_types sample_image sample_header = Inr ()"
  by (simp add: check_types_def check_type_def sample_indices sample_reads sample_representations)

definition sample_nodes :: node_tables where
  "sample_nodes = no_nodes\<lparr>nt_action := (\<lambda>_. False)(1 := True),
     nt_terminal := (\<lambda>_. 0)(2 := 1, 3 := 2, 4 := 3, 5 := 4),
     nt_terminal_kinds := (\<lambda>_. False)(1 := True, 2 := True, 3 := True, 4 := True)\<rparr>"

lemma check_nodes_sample: "check_nodes sample_image sample_header = Inr sample_nodes"
  by (simp add: check_nodes_def check_node_def sample_indices sample_reads no_nodes_def
      contains_action_contract_def sample_nodes_def)

lemma check_regions_sample: "check_regions sample_image sample_header sample_nodes = Inr no_regions"
  by (simp add: check_regions_def)

definition sample_edge :: "u8 \<Rightarrow> u8 \<Rightarrow> u16 \<Rightarrow> u16 \<Rightarrow> u16 \<Rightarrow> image_edge" where
  "sample_edge source target source_node target_node edge_type =
    \<lparr>ie_source_kind = source, ie_target_kind = target, ie_flags = 0, ie_case_tag = 0,
     ie_source_node = source_node, ie_target_node = target_node, ie_source_type = edge_type,
     ie_target_type = edge_type, ie_presentation = 0\<rparr>"

lemma sample_edges:
  "read_edge sample_image sample_header 0 = sample_edge 0 1 0 1 1"
  "read_edge sample_image sample_header (Suc 0) = sample_edge 1 2 1 2 1"
  "read_edge sample_image sample_header 2 = sample_edge 2 2 1 3 1"
  "read_edge sample_image sample_header 3 = sample_edge 3 2 1 4 0"
  "read_edge sample_image sample_header 4 = sample_edge 4 2 1 5 0"
  by (simp_all add: read_edge_def sample_edge_def sample_reads)

definition sample_tables :: edge_tables where
  "sample_tables = no_edges\<lparr>et_input := (\<lambda>_. 0)(1 := 1), et_success := (\<lambda>_. 0)(1 := 1),
     et_error := (\<lambda>_. 0)(1 := 1), et_not_sent := (\<lambda>_. 0)(1 := 1), et_unknown := (\<lambda>_. 0)(1 := 1),
     et_action_success_type := (\<lambda>_. 0)(1 := 1), et_reachable := (\<lambda>_. False)(1 := True),
     et_workflow_input := 1\<rparr>"

lemma check_edges_sample:
  "check_edges sample_image sample_header sample_nodes no_regions = Inr sample_tables"
  by (simp add: check_edges_def check_edge_def sample_indices sample_edges sample_edge_def sample_reads
      valid_source_def valid_target_def valid_presentation_def same_edge_def count_target_def
      count_source_def bump_def graph_target_def no_edges_def sample_nodes_def sample_tables_def
      contains_u16_def valid_dispatch_source_def Let_def)

lemma image_check_sample:
  "image_check sample_image 297 = Inr (sample_header, sample_nodes, no_regions, sample_tables)"
proof -
  have "list_all (node_topology sample_nodes no_regions sample_tables) [1..<ih_node_count sample_header + 1]"
    by (simp add: sample_indices node_topology_def sample_nodes_def no_nodes_def no_regions_def
        sample_tables_def no_edges_def)
  moreover have "saga_topology sample_header sample_nodes no_regions"
    by (simp add: saga_topology_def no_regions_def)
  moreover have "each_topology no_regions sample_tables"
    by (simp add: each_topology_def no_regions_def)
  moreover have "all_reachable sample_image sample_header no_regions sample_tables"
    by (simp add: all_reachable_def image_edges_def sample_indices sample_edges sample_edge_def
        sample_tables_def no_edges_def Let_def reach_passes.simps(2) [of 4, simplified]
        reach_passes.simps(2) [of 3, simplified] reach_pass_def reach_edge_def graph_source_def
        graph_target_def)
  ultimately show ?thesis
    by (simp add: image_check_def check_header_sample offsets_valid_sample name_valid_sample
        check_errors_sample check_contracts_sample check_types_sample check_nodes_sample
        check_regions_sample check_edges_sample)
qed

lemma validate_sample:
  "hermas_image_validate (Some sample_image) 297 summary =
    (HERMAS_IMAGE_OK, case summary of None \<Rightarrow> None | Some _ \<Rightarrow> Some (image_summary sample_image sample_header))"
  by (simp add: hermas_image_validate_def image_check_sample)

section \<open>A list payload\<close>

definition sample_list :: bytes where
  "sample_list = [1, 0, 0, 0, 0, 0, 0, 0, 42, 0, 0, 0, 0, 0, 0, 0]"

lemma list_items_sample:
  "hermas_image_list_items (Some sample_image) (length sample_image) 3 (Some sample_list)
     (length sample_list) 0 [0, 0] [0, 0] 2 = (HERMAS_IMAGE_OK, 1, [8, 0], [8, 0])"
proof -
  have index: "first_index (\<lambda>index. read_u16 sample_image (120 + index * 8) = 3) 3 = Some 2"
    by (simp add: first_index_def sample_indices sample_reads)
  then have descriptor: "type_descriptor sample_image 120 3 296 3 = Some (280, 296)"
    by (simp add: type_descriptor_def sample_reads)
  have child: "validate_representation sample_image 296 288 (Suc 0) = Inr 296"
    by (simp add: validate_representation_def representation_walk.simps(2) [of 63, simplified]
        representation_valid_def sample_reads)
  have item: "validate_value_inner sample_image 296 288 sample_list 16 8 (Suc 0) = Inr (296, 16)"
    by (simp add: validate_value_inner_def value_walk.simps(2) [of 63, simplified])
  have head: "read_u32 sample_list 0 = 1" "read_u32 sample_list 4 = 0" "length sample_list = 16"
    by (simp_all add: sample_list_def read_u32_def)
  have fields: "unat (read_u32 sample_image 44) = 120" "unat (read_u16 sample_image 34) = 3"
      "unat (read_u32 sample_image 60) = 296" "read_u32 sample_image 284 = 4"
    by (simp_all add: sample_reads)
  show ?thesis
    by (simp add: hermas_image_list_items_def validate_sample list_items_def fields descriptor head child
        list_item_step_def item)
qed

section \<open>Witnesses\<close>

theorem list_items_slices_witness:
  "\<exists>bound t vs. image_type sample_image 3 (TList bound t) \<and> has_type (TList bound t) (VList vs) \<and>
    sample_list = val_bytes (VList vs) \<and> length vs = 1 \<and> chunk sample_list 8 8 = val_bytes (vs ! 0)"
  using list_items_slices [OF list_items_sample] by fastforce

theorem image_graph_complete_witness:
  "edges_with (\<lambda>e. ie_source_kind e = 0) (image_edges sample_image sample_header) = 1 \<and>
   edges_with (enters 1) (image_edges sample_image sample_header) = 1 \<and>
   edges_with (leaves 1 1) (image_edges sample_image sample_header) = 1 \<and>
   edges_with (leaves 2 1) (image_edges sample_image sample_header) = 1 \<and>
   edges_with (leaves 3 1) (image_edges sample_image sample_header) = 1 \<and>
   edges_with (leaves 4 1) (image_edges sample_image sample_header) = 1"
  using image_graph_complete [of sample_image 297 1]
  by (simp add: validate_sample read_header_sample node_kind_def)

theorem all_reachable_iff_witness:
  "list_all (graph_reachable no_regions (image_edges sample_image sample_header)) [1..<6]"
proof -
  have "all_reachable sample_image sample_header no_regions sample_tables"
    by (rule image_check_stages(13) [OF image_check_sample])
  then show ?thesis
    using all_reachable_iff [OF check_regions_sample check_edges_sample] by (simp only: sample_header_fields) simp
qed

end
