(* ===== verification/Hermas_Each_Samples.thy ===== *)
theory Hermas_Each_Samples
  imports Hermas_Group_Delivery Hermas_Image_Samples
begin

text \<open>
  A second sample image, with an each region: its input is a list of up to two integers, both of which
  may be with the Action at the same time, and its result is the list of their results. The image is
  validated in the kernel.
\<close>

definition each_image :: bytes where
  "each_image =
   [
    72, 71, 73, 49, 1, 0, 80, 0, 73, 1, 0, 0, 0, 0, 0, 0,
    72, 1, 0, 0, 1, 0, 2, 0, 2, 0, 1, 0, 1, 0, 5, 0,
    7, 0, 2, 0, 80, 0, 0, 0, 84, 0, 0, 0, 120, 0, 0, 0,
    136, 0, 0, 0, 176, 0, 0, 0, 48, 1, 0, 0, 72, 1, 0, 0,
    24, 0, 0, 0, 1, 0, 0, 0, 32, 1, 0, 0, 0, 0, 0, 0,
    1, 0, 0, 0, 7, 0, 9, 0, 0, 1, 2, 3, 4, 5, 6, 7,
    8, 9, 10, 11, 12, 13, 14, 15, 16, 17, 18, 19, 20, 21, 22, 23,
    24, 25, 26, 27, 28, 29, 30, 31, 1, 0, 0, 0, 48, 1, 0, 0,
    2, 0, 0, 0, 56, 1, 0, 0, 1, 0, 9, 0, 7, 0, 0, 0,
    2, 1, 0, 0, 0, 0, 0, 0, 2, 2, 0, 0, 0, 0, 0, 0,
    2, 3, 0, 0, 0, 0, 0, 0, 2, 4, 0, 0, 0, 0, 0, 0,
    0, 6, 0, 0, 0, 0, 1, 0, 2, 0, 2, 0, 0, 0, 0, 0,
    8, 1, 0, 0, 1, 0, 1, 0, 1, 0, 1, 0, 0, 0, 0, 0,
    1, 7, 0, 0, 1, 0, 1, 0, 1, 0, 1, 0, 0, 0, 0, 0,
    9, 2, 0, 0, 1, 0, 2, 0, 2, 0, 2, 0, 0, 0, 0, 0,
    2, 2, 0, 0, 1, 0, 3, 0, 1, 0, 1, 0, 0, 0, 0, 0,
    3, 2, 0, 0, 1, 0, 4, 0, 0, 0, 0, 0, 0, 0, 0, 0,
    4, 2, 0, 0, 1, 0, 5, 0, 0, 0, 0, 0, 0, 0, 0, 0,
    2, 2, 1, 0, 2, 0, 1, 0, 1, 0, 2, 0, 2, 0, 0, 0,
    2, 0, 0, 0, 0, 0, 0, 0, 7, 0, 1, 0, 2, 0, 0, 0,
    2, 0, 0, 0, 0, 0, 0, 0, 101]"

lemma each_byte [simp]:
  "each_image ! 0 = 72" "each_image ! Suc 0 = 71" "each_image ! 2 = 73" "each_image ! 3 = 49"
  "each_image ! 4 = 1" "each_image ! 5 = 0" "each_image ! 6 = 80" "each_image ! 7 = 0"
  "each_image ! 8 = 73" "each_image ! 9 = 1" "each_image ! 10 = 0" "each_image ! 11 = 0"
  "each_image ! 12 = 0" "each_image ! 13 = 0" "each_image ! 14 = 0" "each_image ! 15 = 0"
  "each_image ! 16 = 72" "each_image ! 17 = 1" "each_image ! 18 = 0" "each_image ! 19 = 0"
  "each_image ! 20 = 1" "each_image ! 21 = 0" "each_image ! 22 = 2" "each_image ! 23 = 0"
  "each_image ! 24 = 2" "each_image ! 25 = 0" "each_image ! 26 = 1" "each_image ! 27 = 0"
  "each_image ! 28 = 1" "each_image ! 29 = 0" "each_image ! 30 = 5" "each_image ! 31 = 0"
  "each_image ! 32 = 7" "each_image ! 33 = 0" "each_image ! 34 = 2" "each_image ! 35 = 0"
  "each_image ! 36 = 80" "each_image ! 37 = 0" "each_image ! 38 = 0" "each_image ! 39 = 0"
  "each_image ! 40 = 84" "each_image ! 41 = 0" "each_image ! 42 = 0" "each_image ! 43 = 0"
  "each_image ! 44 = 120" "each_image ! 45 = 0" "each_image ! 46 = 0" "each_image ! 47 = 0"
  "each_image ! 48 = 136" "each_image ! 49 = 0" "each_image ! 50 = 0" "each_image ! 51 = 0"
  "each_image ! 52 = 176" "each_image ! 53 = 0" "each_image ! 54 = 0" "each_image ! 55 = 0"
  "each_image ! 56 = 48" "each_image ! 57 = 1" "each_image ! 58 = 0" "each_image ! 59 = 0"
  "each_image ! 60 = 72" "each_image ! 61 = 1" "each_image ! 62 = 0" "each_image ! 63 = 0"
  "each_image ! 64 = 24" "each_image ! 65 = 0" "each_image ! 66 = 0" "each_image ! 67 = 0"
  "each_image ! 68 = 1" "each_image ! 69 = 0" "each_image ! 70 = 0" "each_image ! 71 = 0"
  "each_image ! 72 = 32" "each_image ! 73 = 1" "each_image ! 74 = 0" "each_image ! 75 = 0"
  "each_image ! 76 = 0" "each_image ! 77 = 0" "each_image ! 78 = 0" "each_image ! 79 = 0"
  "each_image ! 80 = 1" "each_image ! 81 = 0" "each_image ! 82 = 0" "each_image ! 83 = 0"
  "each_image ! 84 = 7" "each_image ! 85 = 0" "each_image ! 86 = 9" "each_image ! 87 = 0"
  "each_image ! 88 = 0" "each_image ! 89 = 1" "each_image ! 90 = 2" "each_image ! 91 = 3"
  "each_image ! 92 = 4" "each_image ! 93 = 5" "each_image ! 94 = 6" "each_image ! 95 = 7"
  "each_image ! 96 = 8" "each_image ! 97 = 9" "each_image ! 98 = 10" "each_image ! 99 = 11"
  "each_image ! 100 = 12" "each_image ! 101 = 13" "each_image ! 102 = 14" "each_image ! 103 = 15"
  "each_image ! 104 = 16" "each_image ! 105 = 17" "each_image ! 106 = 18" "each_image ! 107 = 19"
  "each_image ! 108 = 20" "each_image ! 109 = 21" "each_image ! 110 = 22" "each_image ! 111 = 23"
  "each_image ! 112 = 24" "each_image ! 113 = 25" "each_image ! 114 = 26" "each_image ! 115 = 27"
  "each_image ! 116 = 28" "each_image ! 117 = 29" "each_image ! 118 = 30" "each_image ! 119 = 31"
  "each_image ! 120 = 1" "each_image ! 121 = 0" "each_image ! 122 = 0" "each_image ! 123 = 0"
  "each_image ! 124 = 48" "each_image ! 125 = 1" "each_image ! 126 = 0" "each_image ! 127 = 0"
  "each_image ! 128 = 2" "each_image ! 129 = 0" "each_image ! 130 = 0" "each_image ! 131 = 0"
  "each_image ! 132 = 56" "each_image ! 133 = 1" "each_image ! 134 = 0" "each_image ! 135 = 0"
  "each_image ! 136 = 1" "each_image ! 137 = 0" "each_image ! 138 = 9" "each_image ! 139 = 0"
  "each_image ! 140 = 7" "each_image ! 141 = 0" "each_image ! 142 = 0" "each_image ! 143 = 0"
  "each_image ! 144 = 2" "each_image ! 145 = 1" "each_image ! 146 = 0" "each_image ! 147 = 0"
  "each_image ! 148 = 0" "each_image ! 149 = 0" "each_image ! 150 = 0" "each_image ! 151 = 0"
  "each_image ! 152 = 2" "each_image ! 153 = 2" "each_image ! 154 = 0" "each_image ! 155 = 0"
  "each_image ! 156 = 0" "each_image ! 157 = 0" "each_image ! 158 = 0" "each_image ! 159 = 0"
  "each_image ! 160 = 2" "each_image ! 161 = 3" "each_image ! 162 = 0" "each_image ! 163 = 0"
  "each_image ! 164 = 0" "each_image ! 165 = 0" "each_image ! 166 = 0" "each_image ! 167 = 0"
  "each_image ! 168 = 2" "each_image ! 169 = 4" "each_image ! 170 = 0" "each_image ! 171 = 0"
  "each_image ! 172 = 0" "each_image ! 173 = 0" "each_image ! 174 = 0" "each_image ! 175 = 0"
  "each_image ! 176 = 0" "each_image ! 177 = 6" "each_image ! 178 = 0" "each_image ! 179 = 0"
  "each_image ! 180 = 0" "each_image ! 181 = 0" "each_image ! 182 = 1" "each_image ! 183 = 0"
  "each_image ! 184 = 2" "each_image ! 185 = 0" "each_image ! 186 = 2" "each_image ! 187 = 0"
  "each_image ! 188 = 0" "each_image ! 189 = 0" "each_image ! 190 = 0" "each_image ! 191 = 0"
  "each_image ! 192 = 8" "each_image ! 193 = 1" "each_image ! 194 = 0" "each_image ! 195 = 0"
  "each_image ! 196 = 1" "each_image ! 197 = 0" "each_image ! 198 = 1" "each_image ! 199 = 0"
  "each_image ! 200 = 1" "each_image ! 201 = 0" "each_image ! 202 = 1" "each_image ! 203 = 0"
  "each_image ! 204 = 0" "each_image ! 205 = 0" "each_image ! 206 = 0" "each_image ! 207 = 0"
  "each_image ! 208 = 1" "each_image ! 209 = 7" "each_image ! 210 = 0" "each_image ! 211 = 0"
  "each_image ! 212 = 1" "each_image ! 213 = 0" "each_image ! 214 = 1" "each_image ! 215 = 0"
  "each_image ! 216 = 1" "each_image ! 217 = 0" "each_image ! 218 = 1" "each_image ! 219 = 0"
  "each_image ! 220 = 0" "each_image ! 221 = 0" "each_image ! 222 = 0" "each_image ! 223 = 0"
  "each_image ! 224 = 9" "each_image ! 225 = 2" "each_image ! 226 = 0" "each_image ! 227 = 0"
  "each_image ! 228 = 1" "each_image ! 229 = 0" "each_image ! 230 = 2" "each_image ! 231 = 0"
  "each_image ! 232 = 2" "each_image ! 233 = 0" "each_image ! 234 = 2" "each_image ! 235 = 0"
  "each_image ! 236 = 0" "each_image ! 237 = 0" "each_image ! 238 = 0" "each_image ! 239 = 0"
  "each_image ! 240 = 2" "each_image ! 241 = 2" "each_image ! 242 = 0" "each_image ! 243 = 0"
  "each_image ! 244 = 1" "each_image ! 245 = 0" "each_image ! 246 = 3" "each_image ! 247 = 0"
  "each_image ! 248 = 1" "each_image ! 249 = 0" "each_image ! 250 = 1" "each_image ! 251 = 0"
  "each_image ! 252 = 0" "each_image ! 253 = 0" "each_image ! 254 = 0" "each_image ! 255 = 0"
  "each_image ! 256 = 3" "each_image ! 257 = 2" "each_image ! 258 = 0" "each_image ! 259 = 0"
  "each_image ! 260 = 1" "each_image ! 261 = 0" "each_image ! 262 = 4" "each_image ! 263 = 0"
  "each_image ! 264 = 0" "each_image ! 265 = 0" "each_image ! 266 = 0" "each_image ! 267 = 0"
  "each_image ! 268 = 0" "each_image ! 269 = 0" "each_image ! 270 = 0" "each_image ! 271 = 0"
  "each_image ! 272 = 4" "each_image ! 273 = 2" "each_image ! 274 = 0" "each_image ! 275 = 0"
  "each_image ! 276 = 1" "each_image ! 277 = 0" "each_image ! 278 = 5" "each_image ! 279 = 0"
  "each_image ! 280 = 0" "each_image ! 281 = 0" "each_image ! 282 = 0" "each_image ! 283 = 0"
  "each_image ! 284 = 0" "each_image ! 285 = 0" "each_image ! 286 = 0" "each_image ! 287 = 0"
  "each_image ! 288 = 2" "each_image ! 289 = 2" "each_image ! 290 = 1" "each_image ! 291 = 0"
  "each_image ! 292 = 2" "each_image ! 293 = 0" "each_image ! 294 = 1" "each_image ! 295 = 0"
  "each_image ! 296 = 1" "each_image ! 297 = 0" "each_image ! 298 = 2" "each_image ! 299 = 0"
  "each_image ! 300 = 2" "each_image ! 301 = 0" "each_image ! 302 = 0" "each_image ! 303 = 0"
  "each_image ! 304 = 2" "each_image ! 305 = 0" "each_image ! 306 = 0" "each_image ! 307 = 0"
  "each_image ! 308 = 0" "each_image ! 309 = 0" "each_image ! 310 = 0" "each_image ! 311 = 0"
  "each_image ! 312 = 7" "each_image ! 313 = 0" "each_image ! 314 = 1" "each_image ! 315 = 0"
  "each_image ! 316 = 2" "each_image ! 317 = 0" "each_image ! 318 = 0" "each_image ! 319 = 0"
  "each_image ! 320 = 2" "each_image ! 321 = 0" "each_image ! 322 = 0" "each_image ! 323 = 0"
  "each_image ! 324 = 0" "each_image ! 325 = 0" "each_image ! 326 = 0" "each_image ! 327 = 0"
  "each_image ! 328 = 101"
  by (simp_all add: each_image_def)

definition each_header :: image_header where
  "each_header =
    \<lparr>ih_name_offset = 328, ih_name_length = 1, ih_input_type = 2,
     ih_success_type = 2, ih_error_count = 1, ih_contract_count = 1,
     ih_node_count = 5, ih_edge_count = 7, ih_type_count = 2,
     ih_region_count = 1, ih_errors = 80, ih_contracts = 84,
     ih_types = 120, ih_nodes = 136, ih_edges = 176,
     ih_representations = 304, ih_strings = 328,
     ih_representations_length = 24, ih_regions = 288\<rparr>"

lemma each_header_fields [simp]:
  "ih_name_offset each_header = 328" "ih_name_length each_header = 1"
  "ih_input_type each_header = 2" "ih_success_type each_header = 2"
  "ih_error_count each_header = 1" "ih_contract_count each_header = 1"
  "ih_node_count each_header = 5" "ih_edge_count each_header = 7"
  "ih_type_count each_header = 2" "ih_region_count each_header = 1"
  "ih_errors each_header = 80" "ih_contracts each_header = 84" "ih_types each_header = 120"
  "ih_nodes each_header = 136" "ih_edges each_header = 176"
  "ih_representations each_header = 304" "ih_strings each_header = 328"
  "ih_representations_length each_header = 24" "ih_regions each_header = 288"
  by (simp_all add: each_header_def)

lemma length_each [simp]: "length each_image = 329"
  by (simp add: each_image_def)

lemma read_header_each: "read_header each_image = each_header"
  by (simp add: read_header_def each_header_def sample_reads)

lemma check_header_each: "check_header each_image 329 = Inr each_header"
proof -
  have "chunk each_image 0 4 = image_magic"
    by (simp add: list_eq_iff_nth_eq image_magic_def numeral_eq_Suc less_Suc_eq all_conj_distrib)
       (simp add: each_image_def)
  moreover have "counts_valid each_header" by (simp add: counts_valid_def)
  ultimately show ?thesis
    by (simp add: check_header_def sample_reads read_header_each)
qed

lemma offsets_valid_each: "offsets_valid 329 each_header"
  by (simp add: offsets_valid_def expected_contracts_def checked_table_end_def SIZE_MAX_def)

lemma name_valid_each: "name_valid each_image each_header"
  by (simp add: name_valid_def chunk_Cons utf8_first_def)

lemma check_errors_each: "check_errors each_image each_header = Inr ()"
  by (simp add: check_errors_def sample_reads)

lemma check_contracts_each: "check_contracts each_image each_header = Inr ()"
  by (simp add: check_contracts_def sample_reads)

lemma each_representations:
  "validate_representation each_image 328 304 0 = Inr 312"
  "validate_representation each_image 328 312 0 = Inr 328"
  "validate_representation each_image 328 320 (Suc 0) = Inr 328"
  by (simp_all add: validate_representation_def representation_walk.simps(2) [of 64, simplified]
      representation_walk.simps(2) [of 63, simplified] representation_valid_def sample_reads)

lemma known_type_each [simp]: "known_type each_image each_header 1" "known_type each_image each_header 2"
  by (simp_all add: known_type_def contains_u16_def sample_reads upt_rec)

lemma each_indices: "[0..<7] = [0, 1, 2, 3, 4, 5, 6::nat]" "[0..<6] = [0, 1, 2, 3, 4, 5::nat]"
  "[0..<8] = [0, 1, 2, 3, 4, 5, 6, 7::nat]" "[Suc 0..<2] = [1]"
  by (simp_all add: upt_rec)

lemma check_types_each: "check_types each_image each_header = Inr ()"
  by (simp add: check_types_def check_type_def sample_indices sample_reads each_representations)

definition each_nodes :: node_tables where
  "each_nodes = no_nodes\<lparr>nt_action := (\<lambda>_. False)(1 := True),
     nt_terminal := (\<lambda>_. 0)(2 := 1, 3 := 2, 4 := 3, 5 := 4),
     nt_terminal_kinds := (\<lambda>_. False)(1 := True, 2 := True, 3 := True, 4 := True)\<rparr>"

lemma check_nodes_each: "check_nodes each_image each_header = Inr each_nodes"
  by (simp add: check_nodes_def check_node_def sample_indices sample_reads no_nodes_def
      contains_action_contract_def each_nodes_def)

lemma each_descriptors:
  "image_descriptor each_image each_header 1 = Some (304, 312)"
  "image_descriptor each_image each_header 2 = Some (312, 328)"
  by (simp_all add: image_descriptor_def type_descriptor_def first_index_def sample_indices sample_reads)

definition each_regions :: region_tables where
  "each_regions = no_regions\<lparr>rt_each_count := 1, rt_each_template := (\<lambda>_. 0)(1 := 1),
     rt_each_source_list := (\<lambda>_. 0)(1 := 2), rt_each_item_input := (\<lambda>_. 0)(1 := 1),
     rt_each_item_output := (\<lambda>_. 0)(1 := 1), rt_each_collected := (\<lambda>_. 0)(1 := 2),
     rt_each_bound := (\<lambda>_. 0)(1 := 2), rt_each_concurrency := (\<lambda>_. 0)(1 := 2)\<rparr>"

lemma check_regions_each: "check_regions each_image each_header each_nodes = Inr each_regions"
proof -
  have "chunk each_image 320 8 = chunk each_image 304 8" by (simp add: chunk_def each_image_def)
  then have "list_of_items each_image each_header 2 1 P \<longleftrightarrow> P 2" for P
    by (simp add: list_of_items_def each_descriptors sample_reads representation_child_def
        each_representations same_representation_def)
  then show ?thesis
    by (simp add: check_regions_def check_region_def check_each_def sample_reads each_nodes_def no_nodes_def
        each_regions_def no_regions_def)
qed

lemma each_edges:
  "read_edge each_image each_header 0 = sample_edge 0 6 0 1 2"
  "read_edge each_image each_header (Suc 0) = sample_edge 8 1 1 1 1"
  "read_edge each_image each_header 2 = sample_edge 1 7 1 1 1"
  "read_edge each_image each_header 3 = sample_edge 9 2 1 2 2"
  "read_edge each_image each_header 4 = sample_edge 2 2 1 3 1"
  "read_edge each_image each_header 5 = sample_edge 3 2 1 4 0"
  "read_edge each_image each_header 6 = sample_edge 4 2 1 5 0"
  by (simp_all add: read_edge_def sample_edge_def sample_reads)

definition each_tables :: edge_tables where
  "each_tables = no_edges\<lparr>et_input := (\<lambda>_. 0)(1 := 1), et_success := (\<lambda>_. 0)(1 := 1),
     et_error := (\<lambda>_. 0)(1 := 1), et_not_sent := (\<lambda>_. 0)(1 := 1), et_unknown := (\<lambda>_. 0)(1 := 1),
     et_each_input := (\<lambda>_. 0)(1 := 1), et_each_collect := (\<lambda>_. 0)(1 := 1),
     et_each_item := (\<lambda>_. 0)(1 := 1), et_each_output := (\<lambda>_. 0)(1 := 1),
     et_action_success_type := (\<lambda>_. 0)(1 := 1), et_reachable := (\<lambda>_. False)(1 := True),
     et_workflow_input := 1\<rparr>"

lemma check_edges_each:
  "check_edges each_image each_header each_nodes each_regions = Inr each_tables"
  by (simp add: check_edges_def check_edge_def sample_indices each_indices each_edges sample_edge_def sample_reads
      valid_source_def valid_target_def valid_presentation_def same_edge_def count_target_def
      count_source_def bump_def graph_target_def no_edges_def each_nodes_def each_tables_def each_regions_def
      no_regions_def contains_u16_def valid_dispatch_source_def Let_def)

lemma image_check_each:
  "image_check each_image 329 = Inr (each_header, each_nodes, each_regions, each_tables)"
proof -
  have "list_all (node_topology each_nodes each_regions each_tables) [1..<ih_node_count each_header + 1]"
    by (simp add: sample_indices node_topology_def each_nodes_def no_nodes_def no_regions_def each_regions_def
        each_tables_def no_edges_def)
  moreover have "saga_topology each_header each_nodes each_regions"
    by (simp add: saga_topology_def each_regions_def no_regions_def)
  moreover have "each_topology each_regions each_tables"
    by (simp add: each_topology_def each_regions_def no_regions_def each_tables_def sample_indices each_indices)
  moreover have "all_reachable each_image each_header each_regions each_tables"
    by (simp add: all_reachable_def image_edges_def sample_indices each_indices each_edges sample_edge_def
        each_tables_def no_edges_def each_regions_def no_regions_def Let_def reach_passes.simps(2) [of 4, simplified]
        reach_passes.simps(2) [of 3, simplified] reach_pass_def reach_edge_def graph_source_def
        graph_target_def)
  ultimately show ?thesis
    by (simp add: image_check_def check_header_each offsets_valid_each name_valid_each
        check_errors_each check_contracts_each check_types_each check_nodes_each
        check_regions_each check_edges_each)
qed

lemma validate_each:
  "hermas_image_validate (Some each_image) 329 summary =
    (HERMAS_IMAGE_OK, case summary of None \<Rightarrow> None | Some _ \<Rightarrow> Some (image_summary each_image each_header))"
  by (simp add: hermas_image_validate_def image_check_each)

end
