(* ===== verification/Hermas_Runtime_Samples.thy ===== *)
theory Hermas_Runtime_Samples
  imports Hermas_Runtime_Run Hermas_Image_Samples
begin

text \<open>
  A sequential execution of the sample image, evaluated in the kernel: start, one delivery, its
  result. The witnesses of the properties of runs.
\<close>

definition sample_value :: bytes where
  "sample_value = [42, 0, 0, 0, 0, 0, 0, 0]"

definition sample_buffer :: bytes where
  "sample_buffer = replicate 16 0"

definition sample_execution :: "hermas_execution_state \<Rightarrow> hermas_execution" where
  "sample_execution state =
    \<lparr>ex_image = sample_image, ex_image_size = 297, ex_value_buffer = Some (write_bytes sample_buffer 0 sample_value),
     ex_value_capacity = 16, ex_value_length = 8, ex_execution_id = 5, ex_request_id = 1,
     ex_current_node = 1, ex_value_source_type = 1, ex_value_destination_type = 1,
     ex_terminal_outcome = 0, ex_state = state\<rparr>"

definition sample_result :: hermas_frame where
  "sample_result =
    \<lparr>fr_kind = HERMAS_FRAME_RESULT, fr_execution_id = 5, fr_request_id = 1, fr_app_id = 7,
     fr_action_id = 9, fr_source_type = 1, fr_destination_type = 1, fr_outcome = 1,
     fr_payload = Some sample_value, fr_payload_length = 8\<rparr>"

lemma sample_fields [simp]:
  "unat (read_u16 sample_image 32) = 5" "unat (read_u32 sample_image 52) = 184"
  "unat (read_u32 sample_image 48) = 144" "unat (read_u16 sample_image 34) = 3"
  "unat (read_u32 sample_image 44) = 120" "unat (read_u32 sample_image 60) = 296"
  by (simp_all add: sample_reads)

lemma sample_conforms:
  "hermas_image_validate_value (Some sample_image) 297 1 (Some sample_value) 8 = HERMAS_IMAGE_OK"
proof -
  have "first_index (\<lambda>index. read_u16 sample_image (120 + index * 8) = 1) 3 = Some 0"
    by (simp add: first_index_def sample_indices sample_reads)
  moreover have "validate_value_inner sample_image 296 264 sample_value 8 0 0 = Inr (272, 8)"
    by (simp add: validate_value_inner_def value_walk.simps(2) [of 64, simplified])
  moreover have "unat (read_u32 sample_image 124) = 264" by (simp add: sample_reads)
  ultimately show ?thesis
    by (simp add: hermas_image_validate_value_def validate_sample value_conforms_def payload_bytes_def)
qed

lemma sample_first_edge:
  "first_edge sample_image P = (if P 184 then Some 184 else if P 200 then Some 200
     else if P 216 then Some 216 else if P 232 then Some 232 else if P 248 then Some 248 else None)"
  by (simp add: first_edge_def first_index_def sample_indices)

lemma sample_start:
  "hermas_execution_start (Some (sample_execution HERMAS_EXECUTION_EMPTY)) (Some sample_image) 297 5
     (Some sample_buffer) 16 1 (Some sample_value) 8 =
   (HERMAS_RUNTIME_OK, Some (sample_execution HERMAS_EXECUTION_READY))"
  by (simp add: hermas_execution_start_def execution_admit_def validate_sample image_summary_def
      sample_conforms [unfolded sample_value_def] fresh_execution_def copy_value_def find_edge_def sample_first_edge enter_edge.simps
      sample_execution_def sample_reads sample_value_def)

lemma sample_prepare:
  "execution_call Prepare (sample_execution HERMAS_EXECUTION_READY) =
    (HERMAS_RUNTIME_OK, Some (sample_execution HERMAS_EXECUTION_PREPARED),
     [invocation_frame (sample_execution HERMAS_EXECUTION_READY) 144])"
  by (simp add: execution_call_def hermas_execution_prepare_def sample_execution_def node_offset_def node_record_def)

lemma sample_mark_sent:
  "execution_call Mark_sent (sample_execution HERMAS_EXECUTION_PREPARED) =
    (HERMAS_RUNTIME_OK, Some (sample_execution HERMAS_EXECUTION_SENT), [])"
  by (simp add: execution_call_def hermas_execution_mark_sent_def sample_execution_def)

definition sample_complete :: hermas_execution where
  "sample_complete = (sample_execution HERMAS_EXECUTION_COMPLETE)
     \<lparr>ex_current_node := 2, ex_terminal_outcome := 1\<rparr>"

lemma sample_accept:
  "hermas_execution_accept_result (Some (sample_execution HERMAS_EXECUTION_SENT)) (Some sample_result) =
    (HERMAS_RUNTIME_OK, Some sample_complete)"
  by (simp add: hermas_execution_accept_result_def execution_accept_result_def sample_execution_def
      sample_result_def result_expected_def node_offset_def node_record_def sample_reads find_edge_def
      sample_first_edge sample_conforms [unfolded sample_value_def] copy_value_def enter_edge.simps sample_complete_def sample_value_def
      sample_buffer_def write_bytes_def)

lemma sample_run:
  "execution_run [Prepare, Mark_sent, Accept_result sample_result] (sample_execution HERMAS_EXECUTION_READY) =
    ([HERMAS_RUNTIME_OK, HERMAS_RUNTIME_OK, HERMAS_RUNTIME_OK],
     [invocation_frame (sample_execution HERMAS_EXECUTION_READY) 144], sample_complete)"
  using sample_accept by (simp add: sample_prepare sample_mark_sent) (simp add: execution_call_def)


section \<open>Witnesses\<close>

theorem execution_run_bounded_witness:
  "delivered_nodes [Prepare, Mark_sent, Accept_result sample_result] (sample_execution HERMAS_EXECUTION_READY) = [1] \<and>
   invokes sample_image (invocation_frame (sample_execution HERMAS_EXECUTION_READY) 144) 1 \<and>
   length [invocation_frame (sample_execution HERMAS_EXECUTION_READY) 144] \<le> ih_node_count (read_header sample_image) \<and>
   list_all (\<lambda>f. fr_execution_id f = 5 \<and> fr_request_id f \<noteq> 0)
     [invocation_frame (sample_execution HERMAS_EXECUTION_READY) 144]"
proof -
  have "delivered_nodes [Prepare, Mark_sent, Accept_result sample_result] (sample_execution HERMAS_EXECUTION_READY) = [1]"
    using sample_accept
    by (simp add: sample_prepare sample_mark_sent) (simp add: execution_call_def sample_execution_def)
  then show ?thesis using execution_run_bounded [OF sample_start _ sample_run] length_sample by simp
qed

theorem execution_value_bounds_witness:
  "ex_value_length sample_complete \<le> 16 \<and>
   (\<exists>b. ex_value_buffer sample_complete = Some b \<and> length b = length sample_buffer \<and>
      drop 16 b = drop 16 sample_buffer)"
  using execution_value_bounds [OF sample_start _ sample_run] by (simp add: sample_buffer_def)

theorem execution_invocations_encode_witness:
  "fst (hermas_protocol_encode (Some (invocation_frame (sample_execution HERMAS_EXECUTION_READY) 144))
     (Some (replicate 65536 0)) (Some 0)) = HERMAS_PROTOCOL_OK"
  using execution_invocations_encode [OF sample_start _ _ sample_run, of
      "invocation_frame (sample_execution HERMAS_EXECUTION_READY) 144" "replicate 65536 0" 0]
  by (simp add: sample_buffer_def)

theorem accept_result_routes_witness:
  "fr_request_id sample_result = ex_request_id (sample_execution HERMAS_EXECUTION_SENT) \<and>
   ex_state sample_complete = HERMAS_EXECUTION_COMPLETE \<and>
   (\<exists>q \<in> set (image_edges sample_image sample_header). \<exists>p w. ie_source_kind q = 1 \<and> ie_source_node q = 1 \<and>
      dispatched sample_image 297 q sample_value p w \<and> value_of sample_complete = w \<and>
      ex_value_destination_type sample_complete = ie_target_type p)"
proof -
  have "ex_state sample_complete = HERMAS_EXECUTION_COMPLETE" by (simp add: sample_complete_def sample_execution_def)
  then show ?thesis
    using accept_result_routes [OF sample_accept, of "write_bytes sample_buffer 0 sample_value" sample_value]
    by (simp add: sample_execution_def sample_result_def sample_buffer_def sample_value_def read_header_sample) blast
qed

end
