(* ===== verification/Hermas_Group_Termination.thy ===== *)
theory Hermas_Group_Termination
  imports Hermas_Group_Delivery
begin

text \<open>
  The calls of the group runtime return. The static functions of \<open>src/runtime.c\<close> call each other in a
  cycle through \<open>group_enter_edge\<close>, which the model bounds by a depth. The graph of a workflow is
  acyclic (rule 14 of \<open>docs/GRAPH_INVARIANTS.md\<close>). Here this is only asked of the positions that a call
  passes without an Action in between: then one bound on the depth is enough for every
  call on every state, and a deeper bound changes nothing.
\<close>

section \<open>A deeper bound changes nothing\<close>

definition extends :: "group_enter \<Rightarrow> group_enter \<Rightarrow> bool" where
  "extends enter enter' \<longleftrightarrow>
     (\<forall>g i edge outcome x. enter g i edge outcome = Some x \<longrightarrow> enter' g i edge outcome = Some x)"

lemma extendsD: "extends enter enter' \<Longrightarrow> enter g i edge outcome = Some x \<Longrightarrow> enter' g i edge outcome = Some x"
  unfolding extends_def by blast

lemma and_then_extends:
  assumes "and_then m f = Some x" and "\<And>y. m = Some y \<Longrightarrow> m' = Some y" and "\<And>g. f g = Some x \<Longrightarrow> f' g = Some x"
  shows "and_then m' f' = Some x"
  using assms by (cases m) (auto simp: and_then_def split: if_splits)

lemma each_finish_extends:
  "extends enter enter' \<Longrightarrow> group_each_finish enter g = Some x \<Longrightarrow> group_each_finish enter' g = Some x"
  unfolding group_each_finish_def Let_def by (auto split: if_splits option.splits prod.splits dest: extendsD)

lemma admit_items_extends:
  assumes "extends enter enter'"
  shows "group_admit_items n enter region g = Some x \<Longrightarrow> n \<le> m \<Longrightarrow> group_admit_items m enter' region g = Some x"
proof (induction n arbitrary: m g)
  case (Suc n)
  then obtain m' where m: "m = Suc m'" "n \<le> m'" by (cases m) auto
  have "and_then (enter' g1 slot edge HERMAS_OUTCOME_NONE) (group_admit_items m' enter' region) = Some x"
    if "and_then (enter g1 slot edge HERMAS_OUTCOME_NONE) (group_admit_items n enter region) = Some x" for g1 slot edge
    using that by (rule and_then_extends) (use extendsD [OF assms] Suc.IH m(2) in auto)
  then show ?case
    using Suc.prems(1) unfolding m(1) by (auto split: if_splits option.splits prod.splits)
qed simp

lemma each_admit_extends:
  "extends enter enter' \<Longrightarrow> group_each_admit n enter g = Some x \<Longrightarrow> n \<le> m \<Longrightarrow> group_each_admit m enter' g = Some x"
  by (auto simp: group_each_admit_def Let_def split: if_splits intro: admit_items_extends)

lemma each_collect_extends:
  "extends enter enter' \<Longrightarrow> group_each_collect n enter g i region = Some x \<Longrightarrow> n \<le> m \<Longrightarrow>
   group_each_collect m enter' g i region = Some x"
  unfolding group_each_collect_def Let_def
  by (auto split: if_splits prod.splits intro: each_finish_extends each_admit_extends)

lemma each_start_extends:
  "extends enter enter' \<Longrightarrow> group_each_start n enter g i region = Some x \<Longrightarrow> n \<le> m \<Longrightarrow>
   group_each_start m enter' g i region = Some x"
  unfolding group_each_start_def Let_def
  by (auto split: if_splits prod.splits intro: each_finish_extends each_admit_extends)

lemma route_dispatch_extends:
  "extends enter enter' \<Longrightarrow> group_route_dispatch enter g i node outcome = Some x \<Longrightarrow>
   group_route_dispatch enter' g i node outcome = Some x"
  unfolding group_route_dispatch_def Let_def by (auto split: if_splits option.splits dest: extendsD)

lemma join_outputs_extends:
  assumes "extends enter enter'"
  shows "group_join_outputs enter node branches g = Some x \<Longrightarrow> group_join_outputs enter' node branches g = Some x"
proof (induction branches arbitrary: g)
  case (Cons branch branches)
  obtain tag i where branch: "branch = (tag, i)" by fastforce
  have "and_then (enter' g i edge HERMAS_OUTCOME_SUCCESS) (group_join_outputs enter' node branches) = Some x"
    if "and_then (enter g i edge HERMAS_OUTCOME_SUCCESS) (group_join_outputs enter node branches) = Some x" for edge
    using that by (rule and_then_extends) (use extendsD [OF assms] Cons.IH in auto)
  then show ?case using Cons by (auto simp: branch split: option.splits)
qed simp

lemma resolve_join_extends:
  "extends enter enter' \<Longrightarrow> group_resolve_join enter g node = Some x \<Longrightarrow> group_resolve_join enter' g node = Some x"
  unfolding group_resolve_join_def Let_def by (auto split: if_splits intro: join_outputs_extends)

lemma fork_outputs_extends:
  assumes "extends enter enter'"
  shows "group_fork_outputs enter node branches g = Some x \<Longrightarrow> group_fork_outputs enter' node branches g = Some x"
proof (induction branches arbitrary: g)
  case (Cons branch branches)
  obtain tag i where branch: "branch = (tag, i)" by fastforce
  have "and_then (enter' g i edge HERMAS_OUTCOME_NONE) (group_fork_outputs enter' node branches) = Some x"
    if "and_then (enter g i edge HERMAS_OUTCOME_NONE) (group_fork_outputs enter node branches) = Some x" for edge
    using that by (rule and_then_extends) (use extendsD [OF assms] Cons.IH in auto)
  then show ?case using Cons by (auto simp: branch split: option.splits)
qed simp

lemma enter_fork_extends:
  "extends enter enter' \<Longrightarrow> group_enter_fork enter g i node = Some x \<Longrightarrow> group_enter_fork enter' g i node = Some x"
  unfolding group_enter_fork_def Let_def by (auto split: if_splits prod.splits intro: fork_outputs_extends)

lemmas calls_extend = each_collect_extends each_start_extends route_dispatch_extends resolve_join_extends
  enter_fork_extends

lemma enter_edge_extends: "extends (group_enter_edge n) (group_enter_edge (Suc n))"
proof (induction n)
  case 0
  show ?case by (simp add: extends_def)
next
  case (Suc n)
  note calls = calls_extend [OF Suc.IH]
  show ?case
    unfolding extends_def
  proof (intro allI impI)
    fix g i edge outcome x
    assume enter: "group_enter_edge (Suc n) g i edge outcome = Some x"
    show "group_enter_edge (Suc (Suc n)) g i edge outcome = Some x"
      using enter calls
      unfolding group_enter_edge.simps(2) [of n] group_enter_edge.simps(2) [of "Suc n"] Let_def
      by (simp split: if_splits)
  qed
qed

lemma enter_edge_mono:
  assumes "group_enter_edge n g i edge outcome = Some x" and "n \<le> m"
  shows "group_enter_edge m g i edge outcome = Some x"
  using assms(2,1) by (induction m rule: dec_induct) (auto intro: extendsD [OF enter_edge_extends])

section \<open>The positions a call passes\<close>

text \<open>
  The position that an edge leaves at once (a dispatch, fork or join node, as 3, 4 or 5 with the
  node, or an each region, as 6 with its number), the position that it enters, and the graph of both.
\<close>

type_synonym position = "u8 \<times> u16"

definition edge_from :: "bytes \<Rightarrow> nat \<Rightarrow> position option" where
  "edge_from img edge =
    (let kind = img ! edge; node = read_u16 img (edge + 4) in
     if kind = 5 then Some (3, node) else if kind = 6 then Some (4, node) else if kind = 7 then Some (5, node)
     else if kind = 8 \<or> kind = 9 then Some (6, node) else None)"

definition edge_into :: "bytes \<Rightarrow> nat \<Rightarrow> position option" where
  "edge_into img edge =
    (let kind = img ! (edge + 1); node = read_u16 img (edge + 6) in
     if kind = 6 \<or> kind = 7 then Some (6, ucast (ucast node :: u8))
     else if kind = 3 \<or> kind = 4 \<or> kind = 5 then Some (kind, node) else None)"

definition call_graph :: "bytes \<Rightarrow> (position \<times> position) set" where
  "call_graph img =
     {(p, q). \<exists>edge \<in> set (edge_offsets img). edge_from img edge = Some p \<and> edge_into img edge = Some q}"

text \<open>The rank of a position, and of the position an edge enters; Actions and terminals have rank 0.\<close>

definition call_rank :: "bytes \<Rightarrow> position \<Rightarrow> nat" where
  "call_rank img p = Suc (card ((call_graph img)\<^sup>+ `` {p}))"

definition entered_rank :: "bytes \<Rightarrow> nat \<Rightarrow> nat" where
  "entered_rank img edge = (case edge_into img edge of None \<Rightarrow> 0 | Some q \<Rightarrow> call_rank img q)"

lemma call_graph_range:
  "Range (call_graph img) \<subseteq> set (map (the \<circ> edge_into img) (edge_offsets img))"
  by (force simp: call_graph_def)

lemma reached_finite: "finite ((call_graph img)\<^sup>+ `` {p})"
  and reached_few: "card ((call_graph img)\<^sup>+ `` {p}) \<le> 65535"
proof -
  let ?ps = "map (the \<circ> edge_into img) (edge_offsets img)"
  have sub: "(call_graph img)\<^sup>+ `` {p} \<subseteq> set ?ps"
    using call_graph_range [of img] trancl_range [of "call_graph img"] by blast
  then show "finite ((call_graph img)\<^sup>+ `` {p})" using finite_subset by blast
  have "card ((call_graph img)\<^sup>+ `` {p}) \<le> length (edge_offsets img)"
    using card_mono [OF _ sub] card_length [of ?ps] by simp
  moreover have "ih_edge_count (read_header img) < 2 ^ LENGTH(16)"
    unfolding read_header_def by (simp only: image_header.simps) (rule unsigned_less)
  ultimately show "card ((call_graph img)\<^sup>+ `` {p}) \<le> 65535" by (simp add: edge_offsets_def)
qed

lemma call_rank_less:
  assumes "acyclic (call_graph img)" and step: "(p, q) \<in> call_graph img"
  shows "call_rank img q < call_rank img p"
proof -
  have "(call_graph img)\<^sup>+ `` {q} \<subset> (call_graph img)\<^sup>+ `` {p}"
  proof
    show "(call_graph img)\<^sup>+ `` {q} \<subseteq> (call_graph img)\<^sup>+ `` {p}" using step by (auto intro: trancl_into_trancl2)
    have "q \<in> (call_graph img)\<^sup>+ `` {p}" using step by blast
    moreover have "q \<notin> (call_graph img)\<^sup>+ `` {q}" using assms(1) unfolding acyclic_def by blast
    ultimately show "(call_graph img)\<^sup>+ `` {q} \<noteq> (call_graph img)\<^sup>+ `` {p}" by blast
  qed
  then show ?thesis using psubset_card_mono [OF reached_finite] by (simp add: call_rank_def)
qed

text \<open>What is known of an edge that \<open>group_find_edge\<close> returns.\<close>

definition leaving_kinds :: "(u8 \<times> u8) set" where
  "leaving_kinds = {(5, 3), (6, 4), (7, 5), (8, 6), (9, 6)}"

lemma found_rank:
  assumes "acyclic (call_graph (ge_image g))" and "group_find_edge g kind node tag = Some edge"
  shows "edge \<in> set (edge_offsets (ge_image g))" and "entered_rank (ge_image g) edge \<le> 65536"
    and "(kind, k) \<in> leaving_kinds \<Longrightarrow> entered_rank (ge_image g) edge < call_rank (ge_image g) (k, node)"
proof -
  show offset: "edge \<in> set (edge_offsets (ge_image g))" by (rule find_edge_offset [OF assms(2)])
  show "entered_rank (ge_image g) edge \<le> 65536"
    using reached_few by (simp add: entered_rank_def call_rank_def split: option.split)
  assume k: "(kind, k) \<in> leaving_kinds"
  have "ge_image g ! edge = kind \<and> read_u16 (ge_image g) (edge + 4) = node"
    using assms(2) unfolding group_find_edge_def by (auto elim: first_edge_Some)
  then have leaves: "edge_from (ge_image g) edge = Some (k, node)"
    using k by (auto simp: edge_from_def leaving_kinds_def)
  show "entered_rank (ge_image g) edge < call_rank (ge_image g) (k, node)"
  proof (cases "edge_into (ge_image g) edge")
    case (Some q)
    then have "((k, node), q) \<in> call_graph (ge_image g)" using leaves offset by (auto simp: call_graph_def)
    then show ?thesis using call_rank_less [OF assms(1)] Some by (simp add: entered_rank_def)
  qed (simp add: entered_rank_def call_rank_def)
qed

section \<open>The region in progress\<close>

text \<open>
  While a region is in progress, entering an edge of a lower rank neither starts nor finishes a
  region, so the loop that admits the items is not disturbed by the calls it makes.
\<close>

definition same_region :: "hermas_group_execution \<Rightarrow> hermas_group_execution \<Rightarrow> bool" where
  "same_region g g' \<longleftrightarrow>
     ge_image g' = ge_image g \<and> ge_active_each_region g' = ge_active_each_region g \<and>
     ge_each_next_item g' = ge_each_next_item g \<and> ge_each_item_count g' = ge_each_item_count g"

lemma same_region_refl [simp]: "same_region g g" "same_region g (set_flow i f g)"
  "same_region g (group_maybe_complete g)"
  by (simp_all add: same_region_def set_flow_def group_maybe_complete_def)

lemma same_region_trans: "same_region g g1 \<Longrightarrow> same_region g1 g2 \<Longrightarrow> same_region g g2"
  by (simp add: same_region_def)

lemma same_region_terminal [simp]: "same_region g (group_record_terminal g i outcome)"
  by (simp add: same_region_def group_record_terminal_def Let_def set_flow_def group_maybe_complete_def)

definition active_rank :: "hermas_group_execution \<Rightarrow> nat" where
  "active_rank g = call_rank (ge_image g) (6, ucast (ge_active_each_region g))"

lemma same_region_rank: "same_region g g' \<Longrightarrow> active_rank g' = active_rank g"
  by (simp add: same_region_def active_rank_def)

definition undisturbed :: "group_enter \<Rightarrow> bool" where
  "undisturbed enter \<longleftrightarrow>
     (\<forall>g i edge outcome r g'. acyclic (call_graph (ge_image g)) \<longrightarrow> ge_active_each_region g \<noteq> 0 \<longrightarrow>
        entered_rank (ge_image g) edge < active_rank g \<longrightarrow> enter g i edge outcome = Some (r, g') \<longrightarrow> same_region g g')"

lemma undisturbedD:
  assumes "undisturbed enter" and "enter g1 i edge outcome = Some (r, g')" and "same_region g g1"
    and "acyclic (call_graph (ge_image g))" and "ge_active_each_region g \<noteq> 0"
    and "group_find_edge g2 kind node tag = Some edge" and "ge_image g2 = ge_image g"
    and "(kind, k) \<in> leaving_kinds" and "call_rank (ge_image g) (k, node) \<le> active_rank g"
  shows "same_region g g'"
proof -
  have "entered_rank (ge_image g) edge < call_rank (ge_image g) (k, node)"
    using found_rank(3) [OF _ assms(6,8)] assms(4,7) by simp
  then have "entered_rank (ge_image g1) edge < active_rank g1"
    using assms(3,9) same_region_rank [OF assms(3)] by (simp add: same_region_def)
  then have "same_region g1 g'"
    using assms(1-5) unfolding undisturbed_def same_region_def by metis
  then show ?thesis by (rule same_region_trans [OF assms(3)])
qed

lemma undisturbed_dispatch:
  assumes "undisturbed enter" and "acyclic (call_graph (ge_image g))" and "ge_active_each_region g \<noteq> 0"
    and "call_rank (ge_image g) (3, node) \<le> active_rank g"
    and "group_route_dispatch enter g i node outcome = Some (r, g')"
  shows "same_region g g'"
proof -
  have "same_region g g'" if "group_find_edge g 5 node tag = Some edge" "enter (set_flow i f g) i edge outcome = Some (r, g')"
    for tag edge f
    by (rule undisturbedD [OF assms(1) that(2) _ assms(2,3) that(1) refl _ assms(4)]) (simp_all add: leaving_kinds_def)
  then show ?thesis
    using assms(5) by (auto simp: group_route_dispatch_def Let_def split: if_splits option.splits)
qed

lemma undisturbed_join_outputs:
  assumes "undisturbed enter" and "acyclic (call_graph (ge_image g0))" and "ge_active_each_region g0 \<noteq> 0"
    and "call_rank (ge_image g0) (5, node) \<le> active_rank g0"
  shows "same_region g0 g \<Longrightarrow> group_join_outputs enter node branches g = Some (r, g') \<Longrightarrow> same_region g0 g'"
proof (induction branches arbitrary: g)
  case Nil
  then show ?case using same_region_trans by auto
next
  case (Cons branch branches)
  obtain tag i where branch: "branch = (tag, i)" by fastforce
  show ?case
  proof (cases "group_find_edge g 7 node (of_nat tag)")
    case None
    then show ?thesis
      using Cons.IH [OF same_region_trans [OF Cons.prems(1) same_region_refl(2)]] Cons.prems(2) by (simp add: branch)
  next
    case (Some edge)
    have "same_region g0 g1" if "enter g i edge HERMAS_OUTCOME_SUCCESS = Some (c, g1)" for c g1
      by (rule undisturbedD [OF assms(1) that Cons.prems(1) assms(2,3) Some _ _ assms(4)])
        (use Cons.prems(1) in \<open>simp_all add: leaving_kinds_def same_region_def\<close>)
    then show ?thesis using Some Cons.IH Cons.prems(2) by (auto simp: branch and_then_Some)
  qed
qed

lemma undisturbed_join:
  assumes "undisturbed enter" and "acyclic (call_graph (ge_image g))" and "ge_active_each_region g \<noteq> 0"
    and "call_rank (ge_image g) (5, node) \<le> active_rank g" and "group_resolve_join enter g node = Some (r, g')"
  shows "same_region g g'"
  using assms(5) undisturbed_join_outputs [OF assms(1-4) same_region_refl(1)]
  by (auto simp: group_resolve_join_def Let_def split: if_splits)

lemma undisturbed_fork_outputs:
  assumes "undisturbed enter" and "acyclic (call_graph (ge_image g0))" and "ge_active_each_region g0 \<noteq> 0"
    and "call_rank (ge_image g0) (4, node) \<le> active_rank g0"
  shows "same_region g0 g \<Longrightarrow> group_fork_outputs enter node branches g = Some (r, g') \<Longrightarrow> same_region g0 g'"
proof (induction branches arbitrary: g)
  case (Cons branch branches)
  obtain tag i where branch: "branch = (tag, i)" by fastforce
  have "same_region g0 g1"
    if "group_find_edge g 6 node (of_nat tag) = Some edge" "enter g i edge HERMAS_OUTCOME_NONE = Some (c, g1)" for edge c g1
    by (rule undisturbedD [OF assms(1) that(2) Cons.prems(1) assms(2,3) that(1) _ _ assms(4)])
      (use Cons.prems(1) in \<open>simp_all add: leaving_kinds_def same_region_def\<close>)
  then show ?case using Cons.IH Cons.prems by (auto simp: branch and_then_Some split: option.splits)
qed auto

lemma fork_flows_region: "group_fork_flows source n g = (r, flows, g') \<Longrightarrow> same_region g g'"
proof (induction n arbitrary: g flows)
  case (Suc n)
  have later: "same_region g g1" if "group_fork_flows source n (set_flow i f g) = (c, is, g1)" "c = r" "g1 = g'" for i f c "is" g1
    using same_region_trans [OF same_region_refl(2) Suc.IH] that by blast
  show ?case
  proof (cases "find_flow g (\<lambda>index f. \<not> is_active f \<and> index \<noteq> source)")
    case (Some i)
    obtain copied f where "group_copy_value ((flow_at g i)\<lparr>fl_active := 1\<rparr>) (fl_value_buffer (flow_at g source))
        (fl_value_length (flow_at g source)) = (copied, f)" by fastforce
    then show ?thesis using Suc.prems Some later by (auto simp: Let_def split: prod.splits if_splits)
  qed (use Suc.prems in simp)
qed auto

lemma undisturbed_fork:
  assumes "undisturbed enter" and "acyclic (call_graph (ge_image g))" and "ge_active_each_region g \<noteq> 0"
    and "call_rank (ge_image g) (4, node) \<le> active_rank g" and "group_enter_fork enter g i node = Some (r, g')"
  shows "same_region g g'"
proof -
  let ?n = "unat (ge_image g ! (node_record (ge_image g) node + 1))"
  obtain c flows g1 where fork: "group_fork_flows i (?n - 1) g = (c, flows, g1)" by (metis prod_cases3)
  then have "same_region g g1" by (rule fork_flows_region)
  then show ?thesis
    using assms(5) fork undisturbed_fork_outputs [OF assms(1-4)]
    by (auto simp: group_enter_fork_def Let_def split: if_splits)
qed

lemma undisturbed_enter_edge: "undisturbed (group_enter_edge n)"
proof (induction n)
  case 0
  show ?case by (simp add: undisturbed_def)
next
  case (Suc n)
  have "same_region g g'"
    if acyclic: "acyclic (call_graph (ge_image g))" and active: "ge_active_each_region g \<noteq> 0"
      and rank: "entered_rank (ge_image g) edge < active_rank g"
      and enter: "group_enter_edge (Suc n) g i edge outcome = Some (r, g')" for g i edge outcome r g'
  proof -
    have later: "same_region g g1" if "same_region (set_flow i f g) g1" for f g1
      using same_region_trans [OF same_region_refl(2) that] .
    have g1: "acyclic (call_graph (ge_image (set_flow i f g)))" "ge_active_each_region (set_flow i f g) \<noteq> 0"
      "active_rank (set_flow i f g) = active_rank g" for f
      using acyclic active by (simp_all add: set_flow_def active_rank_def)
    note calls = undisturbed_dispatch [OF Suc.IH g1(1,2)] undisturbed_join [OF Suc.IH g1(1,2)]
      undisturbed_fork [OF Suc.IH g1(1,2)]
    let ?kind = "ge_image g ! (edge + 1)" and ?node = "read_u16 (ge_image g) (edge + 6)"
    have image: "ge_image (set_flow i f g) = ge_image g" for f by (simp add: set_flow_def)
    consider "?kind \<notin> {3, 4, 5, 6, 7}" | "?kind = 3" | "?kind = 4" | "?kind = 5" | "?kind = 6 \<or> ?kind = 7" by auto
    then show ?thesis
    proof cases
      case 1
      then show ?thesis
        using enter later [OF same_region_terminal]
        by (auto simp: group_enter_edge.simps(2) [of n] Let_def split: if_splits)
    next
      case 2
      then have "call_rank (ge_image g) (3, ?node) \<le> active_rank g"
        using rank by (simp add: entered_rank_def edge_into_def)
      then show ?thesis
        using 2 enter by (intro later calls(1)) (auto simp: group_enter_edge.simps(2) [of n] Let_def image g1(3))
    next
      case 3
      then have "call_rank (ge_image g) (4, ?node) \<le> active_rank g"
        using rank by (simp add: entered_rank_def edge_into_def)
      then show ?thesis
        using 3 enter by (intro later calls(3)) (auto simp: group_enter_edge.simps(2) [of n] Let_def image g1(3))
    next
      case 4
      then have "call_rank (ge_image g) (5, ?node) \<le> active_rank g"
        using rank by (simp add: entered_rank_def edge_into_def)
      then show ?thesis
        using 4 enter by (intro later calls(2)) (auto simp: group_enter_edge.simps(2) [of n] Let_def image g1(3))
    next
      case 5
      then have "(ucast ?node :: u8) \<noteq> ge_active_each_region g"
        using rank by (auto simp: entered_rank_def edge_into_def active_rank_def)
      moreover have "ge_active_each_region (set_flow i f g) = ge_active_each_region g" for f
        by (simp add: set_flow_def)
      ultimately show ?thesis
        using 5 enter active
        by (auto simp: group_enter_edge.simps(2) [of n] Let_def group_each_start_def group_each_collect_def)
    qed
  qed
  then show ?case unfolding undisturbed_def by blast
qed

section \<open>The depth of the calls\<close>

text \<open>\<open>returns r enter\<close>: entering an edge below rank \<open>r\<close> returns.\<close>

definition returns :: "nat \<Rightarrow> group_enter \<Rightarrow> bool" where
  "returns r enter \<longleftrightarrow> progress_enter enter \<and> undisturbed enter \<and>
     (\<forall>g i edge outcome. acyclic (call_graph (ge_image g)) \<longrightarrow> edge \<in> set (edge_offsets (ge_image g)) \<longrightarrow>
        entered_rank (ge_image g) edge < r \<longrightarrow> enter g i edge outcome \<noteq> None)"

lemma returns_image:
  assumes "returns r enter" and "enter g i edge outcome = Some (c, g')"
  shows "ge_image g' = ge_image g"
proof -
  have "progress_enter enter" using assms(1) unfolding returns_def by blast
  then show ?thesis using assms(2) group_progress_static(1) progress_enterD by blast
qed

lemma found_returns:
  assumes "returns r enter" and "acyclic (call_graph img)" and "group_find_edge g0 kind node tag = Some edge"
    and "ge_image g0 = img" and "ge_image g = img" and "(kind, k) \<in> leaving_kinds" and "call_rank img (k, node) \<le> r"
  shows "enter g i edge outcome \<noteq> None"
proof -
  have "edge \<in> set (edge_offsets img)" "entered_rank img edge < r"
    using found_rank(1,3) [OF _ assms(3)] assms(2,4,6,7) by fastforce+
  then show ?thesis using assms(1,2,5) unfolding returns_def by blast
qed

lemma and_then_returns:
  "m \<noteq> None \<Longrightarrow> (\<And>g. m = Some (HERMAS_RUNTIME_OK, g) \<Longrightarrow> f g \<noteq> None) \<Longrightarrow> and_then m f \<noteq> None"
  by (auto simp: and_then_def split: option.splits)

text \<open>Every round of the admission loop starts the next item, so it ends.\<close>

lemma admit_items_returns:
  assumes "returns r enter" and "acyclic (call_graph img)" and "region \<noteq> 0" and "call_rank img (6, ucast region) \<le> r"
  shows "ge_image g = img \<Longrightarrow> ge_active_each_region g = region \<Longrightarrow>
    unat (ge_each_item_count g) - unat (ge_each_next_item g) < n \<Longrightarrow> group_admit_items n enter region g \<noteq> None"
proof (induction n arbitrary: g)
  case (Suc n)
  show ?case
  proof (cases "ge_each_next_item g \<ge> ge_each_item_count g")
    case False
    have "and_then (enter g1 slot edge HERMAS_OUTCOME_NONE) (group_admit_items n enter region) \<noteq> None"
      if admit: "admit_item region slot g = (copied, g1)" and find: "group_find_edge g1 8 (ucast region) 0 = Some edge"
      for slot copied g1 edge
    proof -
      have g1: "ge_each_next_item g1 = ge_each_next_item g + 1" "ge_each_item_count g1 = ge_each_item_count g"
        "ge_image g1 = img" "ge_active_each_region g1 = region"
        using admit Suc.prems(1,2) by (auto simp: admit_item_def Let_def set_flow_def split: prod.splits)
      have less: "ge_each_next_item g < ge_each_item_count g" using False by simp
      then have "ge_each_next_item g \<noteq> - 1" by (metis linorder_not_less word_n1_ge)
      then have "unat (ge_each_next_item g + 1) = Suc (unat (ge_each_next_item g))" by (rule unat_plus_one)
      then have fewer: "unat (ge_each_item_count g1) - unat (ge_each_next_item g1) < n"
        using Suc.prems(3) g1 less by (simp add: word_less_nat_alt)
      have "same_region g1 g2" if "enter g1 slot edge HERMAS_OUTCOME_NONE = Some (c, g2)" for c g2
        by (rule undisturbedD [where k = 6 and g = g1 and enter = enter, OF _ that _ _ _ find])
          (use assms(1-3) g1 in \<open>simp_all add: returns_def leaving_kinds_def active_rank_def\<close>)
      then show ?thesis
        using Suc.IH fewer g1 found_returns [OF assms(1,2) find g1(3,3) _ assms(4)]
        by (intro and_then_returns) (auto simp: leaving_kinds_def same_region_def)
    qed
    then show ?thesis by (auto split: option.splits prod.splits)
  qed simp
qed simp

lemma each_admit_returns:
  assumes "returns r enter" and "acyclic (call_graph img)" and "ge_image g = img" and "65536 \<le> n"
    and "call_rank img (6, ucast (ge_active_each_region g)) \<le> r"
  shows "group_each_admit n enter g \<noteq> None"
proof -
  have "unat (ge_each_item_count g) < 2 ^ LENGTH(16)" by (rule unsigned_less)
  then have "unat (ge_each_item_count g) - unat (ge_each_next_item g) < n" using assms(4) by simp
  then show ?thesis
    using admit_items_returns [OF assms(1,2) _ assms(5,3)] by (simp add: group_each_admit_def Let_def)
qed

lemma each_finish_returns:
  assumes "returns r enter" and "acyclic (call_graph img)" and "ge_image g = img"
    and "call_rank img (6, ucast (ge_active_each_region g)) \<le> r"
  shows "group_each_finish enter g \<noteq> None"
proof -
  have "enter g2 i edge outcome \<noteq> None"
    if "group_find_edge g2 9 (ucast (ge_active_each_region g)) 0 = Some edge" and "ge_image g2 = img" for g2 i edge outcome
    by (rule found_returns [OF assms(1,2) that(1,2,2) _ assms(4)]) (simp add: leaving_kinds_def)
  moreover have "ge_image ((set_flow i f g)\<lparr>ge_active_each_region := 0\<rparr>) = img" for i f
    using assms(3) by (simp add: set_flow_def)
  ultimately show ?thesis
    unfolding group_each_finish_def Let_def by (auto simp: set_flow_twice split: option.splits prod.splits)
qed

lemma flush_region: "group_flush region g = (c, g') \<Longrightarrow> ge_active_each_region g' = ge_active_each_region g"
proof (induction region g rule: group_flush.induct)
  case (1 region g)
  have "ge_active_each_region (flush_item ready g) = ge_active_each_region g" for ready
    by (simp add: flush_item_def Let_def set_flow_def)
  then show ?case
    using 1 by (auto simp: group_flush.simps [of region g] split: option.splits if_splits)
qed

lemma each_collect_returns:
  assumes "returns r enter" and "acyclic (call_graph img)" and "ge_image g = img" and "65536 \<le> n"
    and "call_rank img (6, ucast region) \<le> r"
  shows "group_each_collect n enter g i region \<noteq> None"
proof (cases "region = ge_active_each_region g")
  case True
  let ?g1 = "(set_flow i ((flow_at g i)\<lparr>fl_state := HERMAS_EXECUTION_WAITING\<rparr>) g)
      \<lparr>ge_each_completed_items := ge_each_completed_items g + 1\<rparr>"
  obtain c g2 where flush: "group_flush (ge_active_each_region g) ?g1 = (c, g2)" by fastforce
  have "ge_image g2 = img" "ge_active_each_region g2 = region"
    using group_progress_static(1) [OF progress_flush [OF flush]] flush_region [OF flush] assms(3) True
    by (simp_all add: set_flow_def)
  then have "group_each_finish enter g2 \<noteq> None" "group_each_admit n enter g2 \<noteq> None"
    using each_finish_returns [OF assms(1,2), of g2] each_admit_returns [OF assms(1,2) _ assms(4), of g2] assms(5)
    by simp_all
  then show ?thesis unfolding True using flush by (simp add: group_each_collect_def Let_def)
qed (simp add: group_each_collect_def)

lemma each_start_returns:
  assumes "returns r enter" and "acyclic (call_graph img)" and "ge_image g = img" and "65536 \<le> n"
    and "call_rank img (6, ucast region) \<le> r"
  shows "group_each_start n enter g i region \<noteq> None"
proof -
  obtain listed count g1 where list: "each_list g i region = (listed, count, g1)" by (metis prod_cases3)
  let ?g2 = "each_open g1 i region count"
  have "ge_image ?g2 = img" "ge_active_each_region ?g2 = region"
    using list assms(3) by (auto simp: each_list_def each_open_def set_flow_def Let_def split: prod.splits)
  then have "group_each_finish enter ?g2 \<noteq> None" "group_each_admit n enter ?g2 \<noteq> None"
    using each_finish_returns [OF assms(1,2), of ?g2] each_admit_returns [OF assms(1,2) _ assms(4), of ?g2] assms(5)
    by simp_all
  then show ?thesis using list by (auto simp: group_each_start_def)
qed

lemma route_dispatch_returns:
  assumes "returns r enter" and "acyclic (call_graph img)" and "ge_image g = img" and "call_rank img (3, node) \<le> r"
  shows "group_route_dispatch enter g i node outcome \<noteq> None"
proof -
  have "enter (set_flow i f g) i edge outcome \<noteq> None" if "group_find_edge g 5 node tag = Some edge" for f edge tag
    by (rule found_returns [OF assms(1,2) that assms(3) _ _ assms(4)]) (simp_all add: set_flow_def assms(3) leaving_kinds_def)
  then show ?thesis by (auto simp: group_route_dispatch_def Let_def split: option.splits)
qed

lemma join_outputs_returns:
  assumes "returns r enter" and "acyclic (call_graph img)" and "call_rank img (5, node) \<le> r"
  shows "ge_image g = img \<Longrightarrow> group_join_outputs enter node branches g \<noteq> None"
proof (induction branches arbitrary: g)
  case (Cons branch branches)
  obtain tag i where branch: "branch = (tag, i)" by fastforce
  have "enter g i edge outcome \<noteq> None" if "group_find_edge g 7 node (of_nat tag) = Some edge" for edge outcome
    by (rule found_returns [OF assms(1,2) that Cons.prems Cons.prems _ assms(3)]) (simp add: leaving_kinds_def)
  then have "and_then (enter g i edge HERMAS_OUTCOME_SUCCESS) (group_join_outputs enter node branches) \<noteq> None"
    if "group_find_edge g 7 node (of_nat tag) = Some edge" for edge
    using that Cons.IH returns_image [OF assms(1)] Cons.prems by (intro and_then_returns) auto
  moreover have "group_join_outputs enter node branches (set_flow i ((flow_at g i)\<lparr>fl_active := 0\<rparr>) g) \<noteq> None"
    by (rule Cons.IH) (simp add: set_flow_def Cons.prems)
  ultimately show ?case by (auto simp: branch split: option.splits)
qed simp

lemma resolve_join_returns:
  assumes "returns r enter" and "acyclic (call_graph img)" and "ge_image g = img" and "call_rank img (5, node) \<le> r"
  shows "group_resolve_join enter g node \<noteq> None"
  using join_outputs_returns [OF assms(1,2,4,3)] by (simp add: group_resolve_join_def Let_def)

lemma fork_outputs_returns:
  assumes "returns r enter" and "acyclic (call_graph img)" and "call_rank img (4, node) \<le> r"
  shows "ge_image g = img \<Longrightarrow> group_fork_outputs enter node branches g \<noteq> None"
proof (induction branches arbitrary: g)
  case (Cons branch branches)
  obtain tag i where branch: "branch = (tag, i)" by fastforce
  have "enter g i edge outcome \<noteq> None" if "group_find_edge g 6 node (of_nat tag) = Some edge" for edge outcome
    by (rule found_returns [OF assms(1,2) that Cons.prems Cons.prems _ assms(3)]) (simp add: leaving_kinds_def)
  then have "and_then (enter g i edge HERMAS_OUTCOME_NONE) (group_fork_outputs enter node branches) \<noteq> None"
    if "group_find_edge g 6 node (of_nat tag) = Some edge" for edge
    using that Cons.IH returns_image [OF assms(1)] Cons.prems by (intro and_then_returns) auto
  then show ?case by (auto simp: branch split: option.splits)
qed simp

lemma enter_fork_returns:
  assumes "returns r enter" and "acyclic (call_graph img)" and "ge_image g = img" and "call_rank img (4, node) \<le> r"
  shows "group_enter_fork enter g i node \<noteq> None"
proof -
  have "group_fork_outputs enter node branches g1 \<noteq> None"
    if "group_fork_flows i n g = (c, flows, g1)" for n c flows g1 branches
    using fork_outputs_returns [OF assms(1,2,4)] group_progress_static(1) [OF progress_fork_flows [OF that]] assms(3) by simp
  then show ?thesis by (auto simp: group_enter_fork_def Let_def split: prod.splits)
qed

lemma enter_edge_returns: "r + 65537 \<le> n \<Longrightarrow> returns r (group_enter_edge n)"
proof (induction r arbitrary: n)
  case 0
  then show ?case unfolding returns_def using progress_group_enter_edge undisturbed_enter_edge by auto
next
  case (Suc r)
  then obtain m where n: "n = Suc m" and m: "r + 65537 \<le> m" by (cases n) auto
  note IH = Suc.IH [OF m]
  have "group_enter_edge (Suc m) g i edge outcome \<noteq> None"
    if acyclic: "acyclic (call_graph (ge_image g))" and edge: "entered_rank (ge_image g) edge \<le> r" for g i edge outcome
  proof -
    have image: "ge_image (set_flow i f g) = ge_image g" for f by (simp add: set_flow_def)
    have fuel: "65536 \<le> m" using m by simp
    note calls = each_collect_returns [OF IH acyclic image fuel] each_start_returns [OF IH acyclic image fuel]
      route_dispatch_returns [OF IH acyclic image] resolve_join_returns [OF IH acyclic image]
      enter_fork_returns [OF IH acyclic image]
    let ?kind = "ge_image g ! (edge + 1)"
    consider "?kind = 1 \<or> ?kind = 2 \<or> ?kind \<notin> {1, 2, 3, 4, 5, 6, 7}" | "?kind = 3" | "?kind = 4" | "?kind = 5"
      | "?kind = 6" | "?kind = 7" by auto
    then show ?thesis
      using edge
      by cases (use calls in \<open>auto simp: group_enter_edge.simps(2) [of m] Let_def entered_rank_def edge_into_def\<close>)
  qed
  then show ?case
    unfolding returns_def n less_Suc_eq_le using progress_group_enter_edge undisturbed_enter_edge by blast
qed

section \<open>The operations\<close>

text \<open>
  The depth that is enough for every acyclic graph: one call for each position that an edge can enter
  and one round of the admission loop for each item of a region, of which 16-bit fields number
  at most 65535 each.
\<close>

definition group_call_depth :: nat where
  "group_call_depth = 131080"

text \<open>A computation that returns with enough depth, and the same with any greater one.\<close>

definition settles :: "(nat \<Rightarrow> 'a option) \<Rightarrow> bool" where
  "settles f \<longleftrightarrow> (\<exists>x. \<forall>n \<ge> group_call_depth. f n = Some x)"

named_theorems settles_intros \<open>computations that settle\<close>

lemma settles_const [settles_intros]: "settles (\<lambda>n. Some x)"
  by (simp add: settles_def)

lemma settles_if [settles_intros]:
  "(c \<Longrightarrow> settles f) \<Longrightarrow> (\<not> c \<Longrightarrow> settles h) \<Longrightarrow> settles (\<lambda>n. if c then f n else h n)"
  by (cases c) simp_all

lemma settles_option [settles_intros]:
  "(x = None \<Longrightarrow> settles f) \<Longrightarrow> (\<And>y. x = Some y \<Longrightarrow> settles (\<lambda>n. h n y)) \<Longrightarrow>
   settles (\<lambda>n. case x of None \<Rightarrow> f n | Some y \<Rightarrow> h n y)"
  by (cases x) simp_all

lemma settles_prod [settles_intros]:
  "(\<And>a b. x = (a, b) \<Longrightarrow> settles (\<lambda>n. f n a b)) \<Longrightarrow> settles (\<lambda>n. case x of (a, b) \<Rightarrow> f n a b)"
  by (cases x) simp

lemma settles_map [settles_intros]: "settles f \<Longrightarrow> settles (\<lambda>n. map_option h (f n))"
  by (auto simp: settles_def)

lemma settles_and_then:
  assumes "settles m" and "\<And>g n. m n = Some (HERMAS_RUNTIME_OK, g) \<Longrightarrow> settles (\<lambda>n. f n g)"
  shows "settles (\<lambda>n. and_then (m n) (f n))"
proof -
  obtain r g where m: "\<forall>n \<ge> group_call_depth. m n = Some (r, g)" using assms(1) by (auto simp: settles_def)
  show ?thesis
  proof (cases "r = HERMAS_RUNTIME_OK")
    case True
    then have "settles (\<lambda>n. f n g)" using assms(2) [of "group_call_depth" g] m by simp
    then show ?thesis using m True by (auto simp: settles_def and_then_def)
  next
    case False
    then show ?thesis using m by (auto simp: settles_def and_then_def)
  qed
qed

lemma enter_settles:
  assumes "acyclic (call_graph img)" and "group_find_edge g0 kind node tag = Some edge" and "ge_image g0 = img"
    and "ge_image g = img"
  shows "settles (\<lambda>n. group_enter_edge n g i edge outcome)"
proof -
  note found = found_rank [OF _ assms(2), unfolded assms(3), OF assms(1)]
  have "returns 65537 (group_enter_edge group_call_depth)"
    by (rule enter_edge_returns) (simp add: group_call_depth_def)
  then have "group_enter_edge group_call_depth g i edge outcome \<noteq> None"
    using found(1,2) assms(1,4) unfolding returns_def by force
  then show ?thesis using enter_edge_mono unfolding settles_def by blast
qed

lemma set_flow_image [simp]: "ge_image (set_flow i f g) = ge_image g"
  by (simp add: set_flow_def)

lemma delivery_outcome_settles:
  assumes "acyclic (call_graph (ge_image g))"
  shows "settles (\<lambda>n. group_delivery_outcome n g i required kind outcome)"
  unfolding group_delivery_outcome_def Let_def
  by (intro settles_intros) (auto intro: enter_settles [OF assms])

lemma accept_settles:
  assumes "acyclic (call_graph (ge_image g))"
  shows "settles (\<lambda>n. group_accept_result n g i f)"
  unfolding group_accept_result_def Let_def
  by (intro settles_intros) (auto intro: enter_settles [OF assms])

lemma expire_sent_settles:
  "acyclic (call_graph (ge_image g)) \<Longrightarrow> settles (\<lambda>n. expire_sent n region is g)"
proof (induction "is" arbitrary: g)
  case (Cons i "is")
  have "settles (\<lambda>n. and_then (group_mark_unknown n g i) (expire_sent n region is))"
  proof (rule settles_and_then)
    show "settles (\<lambda>n. group_mark_unknown n g i)"
      using delivery_outcome_settles [OF Cons.prems] by (simp add: group_mark_unknown_def)
    fix g1 n
    assume "group_mark_unknown n g i = Some (HERMAS_RUNTIME_OK, g1)"
    then have "ge_image g1 = ge_image g"
      using group_progress_static(1) [OF progress_delivery_outcome] by (auto simp: group_mark_unknown_def)
    then show "settles (\<lambda>n. expire_sent n region is g1)" using Cons by simp
  qed
  then show ?case unfolding expire_sent.simps(2) by (intro settles_intros) (use Cons in simp_all)
qed (simp add: settles_const)

lemma expire_settles:
  assumes "acyclic (call_graph (ge_image g))"
  shows "settles (\<lambda>n. group_expire_region n g region)"
proof -
  have unsent: "settles (\<lambda>n. expire_unsent n g i)" for i
    using enter_settles [OF assms] delivery_outcome_settles [OF assms]
    by (cases "fl_state (flow_at g i)"; cases "group_find_edge g 3 (fl_current_node (flow_at g i)) 0")
      (auto simp: expire_unsent_def group_mark_not_sent_def settles_const)
  show ?thesis
    unfolding group_expire_region_def
    by (intro settles_intros unsent expire_sent_settles [OF assms])
qed

lemma start_settles:
  assumes "acyclic (call_graph img)"
  shows "settles (\<lambda>n. hermas_group_start n (Some old) (Some img) size0 xid storage cap stride type_id input len)"
proof -
  have "settles (\<lambda>n. group_start_flow n (loaded_group img size0 xid store stride) input len)" for store
    unfolding group_start_flow_def Let_def
    by (intro settles_intros) (auto intro: enter_settles [OF assms] simp: loaded_group_fields)
  then have admitted: "settles (\<lambda>n. if c then Some x else map_option h
      (group_start_flow n (loaded_group img size0 xid store stride) input len))" for c x h store
    by (intro settles_intros)
  show ?thesis
  proof (cases storage)
    case (Some store)
    obtain c s where "hermas_image_validate (Some img) size0 (Some no_summary) = (c, s)" by fastforce
    then show ?thesis
      unfolding hermas_group_start_def Some
      by (cases c; cases s) (simp_all only: option.case prod.case hermas_image_result.case,
        (intro settles_if settles_const admitted)+)
  qed (simp add: hermas_group_start_def settles_const)
qed

end
