(* ===== verification/Hermas_Group_Marks.thy ===== *)
theory Hermas_Group_Marks
  imports Hermas_Group_Delivery
begin

text \<open>
  The marks that the items of an each region leave on the flow slots. A graph without each regions
  never marks a slot: \<open>unmarked\<close> is an invariant of all the calls, failed ones included.
\<close>

definition unmarked :: "hermas_group_execution \<Rightarrow> bool" where
  "unmarked g \<longleftrightarrow> ge_each_region_count g = 0 \<and> ge_active_each_region g = 0 \<and>
     (\<forall>i < length (ge_flows g). fl_each_region (flow_at g i) = 0)"

named_theorems unmarked_intros \<open>changes that mark no slot\<close>

lemma unmarked_set_flow [unmarked_intros]:
  "unmarked g \<Longrightarrow> fl_each_region f = fl_each_region (flow_at g i) \<Longrightarrow> unmarked (set_flow i f g)"
  by (simp add: unmarked_def) (simp add: set_flow_def)

lemma copy_value_mark: "group_copy_value f v len = (r, f') \<Longrightarrow> fl_each_region f' = fl_each_region f"
  by (auto simp: group_copy_value_def split: if_splits option.splits)

lemma unmarked_same:
  "unmarked g \<Longrightarrow> ge_flows g' = ge_flows g \<Longrightarrow> ge_each_region_count g' = ge_each_region_count g \<Longrightarrow>
   ge_active_each_region g' = ge_active_each_region g \<Longrightarrow> unmarked g'"
  by (simp add: unmarked_def flow_at_def)

lemma unmarked_maybe_complete [unmarked_intros]: "unmarked g \<Longrightarrow> unmarked (group_maybe_complete g)"
  by (erule unmarked_same) (simp_all add: group_maybe_complete_def)

lemma unmarked_cut_off: "unmarked g \<Longrightarrow> unmarked (g\<lparr>ge_flows := map cut_off (ge_flows g)\<rparr>)"
  by (auto simp: unmarked_def flow_at_def cut_off_def)

lemma unmarked_terminal [unmarked_intros]:
  assumes "unmarked g"
  shows "unmarked (group_record_terminal g i outcome)"
proof -
  let ?g1 = "if group_outcome_precedence outcome > group_outcome_precedence (ge_pending_outcome g)
      then g\<lparr>ge_pending_outcome := outcome, ge_pending_flow := of_nat i\<rparr> else g"
  have "unmarked ?g1" by (rule unmarked_same [OF assms]) simp_all
  then have "unmarked (set_flow i ((flow_at ?g1 i)\<lparr>fl_active := 0\<rparr>) ?g1)" (is "unmarked ?g2")
    by (rule unmarked_set_flow) simp
  then have "unmarked (if outcome \<noteq> HERMAS_OUTCOME_SUCCESS then ?g2\<lparr>ge_flows := map cut_off (ge_flows ?g2)\<rparr> else ?g2)"
    using unmarked_cut_off [of ?g2] by (simp only: split: if_split) simp
  then show ?thesis unfolding group_record_terminal_def Let_def by (rule unmarked_maybe_complete)
qed

definition unmarked_enter :: "group_enter \<Rightarrow> bool" where
  "unmarked_enter enter \<longleftrightarrow>
     (\<forall>g i edge outcome r g'. unmarked g \<longrightarrow> enter g i edge outcome = Some (r, g') \<longrightarrow> unmarked g')"

lemma unmarked_enterD: "unmarked_enter enter \<Longrightarrow> enter g i edge outcome = Some (r, g') \<Longrightarrow> unmarked g \<Longrightarrow> unmarked g'"
  unfolding unmarked_enter_def by blast

text \<open>Without regions the functions for each regions refuse.\<close>

lemma unmarked_each:
  "unmarked g \<Longrightarrow> group_each_start n enter g i region = Some (r, g') \<Longrightarrow> g' = g"
  "unmarked g \<Longrightarrow> group_each_collect n enter g i region = Some (r, g') \<Longrightarrow> g' = g"
proof -
  assume "unmarked g" and "group_each_start n enter g i region = Some (r, g')"
  moreover have "region = 0 \<or> region > 0" by (metis word_coorder.not_eq_extremum)
  ultimately show "g' = g" by (auto simp: group_each_start_def unmarked_def)
qed (auto simp: group_each_collect_def unmarked_def)

lemma unmarked_dispatch:
  assumes "unmarked_enter enter" and "group_route_dispatch enter g i node outcome = Some (r, g')" and "unmarked g"
  shows "unmarked g'"
  using assms(2,3)
  by (auto simp: group_route_dispatch_def Let_def split: if_splits option.splits
      intro: unmarked_set_flow dest!: unmarked_enterD [OF assms(1)])

lemma unmarked_join_outputs:
  assumes "unmarked_enter enter"
  shows "group_join_outputs enter node branches g = Some (r, g') \<Longrightarrow> unmarked g \<Longrightarrow> unmarked g'"
proof (induction branches arbitrary: g)
  case (Cons branch branches)
  have "unmarked (set_flow i ((flow_at g i)\<lparr>fl_active := 0\<rparr>) g)" for i
    using Cons.prems(2) by (rule unmarked_set_flow) simp
  then show ?case
    using Cons by (cases branch) (auto simp: and_then_Some split: option.splits dest!: unmarked_enterD [OF assms])
qed (auto intro: unmarked_maybe_complete)

lemma unmarked_join:
  assumes "unmarked_enter enter" and "group_resolve_join enter g node = Some (r, g')" and "unmarked g"
  shows "unmarked g'"
  using assms(2,3) unmarked_join_outputs [OF assms(1)]
  by (auto simp: group_resolve_join_def Let_def split: if_splits intro: unmarked_maybe_complete)

lemma unmarked_fork_flows: "group_fork_flows source n g = (r, flows, g') \<Longrightarrow> unmarked g \<Longrightarrow> unmarked g'"
proof (induction n arbitrary: g flows)
  case (Suc n)
  show ?case
  proof (cases "find_flow g (\<lambda>index f. \<not> is_active f \<and> index \<noteq> source)")
    case (Some i)
    obtain copied f where copy: "group_copy_value ((flow_at g i)\<lparr>fl_active := 1\<rparr>) (fl_value_buffer (flow_at g source))
        (fl_value_length (flow_at g source)) = (copied, f)" by fastforce
    have "unmarked (set_flow i f g)"
      by (rule unmarked_set_flow [OF Suc.prems(2)]) (use copy_value_mark [OF copy] in simp)
    then show ?thesis
      using Suc.prems Some copy Suc.IH [of "set_flow i f g"] by (auto simp: Let_def split: prod.splits if_splits)
  qed (use Suc.prems in simp)
qed simp

lemma unmarked_fork_outputs:
  assumes "unmarked_enter enter"
  shows "group_fork_outputs enter node branches g = Some (r, g') \<Longrightarrow> unmarked g \<Longrightarrow> unmarked g'"
proof (induction branches arbitrary: g)
  case (Cons branch branches)
  then show ?case
    by (cases branch) (auto simp: and_then_Some split: option.splits dest!: unmarked_enterD [OF assms])
qed simp

lemma unmarked_fork:
  assumes "unmarked_enter enter" and "group_enter_fork enter g i node = Some (r, g')" and "unmarked g"
  shows "unmarked g'"
  using assms(2,3) unmarked_fork_outputs [OF assms(1)] unmarked_fork_flows
  by (auto simp: group_enter_fork_def Let_def split: if_splits prod.splits)

lemma unmarked_enter_edge: "unmarked_enter (group_enter_edge n)"
proof (induction n)
  case (Suc n)
  note calls = unmarked_dispatch [OF Suc.IH] unmarked_join [OF Suc.IH] unmarked_fork [OF Suc.IH]
  have "unmarked g'" if unmarked: "unmarked g" and enter: "group_enter_edge (Suc n) g i edge outcome = Some (r, g')"
    for g i edge outcome r g'
  proof -
    have entering: "unmarked (set_flow i f g)" if "fl_each_region f = fl_each_region (flow_at g i)" for f
      using unmarked that by (rule unmarked_set_flow)
    have f: "fl_each_region (entering_flow g i edge) = fl_each_region (flow_at g i)" by (simp add: entering_flow_def)
    let ?kind = "ge_image g ! (edge + 1)"
    consider "?kind = 1" | "?kind = 2" | "?kind = 3" | "?kind = 4" | "?kind = 5" | "?kind = 6" | "?kind = 7"
      | "?kind \<notin> {1, 2, 3, 4, 5, 6, 7}" by auto
    then show ?thesis
    proof cases
      case 1
      then show ?thesis using enter entering f by (auto simp: group_enter_edge.simps(2) [of n] Let_def)
    next
      case 2
      then show ?thesis
        using enter unmarked_terminal [OF entering [OF f]] by (auto simp: group_enter_edge.simps(2) [of n] Let_def)
    next
      case 3
      then show ?thesis
        using enter calls(1) entering [OF f] by (auto simp: group_enter_edge.simps(2) [of n] Let_def)
    next
      case 4
      then show ?thesis
        using enter calls(3) entering [OF f] by (auto simp: group_enter_edge.simps(2) [of n] Let_def)
    next
      case 5
      have "unmarked (set_flow i ((entering_flow g i edge)\<lparr>fl_join_node := a, fl_join_tag := b, fl_state := c\<rparr>) g)" for a b c
        by (rule entering) (simp add: f)
      then show ?thesis using 5 enter calls(2) by (auto simp: group_enter_edge.simps(2) [of n] Let_def)
    next
      case 6
      then show ?thesis
        using enter entering [OF f] by (auto simp: group_enter_edge.simps(2) [of n] Let_def dest: unmarked_each(1))
    next
      case 7
      then show ?thesis
        using enter entering [OF f] by (auto simp: group_enter_edge.simps(2) [of n] Let_def dest: unmarked_each(2))
    next
      case 8
      then show ?thesis using enter entering [OF f] by (auto simp: group_enter_edge.simps(2) [of n] Let_def)
    qed
  qed
  then show ?case unfolding unmarked_enter_def by blast
qed (simp add: unmarked_enter_def)

section \<open>The calls\<close>

lemma unmarked_entered:
  "group_enter_edge n (set_flow i f g) j edge outcome = Some (r, g') \<Longrightarrow> unmarked g \<Longrightarrow>
   fl_each_region f = fl_each_region (flow_at g i) \<Longrightarrow> unmarked g'"
  using unmarked_enterD [OF unmarked_enter_edge] unmarked_set_flow by blast

lemma unmarked_delivery_outcome:
  "group_delivery_outcome n g i required kind outcome = Some (r, g') \<Longrightarrow> unmarked g \<Longrightarrow> unmarked g'"
  by (auto simp: group_delivery_outcome_def Let_def split: if_splits option.splits dest!: unmarked_entered)

lemma unmarked_accept:
  assumes "group_accept_result n g i f = Some (r, g')" and "unmarked g"
  shows "unmarked g'"
proof -
  obtain copied flow where copy: "group_copy_value (flow_at g i) (fr_payload f) (unat (fr_payload_length f)) =
      (copied, flow)" by fastforce
  show ?thesis
    using assms copy copy_value_mark [OF copy] unmarked_set_flow [OF assms(2)]
    by (auto simp: group_accept_result_def Let_def split: if_splits option.splits dest!: unmarked_entered)
qed

lemma unmarked_expire_sent: "expire_sent n region is g = Some (r, g') \<Longrightarrow> unmarked g \<Longrightarrow> unmarked g'"
proof (induction "is" arbitrary: g)
  case (Cons i "is")
  then show ?case
    by (auto simp: and_then_Some group_mark_unknown_def split: if_splits dest!: unmarked_delivery_outcome)
qed simp

lemma unmarked_expire:
  assumes "group_expire_region n g region = Some (r, g')" and "unmarked g"
  shows "unmarked g'"
proof -
  have "unmarked g'" if "expire_unsent n g i = Some (r, g')" for i
    using that assms(2)
    by (auto simp: expire_unsent_def group_mark_not_sent_def Let_def
        split: if_splits option.splits hermas_execution_state.splits
        intro: unmarked_terminal dest!: unmarked_delivery_outcome unmarked_entered)
  then show ?thesis
    using assms unmarked_expire_sent by (auto simp: group_expire_region_def split: if_splits option.splits)
qed

lemma unmarked_reach: "group_reach admitted n g0 fs g \<Longrightarrow> unmarked g0 \<Longrightarrow> unmarked g"
proof (induction rule: group_reach.induct)
  case (reach_prepare fs g i r g' f)
  then have "unmarked g" by simp
  then have "unmarked (set_flow i (fl\<lparr>fl_request_id := k, fl_state := s\<rparr>) (g\<lparr>ge_next_request_id := k'\<rparr>))"
    if "fl_each_region fl = fl_each_region (flow_at g i)" for fl k s k'
    using that by (intro unmarked_set_flow) (auto simp: unmarked_def flow_at_def)
  then show ?case
    using \<open>unmarked g\<close> reach_prepare.hyps(2)
    by (auto elim!: prepare_cases simp: group_prepare_def Let_def split: if_splits option.splits)
next
  case (reach_sent fs g i r g')
  then show ?case by (auto simp: hermas_group_mark_sent_def split: if_splits intro: unmarked_set_flow)
next
  case (reach_result fs g i f r g')
  then show ?case by (auto simp: hermas_group_accept_result_def split: if_splits dest: unmarked_accept)
qed (auto simp: hermas_group_mark_not_sent_def hermas_group_mark_unknown_def hermas_group_expire_region_def
    group_mark_not_sent_def group_mark_unknown_def dest: unmarked_delivery_outcome unmarked_expire)

lemma loaded_unmarked:
  "i < HERMAS_RUNTIME_MAX_FLOWS \<Longrightarrow> fl_each_region (flow_at (loaded_group img n xid storage stride) i) = 0"
  "ge_active_each_region (loaded_group img n xid storage stride) = 0"
  "length (ge_flows (loaded_group img n xid storage stride)) = HERMAS_RUNTIME_MAX_FLOWS"
proof -
  have active: "ge_active_each_region (fold (load_region img b) js g) = ge_active_each_region g" for b js g
    by (induction js arbitrary: g) (simp_all add: load_region_def Let_def)
  then have "ge_active_each_region (load_regions img g) = ge_active_each_region g" for g
    by (simp add: load_regions_def)
  then show "ge_active_each_region (loaded_group img n xid storage stride) = 0"
    by (simp add: loaded_group_def load_flows_def set_deadline_def no_group_def Let_def)
  show "length (ge_flows (loaded_group img n xid storage stride)) = HERMAS_RUNTIME_MAX_FLOWS"
    by (simp add: loaded_group_def load_flows_def Let_def)
  show "i < HERMAS_RUNTIME_MAX_FLOWS \<Longrightarrow> fl_each_region (flow_at (loaded_group img n xid storage stride) i) = 0"
    by (auto simp: loaded_group_def load_flows_def flow_at_def no_flow_def nth_list_update Let_def)
qed

lemma start_unmarked:
  assumes "hermas_group_start n (Some old) (Some img) size0 xid (Some storage) cap stride type_id input len =
      Some (HERMAS_RUNTIME_OK, Some g)" and "ge_each_region_count g = 0"
  shows "unmarked g"
proof -
  let ?g0 = "loaded_group img size0 xid storage stride"
  obtain copied flow where copy: "group_copy_value (flow_at ?g0 0) input len = (copied, flow)" by fastforce
  have "ge_each_region_count ?g0 = 0"
    using group_progress_static(5) [OF start_loaded(1) [OF assms(1)]] assms(2) by simp
  then have loaded: "unmarked ?g0" by (simp add: unmarked_def loaded_unmarked)
  have "group_start_flow n ?g0 input len = Some (HERMAS_RUNTIME_OK, g)"
    using start_accepted [OF assms(1)] by blast
  then show ?thesis
    using copy copy_value_mark [OF copy] loaded
    by (auto simp: group_start_flow_def Let_def split: if_splits option.splits dest!: unmarked_entered)
qed

section \<open>The slots of a fork\<close>

lemma find_free:
  assumes "find_flow g (\<lambda>index f. \<not> is_active f \<and> index \<noteq> source) = Some i"
  shows "i < HERMAS_RUNTIME_MAX_FLOWS" and "\<not> is_active (flow_at g i)" and "i \<noteq> source"
  using assms by (auto simp: find_flow_def first_index_Some flow_at_def)

lemma copy_value_copies:
  assumes "group_copy_value f (fl_value_buffer s) (fl_value_length s) = (HERMAS_RUNTIME_OK, f')"
    and "flow_bounded f" and "flow_bounded s"
  shows "fl_value_length f' = fl_value_length s \<and> fl_active f' = fl_active f \<and>
    take (fl_value_length s) (payload_bytes (fl_value_buffer f')) =
    take (fl_value_length s) (payload_bytes (fl_value_buffer s))"
  using assms
  by (auto simp: group_copy_value_def flow_bounded_def payload_bytes_def write_bytes_def split: if_splits option.splits)

text \<open>C32: A fork finds every further branch a slot of its own: the slots are distinct, none is the source's, all were
  free, and each becomes active with a copy of the source's value, while the other slots stay as they are.
  The fork leaves the each region mark of a slot as the last use of the slot left it.\<close>

theorem fork_takes_free_slots:
  assumes "group_fork_flows source n g = (HERMAS_RUNTIME_OK, flows, g')"
    and "length (ge_flows g) = HERMAS_RUNTIME_MAX_FLOWS" and "list_all flow_bounded (ge_flows g)"
    and "source < HERMAS_RUNTIME_MAX_FLOWS"
  shows "length flows = n \<and> distinct (source # flows) \<and>
    (\<forall>i \<in> set flows. i < HERMAS_RUNTIME_MAX_FLOWS \<and> \<not> is_active (flow_at g i) \<and> is_active (flow_at g' i) \<and>
       fl_value_length (flow_at g' i) = fl_value_length (flow_at g source) \<and>
       take (fl_value_length (flow_at g source)) (payload_bytes (fl_value_buffer (flow_at g' i))) =
         take (fl_value_length (flow_at g source)) (payload_bytes (fl_value_buffer (flow_at g source))) \<and>
       fl_each_region (flow_at g' i) = fl_each_region (flow_at g i)) \<and>
    (\<forall>i. i \<notin> set flows \<longrightarrow> flow_at g' i = flow_at g i)"
  using assms(1-3)
proof (induction n arbitrary: g flows)
  case 0
  then show ?case by simp
next
  case (Suc n)
  let ?s = "flow_at g source"
  obtain i where free: "find_flow g (\<lambda>index f. \<not> is_active f \<and> index \<noteq> source) = Some i"
    using Suc.prems(1) by (auto split: option.splits)
  note i = find_free [OF free]
  obtain copied f where copy: "group_copy_value ((flow_at g i)\<lparr>fl_active := 1\<rparr>) (fl_value_buffer ?s)
      (fl_value_length ?s) = (copied, f)" by fastforce
  obtain rest where ok: "copied = HERMAS_RUNTIME_OK" and flows: "flows = i # rest"
    and fork: "group_fork_flows source n (set_flow i f g) = (HERMAS_RUNTIME_OK, rest, g')"
    using Suc.prems(1) free copy by (auto simp: Let_def split: prod.splits if_splits)
  have bounded: "flow_bounded (flow_at g k)" if "k < HERMAS_RUNTIME_MAX_FLOWS" for k
    using that Suc.prems(2,3) by (simp add: list_all_length flow_at_def)
  have "flow_bounded ((flow_at g i)\<lparr>fl_active := 1\<rparr>)" using bounded [OF i(1)] by (simp add: flow_bounded_def)
  note copied = copy_value_copies [OF copy [unfolded ok] this bounded [OF assms(4)]]
  have "flow_bounded f"
    using flow_progress_copy [OF copy] \<open>flow_bounded ((flow_at g i)\<lparr>fl_active := 1\<rparr>)\<close> by (simp add: flow_progress_def)
  then have "list_all flow_bounded (ge_flows (set_flow i f g))"
    using Suc.prems(3) set_update_subset_insert [of "ge_flows g" i f] by (auto simp: set_flow_def list_all_iff)
  then have IH: "length (ge_flows (set_flow i f g)) = HERMAS_RUNTIME_MAX_FLOWS \<and> list_all flow_bounded (ge_flows (set_flow i f g))"
    using Suc.prems(2) by simp
  have at: "flow_at (set_flow i f g) k = (if k = i then f else flow_at g k)" for k
    using i(1) Suc.prems(2) by simp
  have f: "is_active f" "fl_each_region f = fl_each_region (flow_at g i)"
    using copied copy_value_mark [OF copy] by (simp_all add: is_active_def)
  let ?taken = "\<lambda>g k. k < HERMAS_RUNTIME_MAX_FLOWS \<and> \<not> is_active (flow_at g k) \<and> is_active (flow_at g' k) \<and>
       fl_value_length (flow_at g' k) = fl_value_length (flow_at g source) \<and>
       take (fl_value_length (flow_at g source)) (payload_bytes (fl_value_buffer (flow_at g' k))) =
         take (fl_value_length (flow_at g source)) (payload_bytes (fl_value_buffer (flow_at g source))) \<and>
       fl_each_region (flow_at g' k) = fl_each_region (flow_at g k)"
  have later: "length rest = n" "distinct (source # rest)" "\<forall>k \<in> set rest. ?taken (set_flow i f g) k"
    "\<And>k. k \<notin> set rest \<Longrightarrow> flow_at g' k = flow_at (set_flow i f g) k"
    using Suc.IH [OF fork] IH by blast+
  have new: "i \<notin> set rest" using later(3) at [of i] f(1) by auto
  have "flow_at g' i = f" using later(4) [OF new] unfolding at by simp
  then have "?taken g i" using f copied i by simp
  moreover have "?taken g k" if "k \<in> set rest" for k
  proof -
    have "k \<noteq> i" using that new by blast
    then show ?thesis using bspec [OF later(3) that] i(3) unfolding at by simp
  qed
  moreover have "flow_at g' k = flow_at g k" if "k \<notin> set flows" for k
    using later(4) [of k] that unfolding at by (simp add: flows)
  ultimately show ?case using later(1,2) new i(3) unfolding flows by simp
qed

end
