(* ===== verification/Hermas_Group_Safety.thy ===== *)
theory Hermas_Group_Safety
  imports Hermas_Group_Termination Hermas_Group_Marks
begin

text \<open>
  What holds in every run of a group execution. Each property has two parts: what every state and
  every invocation of a run satisfies, at any depth of the calls and for every accepted
  graph; and that in an acyclic graph the calls of such a run return, so that the first part speaks of
  all the calls a program can make.
\<close>

section \<open>The calls return\<close>

definition calls_return :: "nat \<Rightarrow> hermas_group_execution \<Rightarrow> bool" where
  "calls_return n g \<longleftrightarrow>
     (\<forall>i frame region. hermas_group_accept_result n (Some g) i frame \<noteq> None \<and>
        hermas_group_mark_not_sent n (Some g) i \<noteq> None \<and> hermas_group_mark_unknown n (Some g) i \<noteq> None \<and>
        hermas_group_expire_region n (Some g) region \<noteq> None)"

text \<open>A start that returns, and all calls on all states of all runs from it.\<close>

definition runs_return ::
  "(hermas_runtime_result \<Rightarrow> bool) \<Rightarrow> nat \<Rightarrow>
   (hermas_runtime_result \<times> hermas_group_execution option) option \<Rightarrow> bool" where
  "runs_return admitted n start \<longleftrightarrow>
     (\<exists>r started. start = Some (r, started) \<and>
        (\<forall>g0 fs g. r = HERMAS_RUNTIME_OK \<longrightarrow> started = Some g0 \<longrightarrow> group_reach admitted n g0 fs g \<longrightarrow> calls_return n g))"

lemma settles_returns: "settles f \<Longrightarrow> group_call_depth \<le> n \<Longrightarrow> f n \<noteq> None"
  unfolding settles_def by auto

lemma acyclic_calls_return:
  assumes "acyclic (call_graph (ge_image g))" and "group_call_depth \<le> n"
  shows "calls_return n g"
proof -
  note returns = settles_returns [OF _ assms(2)] and
    settle = accept_settles [OF assms(1)] delivery_outcome_settles [OF assms(1)] expire_settles [OF assms(1)]
  have "hermas_group_accept_result n (Some g) i frame \<noteq> None" for i frame
    using returns [OF settle(1)] by (cases frame) (auto simp: hermas_group_accept_result_def)
  moreover have "hermas_group_mark_not_sent n (Some g) i \<noteq> None" for i
    using returns [OF settle(2)]
    by (auto simp: hermas_group_mark_not_sent_def on_group_def group_mark_not_sent_def)
  moreover have "hermas_group_mark_unknown n (Some g) i \<noteq> None" for i
    using returns [OF settle(2)]
    by (auto simp: hermas_group_mark_unknown_def on_group_def group_mark_unknown_def)
  moreover have "hermas_group_expire_region n (Some g) region \<noteq> None" for region
    using returns [OF settle(3)]
    by (auto simp: hermas_group_expire_region_def on_group_def)
  ultimately show ?thesis by (simp add: calls_return_def)
qed

lemma reach_static:
  assumes "group_reach admitted n g0 fs g"
  shows "ge_image g = ge_image g0 \<and> ge_each_region_count g = ge_each_region_count g0"
  using assms
proof (induction rule: group_reach.induct)
  case (reach_prepare fs g i r g' f)
  then show ?case
    by (auto elim!: prepare_cases simp: group_prepare_def Let_def set_flow_def split: if_splits option.splits)
next
  case (reach_sent fs g i r g')
  then show ?case using group_progress_static progress_mark_sent by metis
next
  case (reach_result fs g i f r g')
  then show ?case using group_progress_static reach_progress by metis
qed (auto simp: hermas_group_mark_not_sent_def hermas_group_mark_unknown_def hermas_group_expire_region_def
    group_mark_not_sent_def group_mark_unknown_def
    dest!: progress_delivery_outcome progress_expire_region dest: group_progress_static(1,5))

lemma acyclic_runs_return:
  assumes "acyclic (call_graph img)" and "group_call_depth \<le> n"
  shows "runs_return admitted n
    (hermas_group_start n (Some old) (Some img) size0 xid (Some storage) cap stride type_id input len)"
proof -
  obtain r started where start: "hermas_group_start n (Some old) (Some img) size0 xid (Some storage) cap stride
      type_id input len = Some (r, started)"
    using settles_returns [OF start_settles [OF assms(1)] assms(2)] by fastforce
  have "calls_return n g"
    if "r = HERMAS_RUNTIME_OK" "started = Some g0" "group_reach admitted n g0 fs g" for g0 fs g
  proof (rule acyclic_calls_return [OF _ assms(2)])
    have "ge_image g0 = img"
      using group_progress_static(1) [OF start_loaded(1)] start that(1,2) loaded_group_fields(6) by metis
    then show "acyclic (call_graph (ge_image g))" using reach_static [OF that(3)] assms(1) by simp
  qed
  then show ?thesis using start by (simp add: runs_return_def)
qed

section \<open>What every state of a run satisfies\<close>

lemma run_request_ids:
  assumes "group_inv xid stride [] g0" and "group_reach admitted m g0 fs g"
  shows "map fr_request_id fs = map of_nat [1..<Suc (length fs)] \<and> distinct (map fr_request_id fs) \<and>
    0 \<notin> set (map fr_request_id fs) \<and> list_all (\<lambda>f. fr_execution_id f = xid) fs \<and>
    distinct (filter (\<lambda>k. k \<noteq> 0) (map fl_request_id (ge_flows g))) \<and>
    list_all (\<lambda>f. unat (fl_request_id f) \<le> length fs) (ge_flows g)"
proof -
  have "group_inv xid stride fs g" by (rule group_reach_inv [OF assms(2,1)])
  then show ?thesis using distinct_ids [of fs] by (simp add: group_inv_def list.pred_map o_def del: upt_Suc list.set_map)
qed

lemma run_values:
  assumes "group_inv xid stride [] g0" and "group_reach admitted m g0 fs g"
  shows "length (ge_flows g) = HERMAS_RUNTIME_MAX_FLOWS \<and>
      list_all (\<lambda>f. fl_value_length f \<le> stride \<and> (\<exists>b. fl_value_buffer f = Some b \<and> length b = stride)) (ge_flows g) \<and>
      ge_each_collection_length g \<le> HERMAS_PROTOCOL_MAX_PAYLOAD_SIZE \<and>
      length (ge_each_collection g) = HERMAS_PROTOCOL_MAX_PAYLOAD_SIZE \<and>
      length (ge_each_source_snapshot g) = HERMAS_PROTOCOL_MAX_PAYLOAD_SIZE"
proof -
  have "group_inv xid stride fs g" by (rule group_reach_inv [OF assms(2,1)])
  then show ?thesis by (auto simp: group_inv_def each_bounded_def flow_bounded_def list_all_iff)
qed

lemma run_outcome:
  assumes "group_reach admitted n g fs g'"
  shows "group_outcome_precedence (ge_pending_outcome g) \<le> group_outcome_precedence (ge_pending_outcome g') \<and>
    (ge_complete g = 0 \<or> ge_complete g' \<noteq> 0 \<and> fs = [])"
  using assms
proof (induction rule: group_reach.induct)
  case (reach_prepare fs g1 i r g' f)
  then show ?case using complete_prepares_nothing [OF reach_prepare.hyps(2)] by auto
next
  case reach_start
  show ?case by simp
next
  case (reach_sent fs g1 i r g')
  then show ?case using progress_mark_sent by (fastforce simp: group_progress_def)
next
  case (reach_not_sent fs g1 i r g')
  then show ?case using progress_delivery_outcome
    by (fastforce simp: hermas_group_mark_not_sent_def group_mark_not_sent_def group_progress_def)
next
  case (reach_unknown fs g1 i r g')
  then show ?case using progress_delivery_outcome
    by (fastforce simp: hermas_group_mark_unknown_def group_mark_unknown_def group_progress_def)
next
  case (reach_result fs g1 i f r g')
  then show ?case using reach_progress by (fastforce simp: group_progress_def)
next
  case (reach_expire fs g1 region r g')
  then show ?case using progress_expire_region
    by (fastforce simp: hermas_group_expire_region_def group_progress_def)
qed

section \<open>Properties of runs\<close>

text \<open>C15: One delivery at a time: in a run of a started group in which no call failed, two different
  flows with a prepared or sent request for the same Action of the same app carry the mark of the
  same each region, and the graph has an each region; so in a graph without each regions no two
  flows ever have requests for one Action. In a graph whose calls are acyclic the start and every call
  of the run return. (The first part is about marks and not about items, because a slot
  keeps the mark of an item that was cut off and \<open>group_enter_fork\<close> hands it on, see C32: two fork
  branches in such slots do share an Action.)\<close>

theorem group_single_flight:
  assumes "cap \<le> length storage"
  shows "(\<forall>n m g0 fs g i j.
      hermas_group_start n (Some old) (Some img) size0 xid (Some storage) cap stride type_id input len =
        Some (HERMAS_RUNTIME_OK, Some g0) \<and>
      group_reach (\<lambda>r. r = HERMAS_RUNTIME_OK) m g0 fs g \<and>
      i < HERMAS_RUNTIME_MAX_FLOWS \<and> j < HERMAS_RUNTIME_MAX_FLOWS \<and> i \<noteq> j \<and>
      in_flight (flow_at g i) \<and> in_flight (flow_at g j) \<and>
      delivery_action img (flow_at g i) = delivery_action img (flow_at g j) \<longrightarrow>
      fl_each_region (flow_at g i) = fl_each_region (flow_at g j) \<and> fl_each_region (flow_at g i) \<noteq> 0 \<and>
      ge_each_region_count g0 \<noteq> 0) \<and>
    (\<forall>n. acyclic (call_graph img) \<and> group_call_depth \<le> n \<longrightarrow>
      runs_return (\<lambda>r. r = HERMAS_RUNTIME_OK) n
        (hermas_group_start n (Some old) (Some img) size0 xid (Some storage) cap stride type_id input len))"
proof (intro conjI allI impI)
  fix n m g0 fs g i j
  assume run: "hermas_group_start n (Some old) (Some img) size0 xid (Some storage) cap stride type_id input len =
        Some (HERMAS_RUNTIME_OK, Some g0) \<and>
      group_reach (\<lambda>r. r = HERMAS_RUNTIME_OK) m g0 fs g \<and>
      i < HERMAS_RUNTIME_MAX_FLOWS \<and> j < HERMAS_RUNTIME_MAX_FLOWS \<and> i \<noteq> j \<and>
      in_flight (flow_at g i) \<and> in_flight (flow_at g j) \<and>
      delivery_action img (flow_at g i) = delivery_action img (flow_at g j)"
  then have start: "hermas_group_start n (Some old) (Some img) size0 xid (Some storage) cap stride type_id input len =
      Some (HERMAS_RUNTIME_OK, Some g0)" and reach: "group_reach (\<lambda>r. r = HERMAS_RUNTIME_OK) m g0 fs g" by blast+
  note inv0 = start_inv [OF start assms]
  have flight: "single_flight g" and image: "ge_image g = img"
    using single_flight_reach [OF reach start_single_flight [OF start] inv0]
      group_progress_static(1) [OF start_loaded(1) [OF start]] loaded_group_fields(6) by simp_all
  have len: "length (ge_flows g) = HERMAS_RUNTIME_MAX_FLOWS"
    using group_reach_inv [OF reach inv0] by (simp add: group_inv_def)
  show same: "fl_each_region (flow_at g i) = fl_each_region (flow_at g j)" and marked: "fl_each_region (flow_at g i) \<noteq> 0"
    using single_flightD [OF flight, of i j] run len image by simp_all
  show "ge_each_region_count g0 \<noteq> 0"
  proof
    assume "ge_each_region_count g0 = 0"
    then have "unmarked g" using unmarked_reach [OF reach] start_unmarked [OF start] by blast
    then show False using marked run len by (simp add: unmarked_def)
  qed
qed (use acyclic_runs_return in blast)

text \<open>C16: Request IDs of a group execution are never reused: whatever calls are made on a started group
  and whatever they return, its invocations carry the execution ID and the request IDs 1, 2, 3 and so
  on, and the IDs that its flows hold are distinct and among those handed out. In a graph
  whose calls are acyclic the start and every call of the run return.\<close>

theorem group_request_ids:
  assumes "cap \<le> length storage"
  shows "(\<forall>n m g0 fs g.
      hermas_group_start n (Some old) (Some img) size0 xid (Some storage) cap stride type_id input len =
        Some (HERMAS_RUNTIME_OK, Some g0) \<and> group_reach admitted m g0 fs g \<longrightarrow>
      map fr_request_id fs = map of_nat [1..<Suc (length fs)] \<and> distinct (map fr_request_id fs) \<and>
      0 \<notin> set (map fr_request_id fs) \<and> list_all (\<lambda>f. fr_execution_id f = xid) fs \<and>
      distinct (filter (\<lambda>k. k \<noteq> 0) (map fl_request_id (ge_flows g))) \<and>
      list_all (\<lambda>f. unat (fl_request_id f) \<le> length fs) (ge_flows g)) \<and>
    (\<forall>n. acyclic (call_graph img) \<and> group_call_depth \<le> n \<longrightarrow>
      runs_return admitted n
        (hermas_group_start n (Some old) (Some img) size0 xid (Some storage) cap stride type_id input len))"
  (is "?safe \<and> ?total")
proof (rule conjI)
  show "?safe" by (intro allI impI, elim conjE) (rule run_request_ids [OF start_inv [OF _ assms]])
qed (simp add: acyclic_runs_return)

text \<open>C17: The group runtime stays in its memory: whatever calls are made on a started group and whatever
  they return, every flow's value stays within the flow's slice of the caller's storage, and the
  collected list of an each region within its array. In a graph whose calls are acyclic the start and
  every call of the run return.\<close>

theorem group_values_bounded:
  assumes "cap \<le> length storage"
  shows "(\<forall>n m g0 fs g.
      hermas_group_start n (Some old) (Some img) size0 xid (Some storage) cap stride type_id input len =
        Some (HERMAS_RUNTIME_OK, Some g0) \<and> group_reach admitted m g0 fs g \<longrightarrow>
      length (ge_flows g) = HERMAS_RUNTIME_MAX_FLOWS \<and>
      list_all (\<lambda>f. fl_value_length f \<le> stride \<and> (\<exists>b. fl_value_buffer f = Some b \<and> length b = stride)) (ge_flows g) \<and>
      ge_each_collection_length g \<le> HERMAS_PROTOCOL_MAX_PAYLOAD_SIZE \<and>
      length (ge_each_collection g) = HERMAS_PROTOCOL_MAX_PAYLOAD_SIZE \<and>
      length (ge_each_source_snapshot g) = HERMAS_PROTOCOL_MAX_PAYLOAD_SIZE) \<and>
    (\<forall>n. acyclic (call_graph img) \<and> group_call_depth \<le> n \<longrightarrow>
      runs_return admitted n
        (hermas_group_start n (Some old) (Some img) size0 xid (Some storage) cap stride type_id input len))"
  (is "?safe \<and> ?total")
proof (rule conjI)
  show "?safe" by (intro allI impI, elim conjE) (rule run_values [OF start_inv [OF _ assms]])
qed (simp add: acyclic_runs_return)

text \<open>C18: The outcome of a group only gets worse (success, not sent, application error, unknown, in this
  order), a complete execution stays complete, and a complete execution hands out no invocation:
  whatever calls are made and whatever they return. In a graph whose calls are acyclic every call on
  every state of the run returns.\<close>

theorem group_outcome_worsens:
  "(\<forall>n fs g'. group_reach admitted n g fs g' \<longrightarrow>
      group_outcome_precedence (ge_pending_outcome g) \<le> group_outcome_precedence (ge_pending_outcome g') \<and>
      (ge_complete g = 0 \<or> ge_complete g' \<noteq> 0 \<and> fs = [])) \<and>
   (\<forall>n fs g'. acyclic (call_graph (ge_image g)) \<and> group_call_depth \<le> n \<and> group_reach admitted n g fs g' \<longrightarrow>
      calls_return n g')"
  using run_outcome acyclic_calls_return reach_static by metis

end
