(* ===== verification/Hermas_Group_Samples.thy ===== *)
theory Hermas_Group_Samples
  imports Hermas_Each_Samples Hermas_Runtime_Samples Hermas_Group_Safety
begin

definition each_input :: bytes where
  "each_input = [2, 0, 0, 0, 0, 0, 0, 0, 42, 0, 0, 0, 0, 0, 0, 0, 43, 0, 0, 0, 0, 0, 0, 0]"

lemma each_first_edge:
  "first_edge each_image P = (if P 176 then Some 176 else if P 192 then Some 192
     else if P 208 then Some 208 else if P 224 then Some 224 else if P 240 then Some 240
     else if P 256 then Some 256 else if P 272 then Some 272 else None)"
proof -
  have "unat (read_u16 each_image 32) = 7" "unat (read_u32 each_image 52) = 176" by (simp_all add: sample_reads)
  then show ?thesis by (simp add: first_edge_def first_index_def each_indices)
qed

lemma each_fields [simp]:
  "unat (read_u32 each_image 44) = 120" "unat (read_u16 each_image 34) = 2" "unat (read_u32 each_image 60) = 328"
  by (simp_all add: sample_reads)

lemma each_walks:
  "representation_walk 64 each_image 328 320 = Inr 328"
  "c + 8 \<le> size0 \<Longrightarrow> value_walk 64 each_image 328 payload size0 (320, c) = Inr (328, c + 8)"
  by (simp_all add: representation_walk.simps(2) [of 63, simplified] value_walk.simps(2) [of 63, simplified]
      representation_valid_def sample_reads)

lemma each_input_conforms:
  "hermas_image_validate_value (Some each_image) 329 2 (Some each_input) 24 = HERMAS_IMAGE_OK"
proof -
  have "first_index (\<lambda>index. read_u16 each_image (120 + index * 8) = 2) 2 = Some 1"
    by (simp add: first_index_def sample_indices sample_reads)
  moreover have "validate_value_inner each_image 328 312 each_input 24 0 0 = Inr (328, 24)"
    by (simp add: validate_value_inner_def value_walk.simps(2) [of 64, simplified] each_walks
      value_head_def payload_u32_def each_input_def sample_reads sample_indices)
  moreover have "unat (read_u32 each_image 132) = 312" by (simp add: sample_reads)
  ultimately show ?thesis
    by (simp add: hermas_image_validate_value_def validate_each value_conforms_def payload_bytes_def)
qed

text \<open>The items of the list, whatever follows it in the buffer.\<close>

lemma each_items:
  "hermas_image_list_items (Some each_image) 329 2 (Some (each_input @ rest)) 24 0 offsets lengths 256 =
     (HERMAS_IMAGE_OK, 2, offsets[0 := 8, 1 := 16], lengths[0 := 8, 1 := 8])"
proof -
  have "type_descriptor each_image 120 2 328 2 = Some (312, 328)"
    by (simp add: type_descriptor_def first_index_def sample_indices sample_reads)
  moreover have "validate_representation each_image 328 320 (Suc 0) = Inr 328"
    by (simp add: validate_representation_def each_walks)
  moreover have "validate_value_inner each_image 328 320 (each_input @ rest) 24 c (Suc 0) = Inr (328, c + 8)"
    if "c + 8 \<le> 24" for c
    using that by (simp add: validate_value_inner_def each_walks)
  moreover have "read_u32 (each_input @ rest) 0 = 2" "read_u32 (each_input @ rest) 4 = 0"
    by (simp_all add: each_input_def read_u32_def)
  moreover have "read_u32 each_image 316 = 2" by (simp add: sample_reads)
  ultimately show ?thesis
    by (simp add: hermas_image_list_items_def validate_each list_items_def list_item_step_def sample_indices)
qed

section \<open>Start\<close>

definition each_storage :: bytes where
  "each_storage = replicate 256 0"

definition each_loaded :: hermas_group_execution where
  "each_loaded = loaded_group each_image 329 5 each_storage 32"

lemma replicate_eight: "replicate 8 x = [x, x, x, x, x, x, x, x]"
  by (simp add: numeral_eq_Suc)

definition each_slot :: hermas_flow where
  "each_slot = no_flow\<lparr>fl_value_buffer := Some (replicate 32 0), fl_value_capacity := 32\<rparr>"

lemma each_loaded_fields:
  "ge_each_region_count each_loaded = 1" "ge_each_concurrency each_loaded = [2, 0, 0, 0, 0, 0, 0, 0]"
  "ge_each_source_types each_loaded = [2, 0, 0, 0, 0, 0, 0, 0]" "ge_each_bounds each_loaded = [2, 0, 0, 0, 0, 0, 0, 0]"
  "ge_active_each_region each_loaded = 0" "ge_each_collected_types each_loaded = [2, 0, 0, 0, 0, 0, 0, 0]"
  "ge_each_source_snapshot each_loaded = replicate HERMAS_PROTOCOL_MAX_PAYLOAD_SIZE 0"
  "ge_flows each_loaded = [each_slot\<lparr>fl_active := 1\<rparr>, each_slot, each_slot, each_slot, each_slot, each_slot, each_slot, each_slot]"
  "ge_image each_loaded = each_image" "ge_image_size each_loaded = 329"
  by (simp_all add: each_loaded_def loaded_group_def load_flows_def set_deadline_def load_regions_def load_region_def
      no_group_def sample_reads Let_def replicate_eight each_indices each_slot_def each_storage_def chunk_def)

definition each_item :: "nat \<Rightarrow> hermas_flow" where
  "each_item k = each_slot\<lparr>fl_value_buffer :=
      Some (if k = 0 then write_bytes (write_bytes (replicate 32 0) 0 each_input) 0 [42, 0, 0, 0, 0, 0, 0, 0]
            else write_bytes (replicate 32 0) 0 [43, 0, 0, 0, 0, 0, 0, 0]),
     fl_value_length := 8, fl_current_node := 1, fl_value_source_type := 1, fl_value_destination_type := 1,
     fl_each_region := 1, fl_item_index := of_nat k, fl_state := HERMAS_EXECUTION_READY, fl_active := 1\<rparr>"

definition each_head :: hermas_flow where
  "each_head = each_slot\<lparr>fl_value_buffer := Some (write_bytes (replicate 32 0) 0 each_input),
     fl_value_length := 24, fl_active := 1\<rparr>"

definition each_opened :: hermas_group_execution where
  "each_opened = each_open (each_loaded\<lparr>ge_flows := (ge_flows each_loaded) [0 := each_head\<lparr>
       fl_value_source_type := 2, fl_value_destination_type := 2, fl_current_node := 1\<rparr>],
     ge_each_source_snapshot := each_input @ replicate 65464 0,
     ge_each_item_offsets := (ge_each_item_offsets each_loaded)[0 := 8, 1 := 16],
     ge_each_item_lengths := (ge_each_item_lengths each_loaded)[0 := 8, 1 := 8]\<rparr>) 0 1 2"

definition each_started :: hermas_group_execution where
  "each_started = each_opened\<lparr>ge_each_next_item := 2,
     ge_flows := [each_item 0, each_item 1, each_slot, each_slot, each_slot, each_slot, each_slot, each_slot]\<rparr>"

lemma each_snapshot:
  "write_bytes (replicate 65488 0) 0 (take 24 (payload_bytes (Some (write_bytes (replicate 32 0) 0 each_input)))) =
     each_input @ replicate 65464 0"
  by (simp add: write_bytes_def payload_bytes_def each_input_def)

lemmas each_flow_defs = each_item_def each_head_def each_slot_def no_flow_def

lemma each_root:
  "group_enter_edge 4 (set_flow 0 each_head each_loaded) 0 176 HERMAS_OUTCOME_NONE =
   group_each_admit 3 (group_enter_edge 3) each_opened"
  by (simp add: group_enter_edge.simps(2) [of 3, simplified] sample_reads entering_flow_def Let_def flow_at_def set_flow_def
      each_loaded_fields group_each_start_def each_list_def each_head_def each_snapshot each_items each_opened_def)

lemma each_opened_fields:
  "ge_each_region_count each_opened = 1" "ge_each_concurrency each_opened = [2, 0, 0, 0, 0, 0, 0, 0]"
  "ge_active_each_region each_opened = 1" "ge_each_next_item each_opened = 0" "ge_each_item_count each_opened = 2"
  "ge_flows each_opened = [each_head\<lparr>fl_value_source_type := 2, fl_value_destination_type := 2, fl_current_node := 1,
     fl_active := 0, fl_each_region := 0\<rparr>, each_slot, each_slot, each_slot, each_slot, each_slot, each_slot, each_slot]"
  "ge_image each_opened = each_image" "ge_each_source_snapshot each_opened = each_input @ replicate 65464 0"
  "ge_each_item_offsets each_opened ! 0 = 8" "ge_each_item_offsets each_opened ! Suc 0 = 16"
  "ge_each_item_lengths each_opened ! 0 = 8" "ge_each_item_lengths each_opened ! Suc 0 = 8"
  "length (ge_each_item_lengths each_loaded) = 256"
proof -
  have arrays: "length (ge_each_item_offsets each_loaded) = 256" "length (ge_each_item_lengths each_loaded) = 256"
    by (simp_all add: each_loaded_def loaded_group_def load_flows_def set_deadline_def load_regions_def load_region_def
      no_group_def Let_def sample_reads)
  show "ge_each_region_count each_opened = 1" "ge_each_concurrency each_opened = [2, 0, 0, 0, 0, 0, 0, 0]"
    "ge_active_each_region each_opened = 1" "ge_each_next_item each_opened = 0" "ge_each_item_count each_opened = 2"
    "ge_image each_opened = each_image" "ge_each_source_snapshot each_opened = each_input @ replicate 65464 0"
    "ge_flows each_opened = [each_head\<lparr>fl_value_source_type := 2, fl_value_destination_type := 2, fl_current_node := 1,
     fl_active := 0, fl_each_region := 0\<rparr>, each_slot, each_slot, each_slot, each_slot, each_slot, each_slot, each_slot]"
    by (simp_all add: each_opened_def each_open_def set_flow_def flow_at_def each_loaded_fields)
  show "ge_each_item_offsets each_opened ! 0 = 8" "ge_each_item_offsets each_opened ! Suc 0 = 16"
    "ge_each_item_lengths each_opened ! 0 = 8" "ge_each_item_lengths each_opened ! Suc 0 = 8"
    "length (ge_each_item_lengths each_loaded) = 256"
    using arrays by (simp_all add: each_opened_def each_open_def set_flow_def)
qed

definition each_admitted :: hermas_group_execution where
  "each_admitted = each_opened\<lparr>ge_each_next_item := 1,
     ge_flows := [each_item 0, each_slot, each_slot, each_slot, each_slot, each_slot, each_slot, each_slot]\<rparr>"

lemma each_enter_item:
  assumes "ge_image g = each_image"
  shows "group_find_edge g 8 1 0 = Some 192"
    and "group_enter_edge 3 g slot 192 outcome = Some (HERMAS_RUNTIME_OK, set_flow slot ((flow_at g slot)
      \<lparr>fl_value_source_type := 1, fl_value_destination_type := 1, fl_current_node := 1,
        fl_state := HERMAS_EXECUTION_READY, fl_active := 1\<rparr>) g)"
  by (simp_all add: group_find_edge_def assms each_first_edge sample_reads group_enter_edge.simps(2) [where n = 2, simplified]
      entering_flow_def)

lemma each_admit_first:
  "admit_item 1 0 each_opened = (HERMAS_RUNTIME_OK, each_opened\<lparr>ge_each_next_item := 1,
     ge_flows := [(each_item 0)\<lparr>fl_value_source_type := 2, fl_value_destination_type := 2, fl_state := HERMAS_EXECUTION_EMPTY\<rparr>,
       each_slot, each_slot, each_slot, each_slot, each_slot, each_slot, each_slot]\<rparr>)"
  by (simp add: admit_item_def each_opened_fields group_copy_value_def flow_at_def set_flow_def each_flow_defs)
    (simp add: each_input_def)

lemma each_admit_second:
  "admit_item 1 (Suc 0) each_admitted = (HERMAS_RUNTIME_OK, each_opened\<lparr>ge_each_next_item := 2,
     ge_flows := [each_item 0, (each_item 1)\<lparr>fl_value_source_type := 0, fl_value_destination_type := 0,
       fl_current_node := 0, fl_state := HERMAS_EXECUTION_EMPTY\<rparr>,
       each_slot, each_slot, each_slot, each_slot, each_slot, each_slot]\<rparr>)"
  by (simp add: admit_item_def each_admitted_def each_opened_fields group_copy_value_def flow_at_def set_flow_def each_flow_defs)
    (simp add: each_input_def)

lemma each_find_slot:
  "find_flow (each_opened) (\<lambda>_ f. \<not> is_active f) = Some 0"
  "find_flow each_admitted (\<lambda>_ f. \<not> is_active f) = Some 1"
  "active_items 1 each_opened = 0" "active_items 1 each_admitted = 1" "active_items 1 each_started = 2"
  by (simp_all add: find_flow_def first_index_def active_items_def flow_at_def each_indices each_opened_fields
      each_admitted_def each_started_def each_flow_defs is_active_def)

lemma each_admit:
  "group_admit_items 3 (group_enter_edge 3) 1 each_opened = Some (HERMAS_RUNTIME_OK, each_started)"
proof -
  have second: "group_admit_items 2 (group_enter_edge 3) 1 each_admitted = Some (HERMAS_RUNTIME_OK, each_started)"
  proof -
    have "group_admit_items 1 (group_enter_edge 3) 1 each_started = Some (HERMAS_RUNTIME_OK, each_started)"
      by (simp add: group_admit_items.simps(2) [where n = 0, simplified] each_find_slot)
        (simp add: each_started_def each_opened_fields)
    moreover have "set_flow 1 ((flow_at g 1)\<lparr>fl_value_source_type := 1, fl_value_destination_type := 1, fl_current_node := 1,
        fl_state := HERMAS_EXECUTION_READY, fl_active := 1\<rparr>) g = each_started"
      if "g = snd (admit_item 1 (Suc 0) each_admitted)" for g
      unfolding that each_admit_second by (simp add: set_flow_def flow_at_def each_started_def each_flow_defs)
    moreover have "ge_each_next_item each_admitted = 1" "ge_each_item_count each_admitted = 2"
      "ge_each_concurrency each_admitted = [2, 0, 0, 0, 0, 0, 0, 0]"
      by (simp_all add: each_admitted_def each_opened_fields)
    ultimately show ?thesis
      by (simp add: group_admit_items.simps(2) [where n = 1, unfolded Suc_1] each_find_slot each_enter_item and_then_def
          each_admit_second each_opened_fields word_le_nat_alt del: group_admit_items.simps)
  qed
  have "set_flow 0 ((flow_at g 0)\<lparr>fl_value_source_type := 1, fl_value_destination_type := 1, fl_current_node := 1,
      fl_state := HERMAS_EXECUTION_READY, fl_active := 1\<rparr>) g = each_admitted"
    if "g = snd (admit_item 1 0 each_opened)" for g
    unfolding that each_admit_first by (simp add: set_flow_def flow_at_def each_admitted_def each_flow_defs)
  then show ?thesis
    using second by (simp add: group_admit_items.simps(2) [where n = 2, simplified] each_find_slot each_enter_item
        and_then_def each_admit_first each_opened_fields)
qed

lemma each_start:
  "4 \<le> n \<Longrightarrow> hermas_group_start n (Some no_group) (Some each_image) 329 5 (Some each_storage) 256 32 2 (Some each_input) 24 =
   Some (HERMAS_RUNTIME_OK, Some each_started)"
proof -
  assume deep: "4 \<le> n"
  have copy: "group_copy_value (each_slot\<lparr>fl_active := 1\<rparr>) (Some each_input) 24 = (HERMAS_RUNTIME_OK, each_head)"
    by (simp add: group_copy_value_def each_flow_defs) (simp add: each_input_def)
  have root: "group_find_edge (set_flow 0 each_head each_loaded) 0 0 0 = Some 176"
    by (simp add: group_find_edge_def set_flow_def each_loaded_fields each_first_edge sample_reads)
  have "group_each_admit 3 (group_enter_edge 3) each_opened = Some (HERMAS_RUNTIME_OK, each_started)"
    by (simp add: group_each_admit_def each_opened_fields each_admit)
  then have "group_enter_edge n (set_flow 0 each_head each_loaded) 0 176 HERMAS_OUTCOME_NONE =
      Some (HERMAS_RUNTIME_OK, each_started)"
    using enter_edge_mono [OF _ deep] each_root by metis
  then have "group_start_flow n each_loaded (Some each_input) 24 = Some (HERMAS_RUNTIME_OK, each_started)"
    by (simp add: group_start_flow_def flow_at_def each_loaded_fields copy root)
  then show ?thesis
    by (simp add: hermas_group_start_def validate_each image_summary_def each_input_conforms each_loaded_def)
qed

section \<open>Two deliveries\<close>

definition each_prepared :: "nat \<Rightarrow> hermas_flow" where
  "each_prepared k = (each_item k)\<lparr>fl_request_id := of_nat k + 1, fl_state := HERMAS_EXECUTION_PREPARED\<rparr>"

definition each_first :: hermas_group_execution where
  "each_first = each_started\<lparr>ge_next_request_id := 2,
     ge_flows := [each_prepared 0, each_item 1, each_slot, each_slot, each_slot, each_slot, each_slot, each_slot]\<rparr>"

definition each_second :: hermas_group_execution where
  "each_second = each_started\<lparr>ge_next_request_id := 3,
     ge_flows := [each_prepared 0, each_prepared 1, each_slot, each_slot, each_slot, each_slot, each_slot, each_slot]\<rparr>"

definition each_invocation :: "nat \<Rightarrow> hermas_frame" where
  "each_invocation k = group_invocation each_started (each_item k) (of_nat k + 1) 7 9"

lemma each_started_fields:
  "ge_image each_started = each_image" "ge_complete each_started = 0" "ge_next_request_id each_started = 1"
  "ge_execution_id each_started = 5" "ge_pending_outcome each_started = 0"
proof -
  note loaded = loaded_group_fields [of each_image 329 5 each_storage 32, folded each_loaded_def]
  show "ge_image each_started = each_image" "ge_complete each_started = 0" "ge_next_request_id each_started = 1"
    "ge_execution_id each_started = 5" "ge_pending_outcome each_started = 0"
    using loaded by (simp_all add: each_started_def each_opened_def each_open_def set_flow_def)
qed

lemma each_flow_fields [simp]:
  "is_active (each_item k)" "fl_state (each_item k) = HERMAS_EXECUTION_READY" "fl_current_node (each_item k) = 1"
  "fl_each_region (each_item k) = 1" "is_active (each_prepared k)" "fl_state (each_prepared k) = HERMAS_EXECUTION_PREPARED"
  "fl_current_node (each_prepared k) = 1" "fl_each_region (each_prepared k) = 1" "\<not> is_active each_slot"
  by (simp_all add: each_prepared_def each_flow_defs is_active_def)

lemma each_flows [simp]:
  "ge_flows each_started = [each_item 0, each_item 1, each_slot, each_slot, each_slot, each_slot, each_slot, each_slot]"
  "ge_flows each_first = [each_prepared 0, each_item 1, each_slot, each_slot, each_slot, each_slot, each_slot, each_slot]"
  "ge_flows each_second = [each_prepared 0, each_prepared 1, each_slot, each_slot, each_slot, each_slot, each_slot, each_slot]"
  by (simp_all add: each_started_def each_first_def each_second_def)

lemma each_first_fields:
  "ge_image each_first = each_image" "ge_complete each_first = 0" "ge_next_request_id each_first = 2"
  "ge_execution_id each_first = 5" "ge_image each_second = each_image" "ge_complete each_second = 0"
  "ge_pending_outcome each_second = 0"
  using each_started_fields by (simp_all add: each_first_def each_second_def)

lemma each_node: "node_record each_image 1 = 136" "each_image ! 136 = 1" "read_u16 each_image 140 = 7" "read_u16 each_image 138 = 9"
  by (simp_all add: node_record_def sample_reads)

lemma each_no_conflict: "first_conflict each_started 0 7 9 = None" "first_conflict each_first (Suc 0) 7 9 = None"
  by (simp_all add: first_conflict_def first_index_def each_indices delivery_conflict_def flow_at_def
      each_started_fields each_first_fields each_node Let_def)

lemma each_prepare_first:
  "hermas_group_prepare (Some each_started) 0 (Some no_frame) =
     (HERMAS_RUNTIME_OK, Some each_first, Some (each_invocation 0))"
proof -
  have "set_flow 0 ((each_item 0)\<lparr>fl_request_id := 1, fl_state := HERMAS_EXECUTION_PREPARED\<rparr>)
      (each_started\<lparr>ge_next_request_id := 2\<rparr>) = each_first"
    by (simp add: set_flow_def each_first_def each_prepared_def)
  then show ?thesis
    by (simp add: hermas_group_prepare_def group_prepare_def each_started_fields flow_at_def each_node Let_def each_no_conflict each_invocation_def)
qed

lemma each_prepare_second:
  "hermas_group_prepare (Some each_first) (Suc 0) (Some no_frame) =
     (HERMAS_RUNTIME_OK, Some each_second, Some (each_invocation 1))"
proof -
  have "set_flow (Suc 0) ((each_item 1)\<lparr>fl_request_id := 2, fl_state := HERMAS_EXECUTION_PREPARED\<rparr>)
      (each_first\<lparr>ge_next_request_id := 3\<rparr>) = each_second"
    by (simp add: set_flow_def each_first_def each_second_def each_prepared_def)
  moreover have "group_invocation each_first (each_item 1) 2 7 9 = each_invocation 1"
    by (simp add: each_invocation_def group_invocation_def each_first_fields each_started_fields)
  ultimately show ?thesis
    by (simp add: hermas_group_prepare_def group_prepare_def each_first_fields flow_at_def each_node Let_def each_no_conflict)
qed

lemma each_run:
  "group_reach (\<lambda>r. r = HERMAS_RUNTIME_OK) n each_started [each_invocation 0, each_invocation 1] each_second"
  using reach_prepare [OF reach_prepare [OF reach_start each_prepare_first] each_prepare_second]
  by simp

section \<open>Witnesses\<close>

text \<open>No edge of the image leads from a dispatch, fork, join or region to another without an Action between.\<close>

lemma each_call_graph: "acyclic (call_graph each_image)"
proof -
  have "edge_offsets each_image = [176, 192, 208, 224, 240, 256, 272]"
    by (simp add: edge_offsets_def read_header_each each_indices)
  then have "call_graph each_image = {}"
    by (auto simp: call_graph_def edge_from_def edge_into_def)
  then show ?thesis by (simp add: acyclic_def)
qed

abbreviation each_start_call :: "nat \<Rightarrow> (hermas_runtime_result \<times> hermas_group_execution option) option" where
  "each_start_call n \<equiv> hermas_group_start n (Some no_group) (Some each_image) 329 5 (Some each_storage) 256 32 2
     (Some each_input) 24"

theorem group_single_flight_witness:
  "in_flight (flow_at each_second 0) \<and> in_flight (flow_at each_second 1) \<and>
   delivery_action each_image (flow_at each_second 0) = delivery_action each_image (flow_at each_second 1) \<and>
   fl_each_region (flow_at each_second 0) = fl_each_region (flow_at each_second 1) \<and>
   runs_return (\<lambda>r. r = HERMAS_RUNTIME_OK) group_call_depth (each_start_call group_call_depth)"
proof -
  have flight: "in_flight (flow_at each_second 0)" "in_flight (flow_at each_second 1)"
    and same: "delivery_action each_image (flow_at each_second 0) = delivery_action each_image (flow_at each_second 1)"
    by (simp_all add: flow_at_def in_flight_def delivery_action_def)
  have cap: "256 \<le> length each_storage" by (simp add: each_storage_def)
  note single = group_single_flight [OF cap, of no_group each_image 329 5 32 2 "Some each_input" 24]
  show ?thesis
    using flight same single [THEN conjunct1, rule_format, of 4 each_started 4 _ each_second 0 1]
      single [THEN conjunct2, rule_format, of group_call_depth] each_start [of 4] each_run [of 4] each_call_graph
    by simp
qed

theorem group_request_ids_witness:
  "map fr_request_id [each_invocation 0, each_invocation 1] = [1, 2] \<and>
   distinct (filter (\<lambda>k. k \<noteq> 0) (map fl_request_id (ge_flows each_second))) \<and>
   runs_return (\<lambda>r. r = HERMAS_RUNTIME_OK) group_call_depth (each_start_call group_call_depth)"
proof -
  have cap: "256 \<le> length each_storage" by (simp add: each_storage_def)
  note ids = group_request_ids [OF cap, of no_group each_image 329 5 32 2 "Some each_input" 24 "\<lambda>r. r = HERMAS_RUNTIME_OK"]
  show ?thesis
    using ids [THEN conjunct1, rule_format, of 4 each_started 4 "[each_invocation 0, each_invocation 1]" each_second]
      ids [THEN conjunct2, rule_format, of group_call_depth] each_start [of 4] each_run [of 4] each_call_graph
    by simp
qed

theorem group_values_bounded_witness:
  "length (ge_flows each_second) = 8 \<and> fl_value_length (flow_at each_second 0) \<le> 32 \<and>
   ge_each_collection_length each_second \<le> 65488 \<and>
   runs_return (\<lambda>r. r = HERMAS_RUNTIME_OK) group_call_depth (each_start_call group_call_depth)"
proof -
  have cap: "256 \<le> length each_storage" by (simp add: each_storage_def)
  note bounded = group_values_bounded [OF cap, of no_group each_image 329 5 32 2 "Some each_input" 24 "\<lambda>r. r = HERMAS_RUNTIME_OK"]
  show ?thesis
    using bounded [THEN conjunct1, rule_format, of 4 each_started 4 "[each_invocation 0, each_invocation 1]" each_second]
      bounded [THEN conjunct2, rule_format, of group_call_depth] each_start [of 4] each_run [of 4] each_call_graph
    by (simp add: flow_at_def)
qed

theorem group_outcome_worsens_witness:
  "group_outcome_precedence (ge_pending_outcome each_started) \<le> group_outcome_precedence (ge_pending_outcome each_second) \<and>
   calls_return group_call_depth each_second"
  using group_outcome_worsens [THEN conjunct1, rule_format, OF each_run]
    group_outcome_worsens [THEN conjunct2, rule_format, of each_started group_call_depth _ "[each_invocation 0, each_invocation 1]"
      each_second] each_run each_call_graph each_started_fields(1)
  by auto

text \<open>A fork takes the two slots after the source's.\<close>

theorem fork_takes_free_slots_witness:
  "\<exists>g'. group_fork_flows 0 2 each_first = (HERMAS_RUNTIME_OK, [2, 3], g') \<and>
     is_active (flow_at g' 2) \<and> fl_value_length (flow_at g' 3) = 8"
proof -
  obtain g' where fork: "group_fork_flows 0 2 each_first = (HERMAS_RUNTIME_OK, [2, 3], g')"
    by (simp add: numeral_2_eq_2 find_flow_def first_index_def each_indices flow_at_def set_flow_def
        group_copy_value_def each_prepared_def each_flow_defs is_active_def Let_def)
  have "list_all flow_bounded (ge_flows each_first)"
    by (simp add: each_prepared_def each_flow_defs flow_bounded_def each_input_def)
  then show ?thesis using fork_takes_free_slots [OF fork] fork by (simp add: flow_at_def each_prepared_def each_flow_defs)
qed

end
