(* ===== verification/Spec2Isabelle.thy ===== *)
theory Spec2Isabelle
  imports Hermas_Journal_Samples Hermas_Saga_Trace Hermas_Compensation_Log Hermas_Result_Store Hermas_Group_Samples
begin

text \<open>
  \<^bold>\<open>Hermas\<close>, a daemon that executes validated graphs of independent application Actions, one delivery of each
  request and never a silent retry. This development models the core of its C code, the image
  validator, the runtime, the protocol and the durable logs, and proves what makes them correct.

  \<^bold>\<open>The program.\<close> A graph image (\<open>src/image.c\<close>) is validated once and then trusted. The runtime (\<open>src/runtime.c\<close>)
  walks it: a sequential execution has one value and one delivery at a time, a group has up to eight
  flows with forks, joins and each regions. The daemon exchanges packets (\<open>src/protocol.c\<close>) with the
  apps that serve the Actions. Before and after each delivery it appends to durable logs: the
  execution journal (\<open>src/journal.c\<close>), the saga log (\<open>src/saga_log.c\<close>), the compensation tokens
  (\<open>src/compensation.c\<close>) and the results (\<open>src/result.c\<close>). After a crash the startup scans read
  the logs back, and \<open>src/journal_linux.c\<close> closes what was interrupted.

  \<^bold>\<open>How C is modelled.\<close> A struct is a record with the C field names under a two-letter prefix, an enum is a
  datatype with the C constants, \<open>uint16_t\<close> and the other fixed-width integers are words, \<open>size_t\<close> is \<open>nat\<close> (every
  size the code computes is bounded far below the machine's limit, which the bounds of the image and of
  the packets show), a byte buffer is a list of bytes and a pointer an option with \<open>None\<close> for \<open>NULL\<close>. A
  function returns its result code with every object it changes, on all branches. A loop that only
  checks is a bounded quantifier over indices or a \<open>for_each\<close> with early exit; a loop that builds state is
  a recursion on the same counter. An error exit of a static function is \<open>Inl\<close> of the code that C returns
  there. Write callbacks and visitors are functions on the context that C passes as a pointer.

  \<^bold>\<open>Theories, in order.\<close>

  \<^item> \<^theory_text>\<open>Hermas_Prelude\<close>, \<^theory_text>\<open>Hermas_Bytes\<close>: words, buffers, searches, loops with early exit; the field accessors, CRC-32.
  \<^item> \<^theory_text>\<open>Hermas_Protocol\<close>: the frame codec; encoder and decoder are inverse to each other (C25, C26).
  \<^item> \<^theory_text>\<open>Hermas_Record_Log\<close>: the interface of an append-only log of records that decode one after the other
    (a locale); each of the four logs interprets it. \<^theory_text>\<open>Hermas_Keyed_Table\<close>: fixed tables
    searched by key.
  \<^item> \<^theory_text>\<open>Hermas_Journal\<close> (codec, writer; C29, C30), \<^theory_text>\<open>Hermas_Journal_Scan\<close> (the startup scan),
    \<^theory_text>\<open>Hermas_Journal_Spec\<close> (an abstract delivery machine, and that the scan refines it; C9),
    \<^theory_text>\<open>Hermas_Journal_Trace\<close> (what an accepted journal says of its executions; C1, C2, C3, C10),
    \<^theory_text>\<open>Hermas_Journal_Writer\<close> (append, and closing interrupted executions; C5, C6).
  \<^item> \<^theory_text>\<open>Hermas_Saga_Log\<close>, \<^theory_text>\<open>Hermas_Saga_Scan\<close>, \<^theory_text>\<open>Hermas_Saga_Trace\<close>: the saga log in the same way (C4, C11, C31).
  \<^item> \<^theory_text>\<open>Hermas_Compensation\<close>, \<^theory_text>\<open>Hermas_Compensation_Log\<close> (C8, C27), \<^theory_text>\<open>Hermas_Result\<close>, \<^theory_text>\<open>Hermas_Result_Store\<close> (C7, C28):
    the stores with keys, their codecs, scans, lookups and writers.
  \<^item> \<^theory_text>\<open>Hermas_Utf8\<close> (C24), \<^theory_text>\<open>Hermas_Image\<close>, \<^theory_text>\<open>Hermas_Image_Types\<close>, \<^theory_text>\<open>Hermas_Image_Validate\<close>, \<^theory_text>\<open>Hermas_Image_Queries\<close>: the
    image, its types and values, the validator stage by stage, the queries. \<^theory_text>\<open>Hermas_Image_Facts\<close>,
    \<^theory_text>\<open>Hermas_Image_Graph\<close>: what acceptance means: the layout, the type table, typed values,
    the degree of each node, reachability (C12, C13, C14, C23).
  \<^item> \<^theory_text>\<open>Hermas_Runtime\<close> (the operations on one execution), \<^theory_text>\<open>Hermas_Runtime_Path\<close> (a run follows a path that visits
    no node twice), \<^theory_text>\<open>Hermas_Runtime_Run\<close>: each node is delivered once, the value stays in its buffer, the
    invocations encode, and a result follows its edge and the dispatch tags it spells (C19 to C22).
  \<^item> \<^theory_text>\<open>Hermas_Group\<close> (the static functions of the group runtime), \<^theory_text>\<open>Hermas_Group_Operations\<close> (its operations),
    \<^theory_text>\<open>Hermas_Group_Progress\<close> (a relation that every call stays in), \<^theory_text>\<open>Hermas_Group_Run\<close> (runs: any sequence of
    calls, the failing ones included, and their invariant), \<^theory_text>\<open>Hermas_Group_Flight\<close> and
    \<^theory_text>\<open>Hermas_Group_Delivery\<close> (deliveries in flight), \<^theory_text>\<open>Hermas_Group_Marks\<close> (the each region marks of the slots,
    and what a fork does with the slots it takes; C32), \<^theory_text>\<open>Hermas_Group_Termination\<close> (the depth of the calls),
    \<^theory_text>\<open>Hermas_Group_Safety\<close> (the properties of runs, C15 to C18).
  \<^item> \<^theory_text>\<open>Hermas_Journal_Samples\<close>, \<^theory_text>\<open>Hermas_Image_Samples\<close>, \<^theory_text>\<open>Hermas_Runtime_Samples\<close>, \<^theory_text>\<open>Hermas_Each_Samples\<close>,
    \<^theory_text>\<open>Hermas_Group_Samples\<close>: two small images, logs and runs, evaluated in the kernel, that satisfy the
    hypotheses of the properties.

  \<^bold>\<open>Bounds and termination.\<close> The walks over type representations and values carry the recursion budget of the C code
  (\<open>HERMAS_IMAGE_MAX_TYPE_DEPTH\<close>: 64 levels below the root, so 65 steps suffice and running out is the C code's
  own refusal). The static functions of the group runtime call each other in a cycle through
  \<open>group_enter_edge\<close>; the model bounds the depth of these calls, and the rounds of the admission loop, by an
  argument \<open>n\<close>, with \<open>None\<close> when it is used up. \<open>Hermas_Group_Termination\<close> shows that the depth
  \<open>group_call_depth\<close> (131080: at most 65536 positions of a 16-bit edge table, and 65535 items of a 16-bit counter) is
  enough for every call on every state of every graph whose immediate positions (dispatch, fork, join,
  each region, without an Action in between) form no cycle, and that a greater depth returns the same.
  Rule 14 of \<open>docs/GRAPH_INVARIANTS.md\<close> demands that the whole graph is acyclic. The validator itself does not check
  it: it counts edges and reachability, so a join that waits for one of its own outputs passes; the
  safety parts of the properties of runs need no such assumption and hold at every depth.
  Everything else terminates by structure or by a measure: the bytes left, the length of the value, the
  active flows.

  \<^bold>\<open>What modelling showed.\<close> Startup recovery can write a journal that the next startup refuses (C6). A slot of a
  group keeps the each region mark of an item that was cut off; a later fork hands the slot to an ordinary
  branch with the mark on it, and \<open>hermas_group_prepare\<close>, which lets marked flows of one region share
  an Action, then prepares two ordinary branches for the same Action (C15 says what remains true, C32
  that the fork leaves the marks alone).

  \<^bold>\<open>Not modelled.\<close> The saga driver (\<open>saga.c\<close>) and the daemon's loop (\<open>loop_linux.c\<close>, \<open>daemon_linux.c\<close>), which call the
  components above; the control codec (\<open>control.c\<close>); files, sockets and signals; the command-line tools; the
  Rust compiler that produces the images, which the runtime does not trust.
\<close>

end
